(* ===== verification/Prelude.thy ===== *)
theory Prelude
  imports Main "HOL-Library.Word"
begin

text \<open>
  Shared vocabulary of the development: results that carry an exception, dictionaries built by
  repeated \<^verbatim>\<open>setdefault(key, []).append(item)\<close>, and the facts about bitwise operations on
  Python's unbounded integers that the register decoders use. Python integers are \<^typ>\<open>int\<close>;
  \<^verbatim>\<open>&\<close>, \<^verbatim>\<open>|\<close>, \<^verbatim>\<open>~\<close> are the bit operations of \<^typ>\<open>int\<close>, and
  \<^verbatim>\<open>>> k\<close> is \<^term>\<open>drop_bit k\<close>.
\<close>

unbundle bit_operations_syntax

named_theorems result_simps \<open>computation rules of results\<close>
named_theorems dict_simps \<open>lookups in dictionaries of lists\<close>
named_theorems bound_intros \<open>bounds of masked and shifted integers\<close>

subsection \<open>Results: a raised exception or a value\<close>

definition bind_res :: "'e + 'a \<Rightarrow> ('a \<Rightarrow> 'e + 'b) \<Rightarrow> 'e + 'b" where
  "bind_res r f = (case r of Inl e \<Rightarrow> Inl e | Inr x \<Rightarrow> f x)"

definition ensure :: "bool \<Rightarrow> 'e \<Rightarrow> 'e + unit" where
  "ensure b e = (if b then Inr () else Inl e)"

definition of_option :: "'e \<Rightarrow> 'a option \<Rightarrow> 'e + 'a" where
  "of_option e v = (case v of None \<Rightarrow> Inl e | Some x \<Rightarrow> Inr x)"

definition is_ok :: "'e + 'a \<Rightarrow> bool" where
  "is_ok r = (case r of Inl _ \<Rightarrow> False | Inr _ \<Rightarrow> True)"

lemma bind_res_simps [simp, result_simps]:
  "bind_res (Inl e) f = Inl e"
  "bind_res (Inr x) f = f x"
  by (simp_all add: bind_res_def)

lemma bind_res_Inr_conv [result_simps]:
  "bind_res r f = Inr y \<longleftrightarrow> (\<exists>x. r = Inr x \<and> f x = Inr y)"
  by (cases r) simp_all

lemma bind_res_InrE:
  assumes "bind_res r f = Inr y"
  obtains x where "r = Inr x" "f x = Inr y"
  using assms by (auto simp: bind_res_Inr_conv)

lemma ensure_Inr [simp, result_simps]: "ensure b e = Inr u \<longleftrightarrow> b"
  by (simp add: ensure_def)

lemma ensure_simps [simp, result_simps]:
  "ensure True e = Inr ()"
  "ensure False e = Inl e"
  by (simp_all add: ensure_def)

lemma ensure_Inl [simp, result_simps]: "ensure b e = Inl e' \<longleftrightarrow> \<not> b \<and> e' = e"
  by (auto simp: ensure_def)

lemma of_option_Inr [simp, result_simps]: "of_option e v = Inr x \<longleftrightarrow> v = Some x"
  by (cases v) (simp_all add: of_option_def)

lemma of_option_simps [simp, result_simps]:
  "of_option e None = Inl e"
  "of_option e (Some x) = Inr x"
  by (simp_all add: of_option_def)

lemma is_ok_conv [simp, result_simps]: "is_ok r \<longleftrightarrow> (\<exists>x. r = Inr x)"
  by (cases r) (simp_all add: is_ok_def)

text \<open>A list comprehension whose body may raise: the first exception wins.\<close>

fun map_res :: "('a \<Rightarrow> 'e + 'b) \<Rightarrow> 'a list \<Rightarrow> 'e + 'b list" where
  "map_res f [] = Inr []"
| "map_res f (x # xs) = bind_res (f x) (\<lambda>y. bind_res (map_res f xs) (\<lambda>ys. Inr (y # ys)))"

lemma map_res_Inr_conv:
  "map_res f xs = Inr ys \<longleftrightarrow> list_all2 (\<lambda>x y. f x = Inr y) xs ys"
  by (induction xs arbitrary: ys) (auto simp: bind_res_Inr_conv list_all2_Cons1)

lemma map_res_length: "map_res f xs = Inr ys \<Longrightarrow> length ys = length xs"
  by (simp add: map_res_Inr_conv list_all2_lengthD)

lemma map_res_nth:
  "map_res f xs = Inr ys \<Longrightarrow> i < length xs \<Longrightarrow> f (xs ! i) = Inr (ys ! i)"
  by (auto simp: map_res_Inr_conv dest: list_all2_nthD)

lemma map_res_total: "(\<And>x. x \<in> set xs \<Longrightarrow> \<exists>y. f x = Inr y) \<Longrightarrow> \<exists>ys. map_res f xs = Inr ys"
proof (induction xs)
  case (Cons x xs)
  from Cons.prems [of x] Cons.IH Cons.prems show ?case by fastforce
qed simp

subsection \<open>Dictionaries of lists\<close>

text \<open>\<^verbatim>\<open>for x in xs: d.setdefault(key(x), []).append(x)\<close>\<close>

definition append_at :: "('k \<rightharpoonup> 'a list) \<Rightarrow> 'k \<Rightarrow> 'a \<Rightarrow> ('k \<rightharpoonup> 'a list)" where
  "append_at m k x = m(k \<mapsto> (case m k of None \<Rightarrow> [x] | Some ys \<Rightarrow> ys @ [x]))"

definition group_by :: "('a \<Rightarrow> 'k) \<Rightarrow> 'a list \<Rightarrow> ('k \<rightharpoonup> 'a list)" where
  "group_by key xs = foldl (\<lambda>m x. append_at m (key x) x) Map.empty xs"

text \<open>\<^verbatim>\<open>d.get(key, [])\<close>\<close>

definition get_list :: "('k \<rightharpoonup> 'a list) \<Rightarrow> 'k \<Rightarrow> 'a list" where
  "get_list m k = (case m k of None \<Rightarrow> [] | Some ys \<Rightarrow> ys)"

text \<open>
  The interface the clients of such a dictionary rely on: looking a key up gives the items with
  that key, in the order of the list, and a key is present exactly when some item has it.
\<close>

locale grouping =
  fixes key :: "'a \<Rightarrow> 'k"
    and grp :: "'a list \<Rightarrow> ('k \<rightharpoonup> 'a list)"
  assumes present: "(\<exists>x \<in> set xs. key x = k) \<Longrightarrow> grp xs k = Some (filter (\<lambda>x. key x = k) xs)"
    and absent: "\<not> (\<exists>x \<in> set xs. key x = k) \<Longrightarrow> grp xs k = None"
begin

lemma get_filter: "get_list (grp xs) k = filter (\<lambda>x. key x = k) xs"
proof (cases "\<exists>x \<in> set xs. key x = k")
  case True
  then show ?thesis by (simp add: get_list_def present)
next
  case False
  then show ?thesis by (auto simp: get_list_def absent filter_empty_conv)
qed

lemma lookup_conv:
  "grp xs k = Some ys \<longleftrightarrow> ys = filter (\<lambda>x. key x = k) xs \<and> ys \<noteq> []"
  by (cases "\<exists>x \<in> set xs. key x = k") (auto simp: present absent filter_empty_conv)

lemma lookup_None: "grp xs k = None \<longleftrightarrow> k \<notin> key ` set xs"
  by (cases "\<exists>x \<in> set xs. key x = k") (auto simp: present absent)

lemma dom_keys: "dom (grp xs) = key ` set xs"
  by (auto simp: dom_def lookup_None)

lemma member: "x \<in> set (get_list (grp xs) k) \<longleftrightarrow> x \<in> set xs \<and> key x = k"
  by (auto simp: get_filter)

lemma unique_item:
  assumes "get_list (grp xs) k = [x]" and "y \<in> set xs" and "key y = k"
  shows "y = x"
  using assms member [of y xs k] by simp

end

lemma group_by_snoc: "group_by key (xs @ [x]) = append_at (group_by key xs) (key x) x"
  by (simp add: group_by_def)

lemma group_by_apply:
  "group_by key xs k =
     (if \<exists>x \<in> set xs. key x = k then Some (filter (\<lambda>x. key x = k) xs) else None)"
proof (induction xs rule: rev_induct)
  case Nil
  then show ?case by (simp add: group_by_def)
next
  case (snoc x xs)
  then show ?case
    by (auto simp: group_by_snoc append_at_def filter_empty_conv split: if_splits)
qed

interpretation grouped: grouping key "group_by key" for key
  by unfold_locales (simp_all add: group_by_apply)

lemmas group_by_simps [dict_simps] = grouped.get_filter grouped.lookup_conv grouped.lookup_None

subsection \<open>Masks and shifts of unbounded integers\<close>

lemma and_nonneg_right [simp, bound_intros]: "0 \<le> (m::int) \<Longrightarrow> 0 \<le> x AND m"
  by simp

lemma and_le_mask [bound_intros]: "0 \<le> (m::int) \<Longrightarrow> x AND m \<le> m"
  by (rule AND_upper2)

lemma drop_bit_mono_int: "(x::int) \<le> y \<Longrightarrow> drop_bit k x \<le> drop_bit k y"
  by (simp add: drop_bit_eq_div zdiv_mono1)

lemma drop_bit_nonneg_int [bound_intros]: "0 \<le> (x::int) \<Longrightarrow> 0 \<le> drop_bit k x"
  by simp

text \<open>A masked and shifted field is between 0 and the shifted mask.\<close>

lemma field_bounds:
  assumes "0 \<le> (m::int)"
  shows "0 \<le> drop_bit k (x AND m) \<and> drop_bit k (x AND m) \<le> drop_bit k m"
  using assms by (simp add: drop_bit_mono_int and_le_mask)

text \<open>Python's truth value of \<^verbatim>\<open>x & (1 << k)\<close>.\<close>

lemma and_power_eq_0_iff: "(x::int) AND 2 ^ k = 0 \<longleftrightarrow> \<not> bit x k"
  by (simp add: and_exp_eq_0_iff_not_bit)

subsection \<open>Sums\<close>

lemma sum_list_bounds [bound_intros]:
  fixes lo hi :: int
  assumes "\<And>x. x \<in> set xs \<Longrightarrow> lo \<le> f x \<and> f x \<le> hi"
  shows "lo * int (length xs) \<le> sum_list (map f xs) \<and> sum_list (map f xs) \<le> hi * int (length xs)"
  using assms
proof (induction xs)
  case (Cons x xs)
  then have "lo * int (length xs) \<le> sum_list (map f xs) \<and> sum_list (map f xs) \<le> hi * int (length xs)"
    "lo \<le> f x \<and> f x \<le> hi" by simp_all
  then show ?case by (simp add: algebra_simps)
qed simp

end
