(* ===== verification/PyText.thy ===== *)
theory PyText
  imports Prelude
begin

text \<open>
  The string operations of Python that the tools use, on text whose code points are below 256
  (a \<^typ>\<open>char\<close> is one code point, Latin-1): character classes of \<^verbatim>\<open>re\<close>,
  \<^verbatim>\<open>splitlines\<close>, \<^verbatim>\<open>strip\<close>, \<^verbatim>\<open>split\<close>,
  \<^verbatim>\<open>int(text, base)\<close>, the \<^verbatim>\<open>name=value\<close> pattern \<^verbatim>\<open>FIELD_RE\<close>, and the
  zero-padded hexadecimal format \<^verbatim>\<open>f"0x{v:08x}"\<close> with its round trip through
  \<^verbatim>\<open>int(text, 16)\<close>.
\<close>

subsection \<open>Character classes\<close>

definition code_point :: "char \<Rightarrow> int" where
  "code_point c = of_char c"

definition is_space :: "char \<Rightarrow> bool" where
  "is_space c = (let n = code_point c in
     (9 \<le> n \<and> n \<le> 13) \<or> (28 \<le> n \<and> n \<le> 32) \<or> n = 133 \<or> n = 160)"

definition is_line_break :: "char \<Rightarrow> bool" where
  "is_line_break c = (let n = code_point c in
     (10 \<le> n \<and> n \<le> 13) \<or> (28 \<le> n \<and> n \<le> 30) \<or> n = 133)"

definition is_digit :: "char \<Rightarrow> bool" where
  "is_digit c = (let n = code_point c in 48 \<le> n \<and> n \<le> 57)"

definition is_alpha :: "char \<Rightarrow> bool" where
  "is_alpha c = (let n = code_point c in (65 \<le> n \<and> n \<le> 90) \<or> (97 \<le> n \<and> n \<le> 122))"

text \<open>\<^verbatim>\<open>\w\<close>: alphanumeric code points and the underscore.\<close>

definition is_word :: "char \<Rightarrow> bool" where
  "is_word c = (let n = code_point c in
     is_digit c \<or> is_alpha c \<or> n = 95 \<or> n = 170 \<or> n = 178 \<or> n = 179 \<or> n = 181 \<or> n = 185 \<or>
     n = 186 \<or> (188 \<le> n \<and> n \<le> 190) \<or> (192 \<le> n \<and> n \<le> 214) \<or> (216 \<le> n \<and> n \<le> 246) \<or> 248 \<le> n)"

text \<open>\<^verbatim>\<open>[A-Za-z_]\<close> and \<^verbatim>\<open>[A-Za-z0-9_]\<close>.\<close>

definition ident_start :: "char \<Rightarrow> bool" where
  "ident_start c = (is_alpha c \<or> c = CHR ''_'')"

definition ident_char :: "char \<Rightarrow> bool" where
  "ident_char c = (is_alpha c \<or> is_digit c \<or> c = CHR ''_'')"

definition lower_char :: "char \<Rightarrow> char" where
  "lower_char c = (let n = code_point c in
     if (65 \<le> n \<and> n \<le> 90) \<or> (192 \<le> n \<and> n \<le> 214) \<or> (216 \<le> n \<and> n \<le> 222)
     then char_of (n + 32) else c)"

definition lower :: "string \<Rightarrow> string" where
  "lower s = map lower_char s"

subsection \<open>Splitting\<close>

function splitlines_from :: "string \<Rightarrow> string \<Rightarrow> string list" where
  "splitlines_from cur [] = (if cur = [] then [] else [rev cur])"
| "splitlines_from cur (c # cs) =
     (if is_line_break c
      then rev cur # splitlines_from []
             (if code_point c = 13 \<and> cs \<noteq> [] \<and> code_point (hd cs) = 10 then tl cs else cs)
      else splitlines_from (c # cur) cs)"
  by pat_completeness auto
termination
  by (relation "measure (\<lambda>(cur, s). length s)") auto

definition splitlines :: "string \<Rightarrow> string list" where
  "splitlines s = splitlines_from [] s"

text \<open>\<^verbatim>\<open>enumerate(xs, first)\<close>\<close>

fun enumerate_from :: "nat \<Rightarrow> 'a list \<Rightarrow> (nat \<times> 'a) list" where
  "enumerate_from n [] = []"
| "enumerate_from n (x # xs) = (n, x) # enumerate_from (Suc n) xs"

lemma filter_enumerate_from: "length (filter (p \<circ> snd) (enumerate_from n xs)) = length (filter p xs)"
  by (induction xs arbitrary: n) simp_all

lemma enumerate_from_eq: "enumerate_from k xs = enumerate k xs"
  by (induction xs arbitrary: k) simp_all

text \<open>\<^verbatim>\<open>sep.join(xs)\<close>\<close>

fun join :: "string \<Rightarrow> string list \<Rightarrow> string" where
  "join sep [] = []"
| "join sep [x] = x"
| "join sep (x # y # xs) = x @ sep @ join sep (y # xs)"

definition strip :: "string \<Rightarrow> string" where
  "strip s = rev (dropWhile is_space (rev (dropWhile is_space s)))"

definition skip_space :: "string \<Rightarrow> string" where
  "skip_space s = dropWhile is_space s"

text \<open>\<^verbatim>\<open>s.split()\<close>\<close>

function words_of :: "string \<Rightarrow> string list" where
  "words_of s = (let t = skip_space s in
     if t = [] then [] else takeWhile (\<lambda>c. \<not> is_space c) t # words_of (dropWhile (\<lambda>c. \<not> is_space c) t))"
  by pat_completeness auto
termination
proof (relation "measure length", goal_cases)
  case (2 s t)
  then have "t \<noteq> []" "length t \<le> length s" "\<not> is_space (hd t)"
    by (auto simp: skip_space_def length_dropWhile_le hd_dropWhile)
  then show ?case by (cases t) (auto intro!: le_less_trans [OF length_dropWhile_le])
qed simp

declare words_of.simps [simp del]

text \<open>The first whitespace-separated token of \<^verbatim>\<open>s.strip()\<close>, empty when there is none.\<close>

definition first_token :: "string \<Rightarrow> string" where
  "first_token s = takeWhile (\<lambda>c. \<not> is_space c) (strip s)"

fun starts_with :: "string \<Rightarrow> string \<Rightarrow> bool" where
  "starts_with [] s = True"
| "starts_with (p # ps) [] = False"
| "starts_with (p # ps) (c # cs) = (p = c \<and> starts_with ps cs)"

text \<open>\<^verbatim>\<open>s.split(pat, 1)[1]\<close> when \<^verbatim>\<open>pat in s\<close>, for a nonempty pattern.\<close>

fun after_first :: "string \<Rightarrow> string \<Rightarrow> string option" where
  "after_first pat [] = None"
| "after_first pat (c # cs) =
     (if starts_with pat (c # cs) then Some (drop (length pat) (c # cs)) else after_first pat cs)"

text \<open>\<^verbatim>\<open>re.search(r"\bPAT\b", s, re.IGNORECASE)\<close> for a lower-case pattern that begins and
  ends with a word character; the first argument says whether a word character precedes.\<close>

fun search_word :: "string \<Rightarrow> bool \<Rightarrow> string \<Rightarrow> bool" where
  "search_word pat before [] = False"
| "search_word pat before (c # cs) =
     ((\<not> before \<and> starts_with pat (lower (c # cs)) \<and>
       (case drop (length pat) (c # cs) of [] \<Rightarrow> True | d # _ \<Rightarrow> \<not> is_word d))
      \<or> search_word pat (is_word c) cs)"

subsection \<open>The field pattern\<close>

text \<open>\<^verbatim>\<open>FIELD_RE.findall(line)\<close> for \<^verbatim>\<open>\b([A-Za-z_][A-Za-z0-9_]*)=([^\s]+)\<close>: the leftmost
  matches, left to right. The flag says whether the character before is a word character.\<close>

function find_fields :: "bool \<Rightarrow> string \<Rightarrow> (string \<times> string) list" where
  "find_fields before [] = []"
| "find_fields before (c # cs) =
     (let name = c # takeWhile ident_char cs; rest = dropWhile ident_char cs;
          val = takeWhile (\<lambda>d. \<not> is_space d) (tl rest) in
      if \<not> before \<and> ident_start c \<and> rest \<noteq> [] \<and> hd rest = CHR ''='' \<and> val \<noteq> []
      then (name, val) # find_fields (is_word (last val)) (dropWhile (\<lambda>d. \<not> is_space d) (tl rest))
      else find_fields (is_word c) cs)"
  by pat_completeness auto
termination
proof (relation "measure (\<lambda>(b, s). length s)", goal_cases)
  case 1
  show ?case by simp
next
  case (2 before c cs name rest val)
  have "length (dropWhile (\<lambda>d. \<not> is_space d) (tl rest)) \<le> length (tl rest)"
    by (rule length_dropWhile_le)
  also have "\<dots> \<le> length rest" by simp
  also have "\<dots> \<le> length cs" unfolding 2(2) by (rule length_dropWhile_le)
  finally show ?case by simp
next
  case 3
  then show ?case by simp
qed

text \<open>\<^verbatim>\<open>{key.lower(): value for key, value in FIELD_RE.findall(line)}\<close>: the last one wins.\<close>

definition line_fields :: "string \<Rightarrow> (string \<rightharpoonup> string)" where
  "line_fields line = map_of (rev (map (\<lambda>(k, v). (lower k, v)) (find_fields False line)))"

subsection \<open>Integers in text\<close>

text \<open>The white space \<^verbatim>\<open>int\<close> accepts around a number.\<close>

definition int_space :: "char \<Rightarrow> bool" where
  "int_space c = (let n = code_point c in (9 \<le> n \<and> n \<le> 13) \<or> n = 32 \<or> n = 133 \<or> n = 160)"

definition dec_digit :: "char \<Rightarrow> int option" where
  "dec_digit c = (if is_digit c then Some (code_point c - 48) else None)"

definition hex_digit :: "char \<Rightarrow> int option" where
  "hex_digit c = (let n = code_point c in
     if 48 \<le> n \<and> n \<le> 57 then Some (n - 48)
     else if 97 \<le> n \<and> n \<le> 102 then Some (n - 87)
     else if 65 \<le> n \<and> n \<le> 70 then Some (n - 55) else None)"

definition is_hex_char :: "char \<Rightarrow> bool" where
  "is_hex_char c \<longleftrightarrow> hex_digit c \<noteq> None"

text \<open>\<^verbatim>\<open>re.fullmatch\<close> of a pattern that is one character class after the other.\<close>

definition matches_pattern :: "(char \<Rightarrow> bool) list \<Rightarrow> string \<Rightarrow> bool" where
  "matches_pattern ps s \<longleftrightarrow> list_all2 (\<lambda>p c. p c) ps s"

text \<open>Digits with single underscores between them; the flag says that a digit must follow.\<close>

fun digits_body :: "(char \<Rightarrow> int option) \<Rightarrow> int \<Rightarrow> bool \<Rightarrow> int \<Rightarrow> string \<Rightarrow> int option" where
  "digits_body dig b need acc [] = (if need then None else Some acc)"
| "digits_body dig b need acc (c # cs) =
     (case dig c of
        Some d \<Rightarrow> digits_body dig b False (acc * b + d) cs
      | None \<Rightarrow> if c = CHR ''_'' \<and> \<not> need then digits_body dig b True acc cs else None)"

definition int_strip :: "string \<Rightarrow> string" where
  "int_strip s = rev (dropWhile int_space (rev (dropWhile int_space s)))"

fun split_sign :: "string \<Rightarrow> int \<times> string" where
  "split_sign [] = (1, [])"
| "split_sign (c # cs) =
     (if c = CHR ''-'' then (-1, cs) else if c = CHR ''+'' then (1, cs) else (1, c # cs))"

text \<open>The interpreter's default limit on decimal digits (\<^verbatim>\<open>sys.get_int_max_str_digits()\<close>).\<close>

definition max_str_digits :: int where
  "max_str_digits = 4300"

definition py_int10 :: "string \<Rightarrow> int option" where
  "py_int10 s = (let (sg, body) = split_sign (int_strip s) in
     if int (length (filter is_digit body)) > max_str_digits then None
     else map_option (\<lambda>n. sg * n) (digits_body dec_digit 10 True 0 body))"

definition drop_0x :: "string \<Rightarrow> string" where
  "drop_0x s = (case s of
     z # x # rest \<Rightarrow> if z = CHR ''0'' \<and> (x = CHR ''x'' \<or> x = CHR ''X'')
       then (case rest of u # rest' \<Rightarrow> if u = CHR ''_'' then rest' else rest | [] \<Rightarrow> [])
       else s
   | _ \<Rightarrow> s)"

definition py_int16 :: "string \<Rightarrow> int option" where
  "py_int16 s = (let (sg, body) = split_sign (int_strip s) in
     map_option (\<lambda>n. sg * n) (digits_body hex_digit 16 True 0 (drop_0x body)))"

text \<open>\<^verbatim>\<open>HEX_RE.fullmatch(value)\<close> for \<^verbatim>\<open>^0[xX][0-9a-fA-F]+$\<close>.\<close>

definition hex_match :: "string \<Rightarrow> bool" where
  "hex_match s = (case s of
     z # x # ds \<Rightarrow> z = CHR ''0'' \<and> (x = CHR ''x'' \<or> x = CHR ''X'') \<and> ds \<noteq> [] \<and>
       list_all (\<lambda>c. hex_digit c \<noteq> None) ds
   | _ \<Rightarrow> False)"

subsection \<open>Hexadecimal output\<close>

definition hex_char :: "int \<Rightarrow> char" where
  "hex_char d = char_of (if d < 10 then 48 + d else 87 + d)"

function hex_nat :: "int \<Rightarrow> string" where
  "hex_nat n = (if n < 16 then [hex_char n] else hex_nat (n div 16) @ [hex_char (n mod 16)])"
  by pat_completeness auto
termination
  by (relation "measure nat") auto

declare hex_nat.simps [simp del]

text \<open>\<^verbatim>\<open>f"0x{v:0{w}x}"\<close>: zero padding goes after the sign and counts it.\<close>

definition py_hex :: "nat \<Rightarrow> int \<Rightarrow> string" where
  "py_hex w v = (let ds = hex_nat \<bar>v\<bar> in
     if v < 0 then ''0x-'' @ replicate (w - Suc (length ds)) (CHR ''0'') @ ds
     else ''0x'' @ replicate (w - length ds) (CHR ''0'') @ ds)"

text \<open>\<^verbatim>\<open>s.upper()\<close> of ASCII text, and \<^verbatim>\<open>f"0x{v:0{w}X}"\<close> of a non-negative number.\<close>

definition upper_char :: "char \<Rightarrow> char" where
  "upper_char c = (let n = code_point c in if 97 \<le> n \<and> n \<le> 122 then char_of (n - 32) else c)"

definition upper :: "string \<Rightarrow> string" where
  "upper s = map upper_char s"

definition py_HEX :: "nat \<Rightarrow> int \<Rightarrow> string" where
  "py_HEX w v = ''0x'' @ upper (drop 2 (py_hex w v))"

lemma hex_nat_neq_Nil [simp]: "hex_nat n \<noteq> []"
  by (subst hex_nat.simps) simp

lemma code_point_char_of [simp]: "0 \<le> n \<Longrightarrow> n < 256 \<Longrightarrow> code_point (char_of n) = n"
  by (simp add: code_point_def)

lemma hex_digit_hex_char: "0 \<le> d \<Longrightarrow> d < 16 \<Longrightarrow> hex_digit (hex_char d) = Some d"
  by (simp add: hex_digit_def hex_char_def)

lemma digits_body_nonneg:
  assumes "\<And>c d. dig c = Some d \<Longrightarrow> 0 \<le> d"
  shows "0 \<le> b \<Longrightarrow> 0 \<le> acc \<Longrightarrow> digits_body dig b need acc cs = Some n \<Longrightarrow> 0 \<le> n"
  using assms by (induction dig b need acc cs rule: digits_body.induct) (auto split: option.splits if_splits)

lemma hex_digit_nonneg: "hex_digit c = Some d \<Longrightarrow> 0 \<le> d"
  by (auto simp: hex_digit_def Let_def split: if_splits)

lemma digits_body_total:
  "list_all (\<lambda>c. dig c \<noteq> None) cs \<Longrightarrow> cs \<noteq> [] \<or> \<not> need \<Longrightarrow> \<exists>n. digits_body dig b need acc cs = Some n"
  by (induction dig b need acc cs rule: digits_body.induct) auto

lemma hex_match_value:
  assumes "hex_match s"
  shows "\<exists>v. digits_body hex_digit 16 True 0 (drop 2 s) = Some v \<and> 0 \<le> v"
proof -
  have "list_all (\<lambda>c. hex_digit c \<noteq> None) (drop 2 s)" "drop 2 s \<noteq> []"
    using assms by (auto simp: hex_match_def split: list.splits)
  then obtain v where "digits_body hex_digit 16 True 0 (drop 2 s) = Some v"
    using digits_body_total [of hex_digit "drop 2 s" True 16 0] by blast
  with digits_body_nonneg [of hex_digit 16 0 True "drop 2 s" v] hex_digit_nonneg show ?thesis by auto
qed

lemma digits_body_append:
  assumes "digits_body dig b need acc xs = Some n" and "ys \<noteq> []"
  shows "digits_body dig b need acc (xs @ ys) = digits_body dig b False n ys"
  using assms by (induction dig b need acc xs rule: digits_body.induct)
    (auto split: option.splits if_splits)

lemma digits_body_hex_nat:
  "0 \<le> n \<Longrightarrow> digits_body hex_digit 16 need 0 (hex_nat n) = Some n"
proof (induction n rule: hex_nat.induct)
  case (1 n)
  show ?case
  proof (cases "n < 16")
    case True
    with "1.prems" show ?thesis by (simp add: hex_nat.simps [of n] hex_digit_hex_char)
  next
    case False
    with 1 have "digits_body hex_digit 16 need 0 (hex_nat (n div 16)) = Some (n div 16)" by simp
    then have "digits_body hex_digit 16 need 0 (hex_nat (n div 16) @ [hex_char (n mod 16)])
        = digits_body hex_digit 16 False (n div 16) [hex_char (n mod 16)]"
      by (rule digits_body_append) simp
    with False show ?thesis by (simp add: hex_nat.simps [of n] hex_digit_hex_char)
  qed
qed

lemma digits_body_zeros:
  "0 \<le> n \<Longrightarrow> digits_body hex_digit 16 need 0 (replicate k (CHR ''0'') @ hex_nat n) = Some n"
proof (induction k arbitrary: need)
  case 0
  then show ?case by (simp add: digits_body_hex_nat)
next
  case (Suc k)
  have "hex_digit (CHR ''0'') = Some 0" by (simp add: hex_digit_def code_point_def)
  with Suc show ?case by simp
qed

subsection \<open>The round trip of hexadecimal text\<close>

lemma hex_nat_chars: "0 \<le> n \<Longrightarrow> c \<in> set (hex_nat n) \<Longrightarrow> \<exists>d. 0 \<le> d \<and> d < 16 \<and> c = hex_char d"
proof (induction n rule: hex_nat.induct)
  case (1 n)
  show ?case
  proof (cases "n < 16")
    case True
    with "1.prems" show ?thesis by (auto simp: hex_nat.simps [of n])
  next
    case False
    with "1.prems"(2) have "c \<in> set (hex_nat (n div 16)) \<or> c = hex_char (n mod 16)"
      by (auto simp: hex_nat.simps [of n])
    with "1.IH" "1.prems"(1) False show ?thesis by (auto intro: exI [of _ "n mod 16"])
  qed
qed

lemma hex_char_plain:
  assumes "0 \<le> d" and "d < 16"
  shows "\<not> int_space (hex_char d)" and "hex_char d \<noteq> CHR ''_''"
proof -
  show "\<not> int_space (hex_char d)" using assms by (simp add: int_space_def hex_char_def)
  show "hex_char d \<noteq> CHR ''_''"
    using hex_digit_hex_char [OF assms] by (auto simp: hex_digit_def code_point_def)
qed

lemma not_space_ends:
  assumes "s \<noteq> []" and "\<not> int_space (hd s)" and "\<not> int_space (last s)"
  shows "int_strip s = s"
proof -
  have "dropWhile int_space s = s" using assms(1,2) by (cases s) simp_all
  moreover have "dropWhile int_space (rev s) = rev s"
    using assms(1,3) by (cases s rule: rev_cases) simp_all
  ultimately show ?thesis by (simp add: int_strip_def)
qed

lemma py_int16_py_hex:
  assumes "0 \<le> v"
  shows "py_int16 (py_hex w v) = Some v"
proof -
  let ?zs = "replicate (w - length (hex_nat v)) (CHR ''0'')"
  let ?ds = "?zs @ hex_nat v"
  have shape: "py_hex w v = CHR ''0'' # CHR ''x'' # ?ds"
    using assms by (simp add: py_hex_def Let_def)
  have last_in: "last ?ds \<in> set (hex_nat v)" by simp
  have "\<not> int_space (last ?ds)"
    using hex_nat_chars [OF assms last_in] hex_char_plain by auto
  moreover have "\<not> int_space (CHR ''0'')" by (simp add: int_space_def code_point_def)
  ultimately have "int_strip (py_hex w v) = py_hex w v"
    by (intro not_space_ends) (simp_all add: shape)
  moreover have "split_sign (py_hex w v) = (1, py_hex w v)" by (simp add: shape)
  moreover have "hd ?ds \<noteq> CHR ''_''"
  proof -
    have "hd ?ds \<in> set ?ds" by (rule hd_in_set) simp
    then consider "hd ?ds = CHR ''0''" | "hd ?ds \<in> set (hex_nat v)"
      by (auto simp: in_set_replicate)
    then show ?thesis using hex_nat_chars [OF assms] hex_char_plain(2) by cases force+
  qed
  then have "drop_0x (py_hex w v) = ?ds"
    by (auto simp: shape drop_0x_def split: list.splits)
  ultimately show ?thesis
    using assms by (simp add: py_int16_def digits_body_zeros)
qed

text \<open>
  What the clients of a text or byte encoding rely on: decoding an encoded value gives it back.
  Everything the decoders of the captures need of their hexadecimal fields, and the payload
  builder of its words, is proved here once.
\<close>

locale codec =
  fixes enc :: "'v \<Rightarrow> 't"
    and dec :: "'t \<Rightarrow> 'v option"
    and valid :: "'v \<Rightarrow> bool"
  assumes dec_enc: "valid v \<Longrightarrow> dec (enc v) = Some v"
begin

lemma enc_inject: "valid v \<Longrightarrow> valid w \<Longrightarrow> enc v = enc w \<longleftrightarrow> v = w"
  using dec_enc by (metis option.inject)

lemma dec_enc_list: "list_all valid vs \<Longrightarrow> map (\<lambda>v. the (dec (enc v))) vs = vs"
  by (induction vs) (auto simp: dec_enc)

lemma inj_on_enc: "inj_on enc {v. valid v}"
  by (auto intro!: inj_onI simp: enc_inject)

end

interpretation hex_text: codec "py_hex w" py_int16 "\<lambda>v. 0 \<le> v" for w
  by unfold_locales (rule py_int16_py_hex)

end
