(* ===== verification/TopWords.thy ===== *)
theory TopWords
  imports PyText
begin

text \<open>
  The word decoder of \<^verbatim>\<open>tools/decode_gv100_top.py\<close>: \<^verbatim>\<open>decode_top_words\<close> walks the 64
  words of the GV100 TOP table, joins words whose continuation bit 31 is set into one record and
  turns each complete record into a device. \<open>split_records\<close> and \<open>record_of_words\<close> are the
  specification it is proved against.
\<close>

subsection \<open>Data\<close>

definition TOP_BASE :: int where "TOP_BASE = 0x022700"
definition TOP_WORDS :: nat where "TOP_WORDS = 64"
definition TOP_END :: int where "TOP_END = TOP_BASE + int TOP_WORDS * 4"

text \<open>The exact \<^verbatim>\<open>ENGINE_TYPES\<close> table: type name and fixed instance, if any.\<close>

definition ENGINE_TYPES :: "(int \<times> string \<times> int option) list" where
  "ENGINE_TYPES =
    [(0x00, ''GR'', Some 0), (0x01, ''CE'', Some 0), (0x02, ''CE'', Some 1), (0x03, ''CE'', Some 2),
     (0x08, ''MSPDEC'', Some 0), (0x09, ''MSPPP'', Some 0), (0x0A, ''MSVLD'', Some 0),
     (0x0B, ''MSENC'', Some 0), (0x0C, ''VIC'', Some 0), (0x0D, ''SEC2'', Some 0),
     (0x0E, ''NVENC'', None), (0x0F, ''NVENC'', Some 1), (0x10, ''NVDEC'', None),
     (0x12, ''IOCTRL'', None), (0x13, ''CE'', None), (0x14, ''GSP'', Some 0), (0x15, ''NVJPG'', None)]"

definition hex32 :: "int \<Rightarrow> string" where
  "hex32 v = py_hex 8 v"

record top_record =
  tr_start_index :: nat
  tr_word_indices :: "nat list"
  tr_raw_words :: "string list"
  tr_engine_type_code :: "int option"
  tr_source_instance :: int
  tr_address :: int
  tr_fault :: int
  tr_engine :: int
  tr_runlist :: int
  tr_interrupt :: int
  tr_reset :: int

definition new_record :: "nat \<Rightarrow> top_record" where
  "new_record index = \<lparr>
     tr_start_index = index, tr_word_indices = [], tr_raw_words = [], tr_engine_type_code = None,
     tr_source_instance = 0, tr_address = 0, tr_fault = -1, tr_engine = -1, tr_runlist = -1,
     tr_interrupt = -1, tr_reset = -1\<rparr>"

record top_device =
  td_complete :: bool
  td_start_index :: nat
  td_end_index :: nat
  td_word_indices :: "nat list"
  td_raw_words :: "string list"
  td_engine_type_code :: "string option"
  td_type :: string
  td_instance :: int
  td_source_instance :: int
  td_fixed_instance_warning :: bool
  td_address :: string
  td_fault :: int
  td_engine :: int
  td_runlist :: int
  td_interrupt :: int
  td_reset_selector :: "int option"

text \<open>\<^verbatim>\<open>_finish_record\<close>: name, instance and warning from the engine type table.\<close>

definition engine_mapping :: "int option \<Rightarrow> (string \<times> int option) option" where
  "engine_mapping code = (case code of None \<Rightarrow> None | Some c \<Rightarrow> map_of ENGINE_TYPES c)"

definition finish_record :: "top_record \<Rightarrow> nat \<Rightarrow> bool \<Rightarrow> top_device" where
  "finish_record r index complete = (let
     (name, inst, warn) =
       (case engine_mapping (tr_engine_type_code r) of
          None \<Rightarrow> (''UNKNOWN'', -1, False)
        | Some (nm, fixed) \<Rightarrow>
            (nm, (case fixed of None \<Rightarrow> tr_source_instance r | Some i \<Rightarrow> i),
             fixed \<noteq> None \<and> tr_source_instance r \<noteq> 0))
   in \<lparr> td_complete = complete,
        td_start_index = tr_start_index r,
        td_end_index = index,
        td_word_indices = tr_word_indices r,
        td_raw_words = tr_raw_words r,
        td_engine_type_code = map_option hex32 (tr_engine_type_code r),
        td_type = name,
        td_instance = inst,
        td_source_instance = tr_source_instance r,
        td_fixed_instance_warning = warn,
        td_address = hex32 (tr_address r),
        td_fault = tr_fault r,
        td_engine = tr_engine r,
        td_runlist = tr_runlist r,
        td_interrupt = tr_interrupt r,
        td_reset_selector = (if tr_reset r < 0 then None else Some (tr_reset r))\<rparr>)"

subsection \<open>One word\<close>

text \<open>\<^verbatim>\<open>data & 3\<close>: 0 not valid, 1 DATA, 2 ENUM, 3 ENGINE\_TYPE.\<close>

definition word_kind :: "int \<Rightarrow> int" where
  "word_kind data = data AND 0x3"

text \<open>The assignments a DATA, ENUM or ENGINE\_TYPE word makes to the current record.\<close>

definition apply_data :: "int \<Rightarrow> top_record \<Rightarrow> top_record" where
  "apply_data data r =
     (let r1 = r\<lparr>tr_source_instance := drop_bit 26 (data AND 0x3C000000),
                 tr_address := data AND 0x00FFF000\<rparr>
      in if data AND 0x4 \<noteq> 0 then r1\<lparr>tr_fault := drop_bit 3 (data AND 0x000003F8)\<rparr> else r1)"

definition apply_enum :: "int \<Rightarrow> top_record \<Rightarrow> top_record" where
  "apply_enum data r =
     (let r1 = (if data AND 0x20 \<noteq> 0 then r\<lparr>tr_engine := drop_bit 26 (data AND 0x3C000000)\<rparr> else r);
          r2 = (if data AND 0x10 \<noteq> 0 then r1\<lparr>tr_runlist := drop_bit 21 (data AND 0x01E00000)\<rparr> else r1);
          r3 = (if data AND 0x8 \<noteq> 0 then r2\<lparr>tr_interrupt := drop_bit 15 (data AND 0x000F8000)\<rparr> else r2)
      in if data AND 0x4 \<noteq> 0 then r3\<lparr>tr_reset := drop_bit 9 (data AND 0x00003E00)\<rparr> else r3)"

definition apply_word :: "nat \<Rightarrow> int \<Rightarrow> top_record \<Rightarrow> top_record" where
  "apply_word index data r0 =
     (let r = r0\<lparr>tr_word_indices := tr_word_indices r0 @ [index],
                 tr_raw_words := tr_raw_words r0 @ [hex32 data]\<rparr>
      in if word_kind data = 1 then apply_data data r
         else if word_kind data = 2 then apply_enum data r
         else r\<lparr>tr_engine_type_code := Some (drop_bit 2 (data AND 0x7FFFFFFC))\<rparr>)"

definition continued :: "int \<Rightarrow> bool" where
  "continued data = (data AND 0x80000000 \<noteq> 0)"

subsection \<open>The loop\<close>

record top_state =
  ts_devices :: "top_device list"
  ts_current :: "top_record option"
  ts_invalid :: "nat list"

definition top_init :: top_state where
  "top_init = \<lparr>ts_devices = [], ts_current = None, ts_invalid = []\<rparr>"

fun decode_word :: "top_state \<Rightarrow> nat \<times> int \<Rightarrow> top_state" where
  "decode_word s (index, data) =
     (if word_kind data = 0 then s\<lparr>ts_invalid := ts_invalid s @ [index]\<rparr>
      else
        let current = (case ts_current s of None \<Rightarrow> new_record index | Some r \<Rightarrow> r);
            current' = apply_word index data current
        in if continued data then s\<lparr>ts_current := Some current'\<rparr>
           else s\<lparr>ts_devices := ts_devices s @ [finish_record current' index True],
                  ts_current := None\<rparr>)"

record top_decoded =
  dec_devices :: "top_device list"
  dec_incomplete :: "top_device option"
  dec_invalid :: "nat list"

datatype top_error = WrongWordCount nat | NotUnsigned32

definition decode_top_words :: "int list \<Rightarrow> top_error + top_decoded" where
  "decode_top_words values =
     (if length values \<noteq> TOP_WORDS then Inl (WrongWordCount (length values))
      else if list_ex (\<lambda>v. v < 0 \<or> v > 0xFFFFFFFF) values then Inl NotUnsigned32
      else let s = foldl decode_word top_init (enumerate_from 0 values) in
        Inr \<lparr>dec_devices = ts_devices s,
             dec_incomplete = map_option (\<lambda>r. finish_record r (TOP_WORDS - 1) False) (ts_current s),
             dec_invalid = ts_invalid s\<rparr>)"

subsection \<open>Specification: words grouped into records\<close>

text \<open>
  The valid words, cut after every word whose continuation bit is clear: the complete records,
  and the words of an unfinished one.
\<close>

fun split_records :: "(nat \<times> int) list \<Rightarrow> (nat \<times> int) list list \<times> (nat \<times> int) list" where
  "split_records [] = ([], [])"
| "split_records (x # xs) =
     (case split_records xs of (rs, rest) \<Rightarrow>
        if continued (snd x)
        then (case rs of [] \<Rightarrow> ([], x # rest) | r # rs' \<Rightarrow> ((x # r) # rs', rest))
        else ([x] # rs, rest))"

definition record_of_words :: "(nat \<times> int) list \<Rightarrow> top_record" where
  "record_of_words ws = foldl (\<lambda>r (i, w). apply_word i w r) (new_record (fst (hd ws))) ws"

definition valid_words :: "(nat \<times> int) list \<Rightarrow> (nat \<times> int) list" where
  "valid_words ws = filter (\<lambda>(i, w). word_kind w \<noteq> 0) ws"

definition device_of_words :: "(nat \<times> int) list \<Rightarrow> top_device" where
  "device_of_words ws = finish_record (record_of_words ws) (fst (last ws)) True"

subsection \<open>The loop computes the specification\<close>

text \<open>A record under construction, continued by more words.\<close>

definition record_from :: "top_record option \<Rightarrow> (nat \<times> int) list \<Rightarrow> top_record" where
  "record_from cur ws = foldl (\<lambda>r (i, w). apply_word i w r)
     (case cur of None \<Rightarrow> new_record (fst (hd ws)) | Some r \<Rightarrow> r) ws"

lemma record_from_None: "record_from None ws = record_of_words ws"
  by (simp add: record_from_def record_of_words_def)

lemma record_from_Cons:
  "record_from cur ((i, w) # ws) =
     record_from (Some (apply_word i w (case cur of None \<Rightarrow> new_record i | Some r \<Rightarrow> r))) ws"
  by (simp add: record_from_def split: option.splits)

lemma split_records_nonempty: "split_records ws = (rs, rest) \<Longrightarrow> r \<in> set rs \<Longrightarrow> r \<noteq> []"
  by (induction ws arbitrary: rs rest r) (fastforce split: prod.splits if_splits list.splits)+

lemma split_records_concat: "split_records ws = (rs, rest) \<Longrightarrow> concat rs @ rest = ws"
  by (induction ws arbitrary: rs rest) (fastforce split: prod.splits if_splits list.splits)+

lemma split_records_last:
  "split_records ws = (rs, rest) \<Longrightarrow> r \<in> set rs \<Longrightarrow>
     \<not> continued (snd (last r)) \<and> list_all (\<lambda>x. continued (snd x)) (butlast r)"
proof (induction ws arbitrary: rs rest r)
  case Nil
  then show ?case by simp
next
  case (Cons x ws)
  obtain rs' rest' where sp: "split_records ws = (rs', rest')" by fastforce
  have ne: "\<And>r. r \<in> set rs' \<Longrightarrow> r \<noteq> []" using sp by (rule split_records_nonempty)
  show ?case
  proof (cases "continued (snd x) \<and> rs' \<noteq> []")
    case True
    then obtain r1 rs1 where rs': "rs' = r1 # rs1" by (cases rs') auto
    with True Cons.prems(1) sp have "rs = (x # r1) # rs1" by auto
    with Cons.prems(2) consider "r = x # r1" | "r \<in> set rs1" by auto
    then show ?thesis
    proof cases
      case 1
      with Cons.IH [OF sp, of r1] rs' ne [of r1] True show ?thesis by simp
    next
      case 2
      with Cons.IH [OF sp, of r] rs' show ?thesis by simp
    qed
  next
    case False
    with Cons.prems sp Cons.IH [OF sp, of r] show ?thesis
      by (auto split: if_splits list.splits)
  qed
qed

lemma split_records_rest:
  "split_records ws = (rs, rest) \<Longrightarrow> list_all (\<lambda>x. continued (snd x)) rest"
  by (induction ws arbitrary: rs rest) (fastforce split: prod.splits if_splits list.splits)+

lemma decode_loop:
  assumes "split_records (valid_words ws) = (rs, rest)"
  shows "foldl decode_word s ws =
    \<lparr>ts_devices = ts_devices s @ (case rs of [] \<Rightarrow> []
        | r # rs' \<Rightarrow> finish_record (record_from (ts_current s) r) (fst (last r)) True
                       # map device_of_words rs'),
     ts_current = (if rest = [] then (if rs = [] then ts_current s else None)
        else Some (record_from (if rs = [] then ts_current s else None) rest)),
     ts_invalid = ts_invalid s @ map fst (filter (\<lambda>(i, w). word_kind w = 0) ws)\<rparr>"
  using assms
proof (induction ws arbitrary: s rs rest)
  case Nil
  then show ?case by (simp add: valid_words_def)
next
  case (Cons x ws)
  obtain i w where x: "x = (i, w)" by fastforce
  obtain rs' rest' where sp: "split_records (valid_words ws) = (rs', rest')" by fastforce
  note IH = Cons.IH [OF sp]
  have ne: "\<And>r. r \<in> set rs' \<Longrightarrow> r \<noteq> []" using sp by (rule split_records_nonempty)
  show ?case
  proof (cases "word_kind w = 0")
    case True
    with Cons.prems sp x have "rs = rs'" "rest = rest'" by (simp_all add: valid_words_def)
    with True show ?thesis by (cases rs') (simp_all add: x IH)
  next
    case False
    then have vw: "valid_words ((i, w) # ws) = (i, w) # valid_words ws" by (simp add: valid_words_def)
    show ?thesis
    proof (cases "continued w")
      case True
      then show ?thesis
        using Cons.prems False sp ne
        by (auto simp: vw x IH record_from_Cons record_from_def [of _ "[]"] Let_def split: list.splits)
    next
      case c: False
      then have "rs = [(i, w)] # rs'" "rest = rest'" using Cons.prems sp by (auto simp: vw x)
      with c False show ?thesis
        by (auto simp: x IH record_from_Cons record_from_None device_of_words_def Let_def
              record_from_def [of _ "[]"] split: list.splits)
    qed
  qed
qed

lemma decode_loop_init:
  "foldl decode_word top_init ws =
    (case split_records (valid_words ws) of (rs, rest) \<Rightarrow>
       \<lparr>ts_devices = map device_of_words rs,
        ts_current = (if rest = [] then None else Some (record_of_words rest)),
        ts_invalid = map fst (filter (\<lambda>(i, w). word_kind w = 0) ws)\<rparr>)"
proof -
  obtain rs rest where "split_records (valid_words ws) = (rs, rest)" by fastforce
  from decode_loop [OF this, of top_init] this show ?thesis
    by (cases rs) (simp_all add: top_init_def record_from_None device_of_words_def)
qed

lemma enumerate_from_conv: "enumerate_from n xs = zip [n..<n + length xs] xs"
  by (induction xs arbitrary: n) (simp_all add: upt_rec)

lemma map_fst_enumerate_from [simp]: "map fst (enumerate_from n xs) = [n..<n + length xs]"
  by (simp add: enumerate_from_conv)

lemma enumerate_from_map: "enumerate_from 0 xs = map (\<lambda>i. (i, xs ! i)) [0..<length xs]"
  by (rule nth_equalityI) (simp_all add: enumerate_from_conv)

lemma set_enumerate_from: "x \<in> set (enumerate_from n xs) \<Longrightarrow> snd x \<in> set xs"
  by (cases x) (auto simp: enumerate_from_conv dest: set_zip_rightD)

subsection \<open>Fields of a record\<close>

lemma apply_word_frame [simp]:
  "tr_word_indices (apply_word i w r) = tr_word_indices r @ [i]"
  "tr_raw_words (apply_word i w r) = tr_raw_words r @ [hex32 w]"
  "tr_start_index (apply_word i w r) = tr_start_index r"
  by (simp_all add: apply_word_def apply_data_def apply_enum_def Let_def)

lemma fold_frame:
  fixes ws :: "(nat \<times> int) list"
  shows "tr_word_indices (foldl (\<lambda>r (i, w). apply_word i w r) r ws) = tr_word_indices r @ map fst ws"
    and "tr_raw_words (foldl (\<lambda>r (i, w). apply_word i w r) r ws) = tr_raw_words r @ map (hex32 \<circ> snd) ws"
    and "tr_start_index (foldl (\<lambda>r (i, w). apply_word i w r) r ws) = tr_start_index r"
  by (induction ws arbitrary: r) (auto split: prod.splits)

lemma record_of_words_frame [simp]:
  "tr_word_indices (record_of_words ws) = map fst ws"
  "tr_raw_words (record_of_words ws) = map (hex32 \<circ> snd) ws"
  "tr_start_index (record_of_words ws) = fst (hd ws)"
  by (simp_all add: record_of_words_def fold_frame new_record_def)

lemma finish_record_frame [simp]:
  "td_complete (finish_record r i b) = b"
  "td_word_indices (finish_record r i b) = tr_word_indices r"
  "td_raw_words (finish_record r i b) = tr_raw_words r"
  "td_start_index (finish_record r i b) = tr_start_index r"
  "td_end_index (finish_record r i b) = i"
  "td_source_instance (finish_record r i b) = tr_source_instance r"
  "td_address (finish_record r i b) = hex32 (tr_address r)"
  "td_fault (finish_record r i b) = tr_fault r"
  "td_engine (finish_record r i b) = tr_engine r"
  "td_runlist (finish_record r i b) = tr_runlist r"
  "td_interrupt (finish_record r i b) = tr_interrupt r"
  "td_reset_selector (finish_record r i b) = (if tr_reset r < 0 then None else Some (tr_reset r))"
  by (simp_all add: finish_record_def Let_def split: option.splits prod.splits)

text \<open>The value of the last word that sets a field, or the default.\<close>

definition last_field :: "(int \<Rightarrow> bool) \<Rightarrow> (int \<Rightarrow> 'v) \<Rightarrow> 'v \<Rightarrow> (nat \<times> int) list \<Rightarrow> 'v" where
  "last_field p f d ws = (case filter (p \<circ> snd) ws of [] \<Rightarrow> d | x # xs \<Rightarrow> f (snd (last (x # xs))))"

lemma last_field_Nil [simp]: "last_field p f d [] = d"
  by (simp add: last_field_def)

lemma last_field_snoc [simp]:
  "last_field p f d (ws @ [(i, w)]) = (if p w then f w else last_field p f d ws)"
  unfolding last_field_def by (cases "filter (p \<circ> snd) ws") auto

lemma record_of_words_snoc:
  "ws \<noteq> [] \<Longrightarrow> record_of_words (ws @ [(i, w)]) = apply_word i w (record_of_words ws)"
  by (simp add: record_of_words_def)

lemma record_of_words_single: "record_of_words [(i, w)] = apply_word i w (new_record i)"
  by (simp add: record_of_words_def)

lemma record_of_words_fields:
  assumes "ws \<noteq> []"
  shows "tr_source_instance (record_of_words ws) =
      last_field (\<lambda>w. word_kind w = 1) (\<lambda>w. drop_bit 26 (w AND 0x3C000000)) 0 ws" (is "?A ws")
    and "tr_address (record_of_words ws) =
      last_field (\<lambda>w. word_kind w = 1) (\<lambda>w. w AND 0x00FFF000) 0 ws" (is "?B ws")
    and "tr_fault (record_of_words ws) =
      last_field (\<lambda>w. word_kind w = 1 \<and> w AND 0x4 \<noteq> 0) (\<lambda>w. drop_bit 3 (w AND 0x3F8)) (-1) ws" (is "?C ws")
    and "tr_engine (record_of_words ws) =
      last_field (\<lambda>w. word_kind w = 2 \<and> w AND 0x20 \<noteq> 0) (\<lambda>w. drop_bit 26 (w AND 0x3C000000)) (-1) ws" (is "?D ws")
    and "tr_runlist (record_of_words ws) =
      last_field (\<lambda>w. word_kind w = 2 \<and> w AND 0x10 \<noteq> 0) (\<lambda>w. drop_bit 21 (w AND 0x01E00000)) (-1) ws" (is "?E ws")
    and "tr_interrupt (record_of_words ws) =
      last_field (\<lambda>w. word_kind w = 2 \<and> w AND 0x8 \<noteq> 0) (\<lambda>w. drop_bit 15 (w AND 0xF8000)) (-1) ws" (is "?F ws")
    and "tr_reset (record_of_words ws) =
      last_field (\<lambda>w. word_kind w = 2 \<and> w AND 0x4 \<noteq> 0) (\<lambda>w. drop_bit 9 (w AND 0x3E00)) (-1) ws" (is "?G ws")
    and "tr_engine_type_code (record_of_words ws) =
      last_field (\<lambda>w. word_kind w \<noteq> 1 \<and> word_kind w \<noteq> 2) (\<lambda>w. Some (drop_bit 2 (w AND 0x7FFFFFFC))) None ws" (is "?H ws")
proof -
  note defs = apply_word_def apply_data_def apply_enum_def Let_def
  have "?A ws \<and> ?B ws \<and> ?C ws \<and> ?D ws \<and> ?E ws \<and> ?F ws \<and> ?G ws \<and> ?H ws"
    using assms
  proof (induction ws rule: rev_nonempty_induct)
    case (single x)
    obtain i w where "x = (i, w)" by fastforce
    then show ?case
      by (simp add: record_of_words_single last_field_def new_record_def defs)
  next
    case (snoc x xs)
    obtain i w where "x = (i, w)" by fastforce
    with snoc show ?case by (simp add: record_of_words_snoc defs)
  qed
  then show "?A ws" "?B ws" "?C ws" "?D ws" "?E ws" "?F ws" "?G ws" "?H ws" by blast+
qed

subsection \<open>Properties of the decoder\<close>

text \<open>What a successful call returns, in terms of the specification.\<close>

lemma decode_top_words_eq:
  "decode_top_words values =
     (if length values \<noteq> TOP_WORDS then Inl (WrongWordCount (length values))
      else if \<exists>v \<in> set values. v < 0 \<or> 0xFFFFFFFF < v then Inl NotUnsigned32
      else case split_records (valid_words (enumerate_from 0 values)) of (rs, rest) \<Rightarrow>
        Inr \<lparr>dec_devices = map device_of_words rs,
             dec_incomplete = (if rest = [] then None
                else Some (finish_record (record_of_words rest) 63 False)),
             dec_invalid = map fst (filter (\<lambda>(i, w). word_kind w = 0) (enumerate_from 0 values))\<rparr>)"
  by (auto simp: decode_top_words_def decode_loop_init list_ex_iff Let_def TOP_WORDS_def
      split: prod.splits)

lemma decode_top_words_Inr:
  assumes "decode_top_words values = Inr d"
  obtains rs rest where
    "length values = 64" "\<forall>v \<in> set values. 0 \<le> v \<and> v \<le> 0xFFFFFFFF"
    "split_records (valid_words (enumerate_from 0 values)) = (rs, rest)"
    "dec_devices d = map device_of_words rs"
    "dec_incomplete d = (if rest = [] then None else Some (finish_record (record_of_words rest) 63 False))"
    "dec_invalid d = map fst (filter (\<lambda>(i, w). word_kind w = 0) (enumerate_from 0 values))"
  using assms that
  by (auto simp: decode_top_words_eq TOP_WORDS_def not_less split: if_splits prod.splits)

text \<open>C3: The word loop computes the specification: 64 unsigned 32-bit words are accepted, every
  other input raises; the devices are the images of the complete groups of valid words, cut after
  each word with a clear continuation bit, and an unfinished group is reported apart.\<close>

theorem decode_top_words_refines:
  "decode_top_words values =
     (if length values \<noteq> 64 then Inl (WrongWordCount (length values))
      else if \<exists>v \<in> set values. v < 0 \<or> 0xFFFFFFFF < v then Inl NotUnsigned32
      else Inr \<lparr>
        dec_devices = map device_of_words (fst (split_records (valid_words (enumerate_from 0 values)))),
        dec_incomplete = (case snd (split_records (valid_words (enumerate_from 0 values))) of
            [] \<Rightarrow> None
          | w # ws \<Rightarrow> Some (finish_record (record_of_words (w # ws)) 63 False)),
        dec_invalid = filter (\<lambda>i. word_kind (values ! i) = 0) [0..<64]\<rparr>)"
proof -
  have inv: "length values = 64 \<Longrightarrow>
      map fst (filter (\<lambda>(i, w). word_kind w = 0) (enumerate_from 0 values))
      = filter (\<lambda>i. word_kind (values ! i) = 0) [0..<64]"
    by (simp add: enumerate_from_map filter_map comp_def)
  show ?thesis
    by (auto simp: decode_top_words_eq TOP_WORDS_def inv split: prod.splits list.splits)
qed

text \<open>A concrete table: a DATA, an ENUM and an ENGINE\_TYPE word form one GR device with reset
  selector 12, and the other words are not valid.\<close>

definition sample_top_words :: "int list" where
  "sample_top_words = [0x8040901D, 0x80001806, 0x3] @ replicate 61 0"

definition sample_device :: top_device where
  "sample_device = \<lparr>td_complete = True, td_start_index = 0, td_end_index = 2,
     td_word_indices = [0, 1, 2],
     td_raw_words = [''0x8040901d'', ''0x80001806'', ''0x00000003''],
     td_engine_type_code = Some ''0x00000000'', td_type = ''GR'', td_instance = 0,
     td_source_instance = 0, td_fixed_instance_warning = False, td_address = ''0x00409000'',
     td_fault = 3, td_engine = -1, td_runlist = -1, td_interrupt = -1,
     td_reset_selector = Some 12\<rparr>"

definition sample_decoded :: top_decoded where
  "sample_decoded = \<lparr>dec_devices = [sample_device], dec_incomplete = None, dec_invalid = [3..<64]\<rparr>"

lemma sample_top_words_decoded: "decode_top_words sample_top_words = Inr sample_decoded"
  by code_simp

lemma sample_device_in: "sample_device \<in> set (dec_devices sample_decoded)"
  by (simp add: sample_decoded_def)

lemma td_indices_of_groups:
  "concat (map (td_word_indices \<circ> device_of_words) rs) = map fst (concat rs)"
  by (induction rs) (simp_all add: device_of_words_def)

text \<open>The words of a device, read back from the table by its indices.\<close>

definition words_at :: "int list \<Rightarrow> nat list \<Rightarrow> (nat \<times> int) list" where
  "words_at values is = map (\<lambda>i. (i, values ! i)) is"

lemma group_words_at:
  assumes "set ws \<subseteq> set (enumerate_from 0 values)"
  shows "words_at values (map fst ws) = ws"
  using assms by (induction ws) (auto simp: words_at_def enumerate_from_map)

lemma valid_words_of_table:
  "map fst (valid_words (enumerate_from 0 values)) = filter (\<lambda>i. word_kind (values ! i) \<noteq> 0) [0..<length values]"
  "map fst (filter (\<lambda>(i, w). word_kind w = 0) (enumerate_from 0 values))
     = filter (\<lambda>i. word_kind (values ! i) = 0) [0..<length values]"
  by (simp_all add: valid_words_def enumerate_from_map filter_map comp_def)

text \<open>Every one of the 64 indices is reported exactly once: the devices and the incomplete
  record together hold, in table order and without overlap, exactly the indices of the valid
  words, and the remaining indices are reported as invalid.\<close>

theorem decode_top_words_partition:
  assumes "decode_top_words values = Inr d"
  shows "concat (map td_word_indices
           (dec_devices d @ (case dec_incomplete d of None \<Rightarrow> [] | Some r \<Rightarrow> [r])))
         = filter (\<lambda>i. word_kind (values ! i) \<noteq> 0) [0..<64]
       \<and> dec_invalid d = filter (\<lambda>i. word_kind (values ! i) = 0) [0..<64]"
proof -
  obtain rs rest where len: "length values = 64"
    and sp: "split_records (valid_words (enumerate_from 0 values)) = (rs, rest)"
    and dev: "dec_devices d = map device_of_words rs"
    and inc: "dec_incomplete d =
      (if rest = [] then None else Some (finish_record (record_of_words rest) 63 False))"
    and inv: "dec_invalid d = map fst (filter (\<lambda>(i, w). word_kind w = 0) (enumerate_from 0 values))"
    using assms by (rule decode_top_words_Inr)
  have "concat (map td_word_indices
      (dec_devices d @ (case dec_incomplete d of None \<Rightarrow> [] | Some r \<Rightarrow> [r])))
    = map fst (concat rs @ rest)"
    by (simp add: dev inc td_indices_of_groups)
  also have "\<dots> = map fst (valid_words (enumerate_from 0 values))"
    by (simp add: split_records_concat [OF sp])
  finally show ?thesis by (simp add: inv valid_words_of_table len)
qed

lemma device_groups:
  assumes "decode_top_words values = Inr d" and "dv \<in> set (dec_devices d)"
  obtains ws where "ws \<noteq> []" "words_at values (td_word_indices dv) = ws" "dv = device_of_words ws"
    "\<not> continued (snd (last ws))" "list_all (\<lambda>x. continued (snd x)) (butlast ws)"
    "\<forall>x \<in> set ws. word_kind (snd x) \<noteq> 0 \<and> snd x \<in> set values"
proof -
  obtain rs rest where sp: "split_records (valid_words (enumerate_from 0 values)) = (rs, rest)"
    and dev: "dec_devices d = map device_of_words rs"
    using assms(1) by (rule decode_top_words_Inr)
  obtain ws where ws: "ws \<in> set rs" "dv = device_of_words ws" using assms(2) dev by auto
  have sub: "set ws \<subseteq> set (valid_words (enumerate_from 0 values))"
    using ws(1) unfolding split_records_concat [OF sp, symmetric] by auto
  then have "set ws \<subseteq> set (enumerate_from 0 values)" by (auto simp: valid_words_def)
  then have "words_at values (td_word_indices dv) = ws"
    by (simp add: ws(2) device_of_words_def group_words_at)
  moreover have "\<forall>x \<in> set ws. word_kind (snd x) \<noteq> 0 \<and> snd x \<in> set values"
    using sub by (auto simp: valid_words_def dest: set_enumerate_from)
  ultimately show ?thesis
    using that split_records_nonempty [OF sp ws(1)] split_records_last [OF sp ws(1)] ws(2) by blast
qed

text \<open>A device's fields come from its own words: all but its last word have the continuation
  bit, the last has not, and its reset selector is the 5-bit field of its last ENUM word that
  flags one (none when no ENUM word does); fault, engine, runlist and interrupt likewise.\<close>

lemma device_fields:
  assumes "decode_top_words values = Inr d" and "dv \<in> set (dec_devices d)"
  shows "let ws = words_at values (td_word_indices dv) in
     list_all (\<lambda>x. continued (snd x)) (butlast ws) \<and> \<not> continued (snd (last ws)) \<and>
     td_reset_selector dv = last_field (\<lambda>w. word_kind w = 2 \<and> w AND 0x4 \<noteq> 0)
        (\<lambda>w. Some (drop_bit 9 (w AND 0x3E00))) None ws \<and>
     td_fault dv = last_field (\<lambda>w. word_kind w = 1 \<and> w AND 0x4 \<noteq> 0)
        (\<lambda>w. drop_bit 3 (w AND 0x3F8)) (-1) ws \<and>
     td_engine dv = last_field (\<lambda>w. word_kind w = 2 \<and> w AND 0x20 \<noteq> 0)
        (\<lambda>w. drop_bit 26 (w AND 0x3C000000)) (-1) ws \<and>
     td_runlist dv = last_field (\<lambda>w. word_kind w = 2 \<and> w AND 0x10 \<noteq> 0)
        (\<lambda>w. drop_bit 21 (w AND 0x01E00000)) (-1) ws \<and>
     td_interrupt dv = last_field (\<lambda>w. word_kind w = 2 \<and> w AND 0x8 \<noteq> 0)
        (\<lambda>w. drop_bit 15 (w AND 0xF8000)) (-1) ws"
proof -
  obtain ws where ws: "ws \<noteq> []" "words_at values (td_word_indices dv) = ws" "dv = device_of_words ws"
    "\<not> continued (snd (last ws))" "list_all (\<lambda>x. continued (snd x)) (butlast ws)"
    using assms by (rule device_groups)
  have "(if last_field p (\<lambda>w. drop_bit 9 (w AND 0x3E00)) (-1) ws < 0 then None
      else Some (last_field p (\<lambda>w. drop_bit 9 (w AND 0x3E00)) (-1) ws))
    = last_field p (\<lambda>w. Some (drop_bit 9 (w AND 0x3E00))) None ws" for p
    unfolding last_field_def by (auto split: list.splits simp: not_less)
  then have "td_reset_selector dv = last_field (\<lambda>w. word_kind w = 2 \<and> w AND 0x4 \<noteq> 0)
        (\<lambda>w. Some (drop_bit 9 (w AND 0x3E00))) None ws"
    by (simp only: ws(3) device_of_words_def finish_record_frame record_of_words_fields [OF ws(1)])
  with ws show ?thesis
    by (simp add: Let_def device_of_words_def record_of_words_fields [OF ws(1)])
qed

lemma last_field_bounds:
  assumes "\<And>w. lo \<le> f w \<and> f w \<le> hi" and "lo' \<le> lo" and "lo' \<le> d" and "d \<le> hi"
  shows "lo' \<le> last_field p f d ws \<and> last_field p f d ws \<le> (hi::int)"
  using assms by (auto simp: last_field_def split: list.splits intro: order_trans)

lemma masked_field_bounds:
  "0 \<le> drop_bit 26 ((w::int) AND 0x3C000000) \<and> drop_bit 26 (w AND 0x3C000000) \<le> 15"
  "0 \<le> drop_bit 3 (w AND 0x3F8) \<and> drop_bit 3 (w AND 0x3F8) \<le> 127"
  "0 \<le> drop_bit 21 (w AND 0x01E00000) \<and> drop_bit 21 (w AND 0x01E00000) \<le> 15"
  "0 \<le> drop_bit 15 (w AND 0xF8000) \<and> drop_bit 15 (w AND 0xF8000) \<le> 31"
  "0 \<le> drop_bit 9 (w AND 0x3E00) \<and> drop_bit 9 (w AND 0x3E00) \<le> 31"
  using field_bounds [of "0x3C000000" 26 w] field_bounds [of "0x3F8" 3 w]
    field_bounds [of "0x01E00000" 21 w] field_bounds [of "0xF8000" 15 w] field_bounds [of "0x3E00" 9 w]
  by (simp_all add: drop_bit_eq_div)

lemma device_of_words_bounds:
  assumes "ws \<noteq> []"
  shows "-1 \<le> td_fault (device_of_words ws) \<and> td_fault (device_of_words ws) \<le> 127"
    and "-1 \<le> td_engine (device_of_words ws) \<and> td_engine (device_of_words ws) \<le> 15"
    and "-1 \<le> td_runlist (device_of_words ws) \<and> td_runlist (device_of_words ws) \<le> 15"
    and "-1 \<le> td_interrupt (device_of_words ws) \<and> td_interrupt (device_of_words ws) \<le> 31"
    and "td_reset_selector (device_of_words ws) = Some k \<Longrightarrow> 0 \<le> k \<and> k \<le> 31"
proof -
  note fields = device_of_words_def record_of_words_fields [OF assms]
  note bounds = last_field_bounds [of 0 _ _ "-1" "-1"]
  show "-1 \<le> td_fault (device_of_words ws) \<and> td_fault (device_of_words ws) \<le> 127"
    unfolding fields finish_record_frame by (rule bounds) (use masked_field_bounds in auto)
  show "-1 \<le> td_engine (device_of_words ws) \<and> td_engine (device_of_words ws) \<le> 15"
    unfolding fields finish_record_frame by (rule bounds) (use masked_field_bounds in auto)
  show "-1 \<le> td_runlist (device_of_words ws) \<and> td_runlist (device_of_words ws) \<le> 15"
    unfolding fields finish_record_frame by (rule bounds) (use masked_field_bounds in auto)
  show "-1 \<le> td_interrupt (device_of_words ws) \<and> td_interrupt (device_of_words ws) \<le> 31"
    unfolding fields finish_record_frame by (rule bounds) (use masked_field_bounds in auto)
  have "-1 \<le> tr_reset (record_of_words ws) \<and> tr_reset (record_of_words ws) \<le> 31"
    unfolding fields by (rule bounds) (use masked_field_bounds in auto)
  then show "td_reset_selector (device_of_words ws) = Some k \<Longrightarrow> 0 \<le> k \<and> k \<le> 31"
    by (auto simp: device_of_words_def split: if_splits)
qed

text \<open>The fields of a decoded device stay within the width of their bit fields; in particular
  a reset selector is below 32, so the PMC mask \<^verbatim>\<open>1 << selector\<close> fits a 32-bit register.\<close>

lemma device_field_bounds:
  assumes "decode_top_words values = Inr d" and "dv \<in> set (dec_devices d)"
  shows "td_fault dv \<in> {-1..127} \<and> td_engine dv \<in> {-1..15} \<and> td_runlist dv \<in> {-1..15} \<and>
    td_interrupt dv \<in> {-1..31} \<and>
    (\<forall>k. td_reset_selector dv = Some k \<longrightarrow> 0 \<le> k \<and> k \<le> 31 \<and> push_bit (nat k) 1 \<le> (0x80000000::int))"
proof -
  obtain ws where ws: "ws \<noteq> []" "dv = device_of_words ws" using assms by (rule device_groups)
  have "push_bit (nat k) 1 \<le> (0x80000000::int)" if "0 \<le> k" "k \<le> 31" for k
  proof -
    have "(2::int) ^ nat k \<le> 2 ^ 31" using that by (intro power_increasing) auto
    then show ?thesis by (simp add: push_bit_eq_mult)
  qed
  with device_of_words_bounds [OF ws(1)] show ?thesis by (simp add: ws(2))
qed

text \<open>What a decoded record of a table is, by type: its indices are indices of the table in ascending order,
  its raw words are the texts of the words at these indices, every
  field lies within the width of its bits or has the default, an instance is unknown exactly when the
  engine type is, and the address is the text of a page of the 24-bit register space.\<close>

definition typed_device :: "int list \<Rightarrow> top_device \<Rightarrow> bool" where
  "typed_device table d \<longleftrightarrow>
     td_word_indices d \<noteq> [] \<and> sorted_wrt (<) (td_word_indices d) \<and> set (td_word_indices d) \<subseteq> {..<64} \<and>
     td_start_index d = hd (td_word_indices d) \<and> td_end_index d = (if td_complete d then last (td_word_indices d) else 63) \<and>
     td_raw_words d = map (\<lambda>i. hex32 (table ! i)) (td_word_indices d) \<and>
     (\<forall>c. td_engine_type_code d = Some c \<longrightarrow> (\<exists>n \<in> {0..0x1FFFFFFF}. c = hex32 n)) \<and>
     td_source_instance d \<in> {0..15} \<and> td_instance d \<in> {-1..15} \<and> (td_instance d = -1 \<longleftrightarrow> td_type d = ''UNKNOWN'') \<and>
     td_fault d \<in> {-1..127} \<and> td_engine d \<in> {-1..15} \<and> td_runlist d \<in> {-1..15} \<and> td_interrupt d \<in> {-1..31} \<and>
     (\<forall>k. td_reset_selector d = Some k \<longrightarrow> k \<in> {0..31}) \<and>
     (\<exists>a. td_address d = hex32 a \<and> a \<in> {0..0xFFF000} \<and> a mod 4096 = 0)"

lemma engine_types_typed: "(c, nm, fixed) \<in> set ENGINE_TYPES \<Longrightarrow> nm \<noteq> ''UNKNOWN'' \<and> (\<forall>i. fixed = Some i \<longrightarrow> i \<in> {0..2})"
  by (auto simp: ENGINE_TYPES_def)

lemma finish_record_instance:
  assumes "0 \<le> tr_source_instance r" and "tr_source_instance r \<le> 15"
  shows "td_instance (finish_record r i b) \<in> {-1..15} \<and> (td_instance (finish_record r i b) = -1 \<longleftrightarrow> td_type (finish_record r i b) = ''UNKNOWN'')"
proof (cases "engine_mapping (tr_engine_type_code r)")
  case None
  then show ?thesis by (simp add: finish_record_def)
next
  case (Some m)
  obtain nm fixed where m: "m = (nm, fixed)" by fastforce
  with Some obtain c where "(c, nm, fixed) \<in> set ENGINE_TYPES"
    by (auto simp: engine_mapping_def split: option.splits dest: map_of_SomeD)
  then have "nm \<noteq> ''UNKNOWN'' \<and> (\<forall>i. fixed = Some i \<longrightarrow> i \<in> {0..2})" by (rule engine_types_typed)
  with assms Some m show ?thesis by (cases fixed) (auto simp: finish_record_def)
qed

lemma page_aligned: "((w :: int) AND 0x00FFF000) mod 4096 = 0"
proof -
  have "take_bit 12 (w AND 0x00FFF000) = take_bit 12 w AND take_bit 12 (0x00FFF000 :: int)" by simp
  also have "take_bit 12 (0x00FFF000 :: int) = 0" by (simp add: take_bit_eq_mod)
  finally show ?thesis by (simp add: take_bit_eq_mod)
qed

lemma last_field_holds: "(\<And>w. P (f w)) \<Longrightarrow> P d \<Longrightarrow> P (last_field p f d ws)"
  by (simp add: last_field_def split: list.split)

lemma last_field_in: "(\<And>w. f w \<in> A) \<Longrightarrow> d \<in> A \<Longrightarrow> last_field p f d ws \<in> A"
  by (rule last_field_holds [where P = "\<lambda>x. x \<in> A"])

lemma field_in:
  "drop_bit 26 ((w::int) AND 0x3C000000) \<in> {-1..15}" "drop_bit 3 (w AND 0x3F8) \<in> {-1..127}"
  "drop_bit 21 (w AND 0x01E00000) \<in> {-1..15}" "drop_bit 15 (w AND 0xF8000) \<in> {-1..31}" "drop_bit 9 (w AND 0x3E00) \<in> {-1..31}"
  using masked_field_bounds [of w] by (auto intro: order_trans [of "-1" 0])

lemma type_field: "0 \<le> drop_bit 2 ((w::int) AND 0x7FFFFFFC) \<and> drop_bit 2 (w AND 0x7FFFFFFC) \<le> 0x1FFFFFFF"
  using field_bounds [of "0x7FFFFFFC" 2 w] by (simp add: drop_bit_eq_div)

lemma record_typed:
  assumes "ws \<noteq> []" and "sorted_wrt (<) (map fst ws)" and "fst ` set ws \<subseteq> {..<64}" and "i = (if b then fst (last ws) else 63)"
    and "ws = words_at table (map fst ws)"
  shows "typed_device table (finish_record (record_of_words ws) i b)"
proof -
  note fields = record_of_words_fields [OF assms(1)]
  have source: "0 \<le> tr_source_instance (record_of_words ws) \<and> tr_source_instance (record_of_words ws) \<le> 15"
    unfolding fields by (rule last_field_holds [where P = "\<lambda>x. 0 \<le> x \<and> x \<le> 15"]) (use masked_field_bounds in auto)
  have address: "tr_address (record_of_words ws) \<in> {0..0xFFF000} \<and> tr_address (record_of_words ws) mod 4096 = 0"
    unfolding fields
    by (rule last_field_holds [where P = "\<lambda>x. x \<in> {0..0xFFF000} \<and> x mod 4096 = 0"]) (auto simp: page_aligned and_le_mask)
  have rest: "tr_fault (record_of_words ws) \<in> {-1..127}" "tr_engine (record_of_words ws) \<in> {-1..15}"
    "tr_runlist (record_of_words ws) \<in> {-1..15}" "tr_interrupt (record_of_words ws) \<in> {-1..31}"
    "tr_reset (record_of_words ws) \<in> {-1..31}"
    unfolding fields by (rule last_field_in, rule field_in, simp)+
  have code: "\<forall>c. tr_engine_type_code (record_of_words ws) = Some c \<longrightarrow> c \<in> {0..0x1FFFFFFF}"
    unfolding fields by (rule last_field_holds [where P = "\<lambda>x. \<forall>c. x = Some c \<longrightarrow> c \<in> {0..0x1FFFFFFF}"]) (use type_field in auto)
  have raw: "map (hex32 \<circ> snd) ws = map (\<lambda>i. hex32 (table ! i)) (map fst ws)"
    by (subst assms(5)) (simp add: words_at_def)
  have "hd (map fst ws) = fst (hd ws)" "last (map fst ws) = fst (last ws)" using assms(1) by (simp_all add: hd_map last_map)
  moreover have "td_engine_type_code (finish_record (record_of_words ws) i b) = map_option hex32 (tr_engine_type_code (record_of_words ws))"
    by (simp add: finish_record_def Let_def split: prod.splits)
  moreover note assms(1-4) source address rest code finish_record_instance [of "record_of_words ws" i b]
  ultimately show ?thesis
    unfolding typed_device_def finish_record_frame record_of_words_frame raw by auto
qed

text \<open>
  C23: Whatever 64 words are decoded, each record that is reported, the incomplete one included, is
  well-typed: ascending indices of the table, the words at just these indices as raw words, fields within their widths or the
  default, the instance unknown exactly for an unknown engine type, an address on a page of the 24-bit
  register space, and a reset selector below 32, so that its mask is one bit of a 32-bit register.
\<close>

theorem decoded_devices_typed:
  assumes "decode_top_words values = Inr d"
  shows "list_all (typed_device values) (dec_devices d @ (case dec_incomplete d of None \<Rightarrow> [] | Some r \<Rightarrow> [r]))"
proof -
  obtain rs rest where len: "length values = 64"
    and sp: "split_records (valid_words (enumerate_from 0 values)) = (rs, rest)"
    and dev: "dec_devices d = map device_of_words rs"
    and inc: "dec_incomplete d = (if rest = [] then None else Some (finish_record (record_of_words rest) 63 False))"
    using assms by (rule decode_top_words_Inr)
  have indices: "map fst (concat (rs @ [rest])) = filter (\<lambda>i. word_kind (values ! i) \<noteq> 0) [0..<64]"
    using split_records_concat [OF sp] valid_words_of_table(1) [of "values"] by (simp add: len)
  have all: "sorted_wrt (<) (map fst (concat (rs @ [rest])))" "set (map fst (concat (rs @ [rest]))) \<subseteq> {..<64}"
    unfolding indices using sorted_wrt_filter [of "(<)" "[0..<64]" "\<lambda>i. word_kind (values ! i) \<noteq> 0"] by auto
  have group: "sorted_wrt (<) (map fst ws) \<and> fst ` set ws \<subseteq> {..<64}" if "ws \<in> set (rs @ [rest])" for ws
  proof -
    from that have "\<exists>us vs. rs @ [rest] = us @ ws # vs" by (rule split_list)
    then obtain us vs where "rs @ [rest] = us @ ws # vs" by blast
    with all show ?thesis by (auto simp: sorted_wrt_append)
  qed
  have at: "ws = words_at values (map fst ws)" if "ws \<in> set (rs @ [rest])" for ws
  proof -
    have "set ws \<subseteq> set (concat (rs @ [rest]))" using that by auto
    then have "set ws \<subseteq> set (enumerate_from 0 values)" using split_records_concat [OF sp] by (auto simp: valid_words_def)
    then show ?thesis by (simp add: group_words_at)
  qed
  have "typed_device values (device_of_words ws)" if "ws \<in> set rs" for ws
    unfolding device_of_words_def
    by (rule record_typed) (use group [of ws] at [of ws] that split_records_nonempty [OF sp that] in simp_all)
  moreover have "typed_device values (finish_record (record_of_words rest) 63 False)" if "rest \<noteq> []"
    by (rule record_typed) (use group [of rest] at [of rest] that in simp_all)
  ultimately show ?thesis by (auto simp: dev inc list_all_iff)
qed

theorem decoded_devices_typed_witness: "typed_device sample_top_words sample_device"
  using decoded_devices_typed [OF sample_top_words_decoded] by (simp add: sample_decoded_def)

end
