(* ===== verification/CaptureScan.thy ===== *)
theory CaptureScan
  imports PyText
begin

text \<open>
  The interface both capture parsers share: a scan over numbered lines that opens a block at each
  BEGIN line and moves blocks to a list of closed ones. Proved once: no closed block is ever
  changed or dropped, and there are as many blocks, closed or open, as BEGIN lines.
\<close>

locale block_scan =
  fixes step :: "'s \<Rightarrow> nat \<times> string \<Rightarrow> 's"
    and good :: "'s \<Rightarrow> bool"
    and closed :: "'s \<Rightarrow> 'r list"
    and is_open :: "'s \<Rightarrow> bool"
    and opens :: "string \<Rightarrow> bool"
  assumes step_good: "good s \<Longrightarrow> good (step s l)"
    and step_closed: "good s \<Longrightarrow> \<exists>rs. closed (step s l) = closed s @ rs"
    and step_count: "good s \<Longrightarrow>
      length (closed (step s l)) + of_bool (is_open (step s l))
      = length (closed s) + of_bool (is_open s) + of_bool (opens (snd l))"
begin

lemma scan_good: "good s \<Longrightarrow> good (foldl step s ls)"
  by (induction ls arbitrary: s) (auto intro: step_good)

lemma scan_closed: "good s \<Longrightarrow> \<exists>rs. closed (foldl step s ls) = closed s @ rs"
proof (induction ls arbitrary: s)
  case Nil
  then show ?case by simp
next
  case (Cons l ls)
  obtain rs where "closed (step s l) = closed s @ rs" using step_closed [OF Cons.prems] by blast
  moreover obtain rs' where "closed (foldl step (step s l) ls) = closed (step s l) @ rs'"
    using Cons.IH [OF step_good [OF Cons.prems]] by blast
  ultimately show ?case by simp
qed

lemma scan_count:
  "good s \<Longrightarrow>
     length (closed (foldl step s ls)) + of_bool (is_open (foldl step s ls))
     = length (closed s) + of_bool (is_open s) + length (filter (opens \<circ> snd) ls)"
proof (induction ls arbitrary: s)
  case Nil
  then show ?case by simp
next
  case (Cons l ls)
  from Cons.IH [OF step_good [OF Cons.prems, of l]] step_count [OF Cons.prems, of l]
  show ?case by simp
qed

end

end
