(* ===== verification/TopCapture.thy ===== *)
theory TopCapture
  imports TopWords CaptureScan "HOL-Library.Char_ord" "HOL-Library.List_Lexorder"
begin

text \<open>
  The capture side of \<^verbatim>\<open>tools/decode_gv100_top.py\<close>: \<^verbatim>\<open>_finalize_snapshot\<close> validates the
  registers of one BEGIN/END block, decodes the TOP table only when the validation passes and
  derives the GR reset selector; \<^verbatim>\<open>parse_capture\<close> scans the kernel text line by line. The
  exceptions a call may raise are results; that none escapes is proved.
\<close>

subsection \<open>Registers of a snapshot\<close>

definition POST_REG :: int where "POST_REG = 0x02240C"
definition PMC_ENABLE_REG :: int where "PMC_ENABLE_REG = 0x000200"

record occurrence =
  oc_line :: nat
  oc_bdf :: string
  oc_reg :: int
  oc_value :: int

record snapshot =
  sn_index :: nat
  sn_begin_line :: nat
  sn_end_line :: "nat option"
  sn_begin_fields :: "string \<rightharpoonup> string"
  sn_end_fields :: "string \<rightharpoonup> string"
  sn_occurrences :: "occurrence list"

text \<open>\<^verbatim>\<open>_parse_hex32\<close>\<close>

datatype hex32_error = NotHex string | Exceeds32 string

definition parse_hex32 :: "string \<Rightarrow> hex32_error + int" where
  "parse_hex32 s =
     (if \<not> hex_match s then Inl (NotHex s)
      else let v = the (digits_body hex_digit 16 True 0 (drop 2 s)) in if v > 0xFFFFFFFF then Inl (Exceeds32 s) else Inr v)"

text \<open>\<^verbatim>\<open>_single_register\<close>: the value of a register seen exactly once.\<close>

record single_reg =
  sr_value :: "string option"
  sr_value_int :: "int option"
  sr_count :: nat
  sr_lines :: "nat list"
  sr_valid :: bool
  sr_invalid_reason :: "string option"

definition single_register :: "occurrence list \<Rightarrow> int \<Rightarrow> single_reg" where
  "single_register occs reg =
     (let found = filter (\<lambda>o'. oc_reg o' = reg) occs in
      case found of
        [x] \<Rightarrow> \<lparr>sr_value = Some (hex32 (oc_value x)), sr_value_int = Some (oc_value x), sr_count = 1,
                sr_lines = [oc_line x], sr_valid = (oc_value x \<noteq> 0xFFFFFFFF),
                sr_invalid_reason = (if oc_value x = 0xFFFFFFFF then Some ''all_ones_sentinel'' else None)\<rparr>
      | _ \<Rightarrow> \<lparr>sr_value = None, sr_value_int = None, sr_count = length found,
               sr_lines = map oc_line found, sr_valid = False, sr_invalid_reason = None\<rparr>)"

text \<open>The POST entry with its bit 1 and whether Nouveau would run DEVINIT.\<close>

definition post_bit1 :: "single_reg \<Rightarrow> int option" where
  "post_bit1 post = (case sr_value_int post of
     Some v \<Rightarrow> if sr_valid post then Some (drop_bit 1 v AND 1) else None
   | None \<Rightarrow> None)"

subsection \<open>Finalising a snapshot\<close>

definition word_index :: "int \<Rightarrow> nat option" where
  "word_index reg =
     (if TOP_BASE \<le> reg \<and> reg < TOP_END \<and> (reg - TOP_BASE) mod 4 = 0
      then Some (nat ((reg - TOP_BASE) div 4)) else None)"

definition top_by_index :: "occurrence list \<Rightarrow> (nat \<rightharpoonup> occurrence list)" where
  "top_by_index occs = group_by (\<lambda>x. the (word_index (oc_reg x)))
     (filter (\<lambda>x. word_index (oc_reg x) \<noteq> None) occs)"

record duplicate_entry =
  du_index :: nat
  du_register :: string
  du_lines :: "nat list"
  du_values :: "string list"

datatype snapshot_message =
    NoEnd
  | BdfCount nat
  | BoundaryBdfMismatch
  | MissingWords nat
  | DuplicateRegisters nat
  | AllOnesWords nat
  | PostAllOnes
  | PmcAllOnes
  | IncompleteRecord

datatype derivation =
    NoCompleteGr
  | GrWithoutSelector
  | SingleCompleteGr
  | MultipleCompleteGr
  | SuppressedByValidation

record final_snapshot =
  fs_index :: nat
  fs_begin_line :: nat
  fs_end_line :: "nat option"
  fs_begin_fields :: "string \<rightharpoonup> string"
  fs_end_fields :: "string \<rightharpoonup> string"
  fs_bdf :: "string option"
  fs_bdfs_seen :: "string list"
  fs_begin_bdf :: "string option"
  fs_end_bdf :: "string option"
  fs_matches_observed :: bool
  fs_register_occurrences :: "(nat \<times> string \<times> string \<times> string) list"
  fs_post :: single_reg
  fs_post_bit1 :: "int option"
  fs_pmc :: single_reg
  fs_unique_words :: nat
  fs_missing :: "nat list"
  fs_duplicates :: "duplicate_entry list"
  fs_all_ones :: "nat list"
  fs_input_valid :: bool
  fs_decoded :: top_decoded
  fs_gr_devices :: "top_device list"
  fs_gr_reset :: "int option"
  fs_gr_mask :: "string option"
  fs_pmc_bit :: "bool option"
  fs_derivation :: derivation
  fs_valid :: bool
  fs_messages :: "snapshot_message list"

definition observed_bdfs :: "occurrence list \<Rightarrow> string list" where
  "observed_bdfs occs = sort (remdups (map oc_bdf occs))"

definition the_only :: "'a list \<Rightarrow> 'a option" where
  "the_only xs = (case xs of [x] \<Rightarrow> Some x | _ \<Rightarrow> None)"

definition boundary_matches :: "string option \<Rightarrow> string option \<Rightarrow> string option \<Rightarrow> bool" where
  "boundary_matches begin_bdf end_bdf observed =
     list_all (\<lambda>b. b = None \<or> b = observed) [begin_bdf, end_bdf]"

text \<open>The complete GR devices with instance 0.\<close>

definition gr_devices :: "top_decoded \<Rightarrow> top_device list" where
  "gr_devices d = filter (\<lambda>x. td_type x = ''GR'' \<and> td_instance x = 0) (dec_devices d)"

definition derive_gr :: "bool \<Rightarrow> top_device list \<Rightarrow> int option \<times> derivation" where
  "derive_gr derived_valid grs =
     (if \<not> derived_valid then (None, SuppressedByValidation)
      else case grs of
        [] \<Rightarrow> (None, NoCompleteGr)
      | [g] \<Rightarrow> (case td_reset_selector g of None \<Rightarrow> (None, GrWithoutSelector)
                | Some sel \<Rightarrow> (Some sel, SingleCompleteGr))
      | _ \<Rightarrow> (None, MultipleCompleteGr))"

definition empty_decoded :: top_decoded where
  "empty_decoded = \<lparr>dec_devices = [], dec_incomplete = None, dec_invalid = []\<rparr>"

definition missing_words :: "occurrence list \<Rightarrow> nat list" where
  "missing_words occs = filter (\<lambda>i. top_by_index occs i = None) [0..<TOP_WORDS]"

definition duplicate_words :: "occurrence list \<Rightarrow> duplicate_entry list" where
  "duplicate_words occs =
     map (\<lambda>i. let items = get_list (top_by_index occs) i in
            \<lparr>du_index = i, du_register = hex32 (TOP_BASE + 4 * int i),
             du_lines = map oc_line items, du_values = map (hex32 \<circ> oc_value) items\<rparr>)
       (filter (\<lambda>i. length (get_list (top_by_index occs) i) > 1) [0..<TOP_WORDS])"

definition all_ones_words :: "occurrence list \<Rightarrow> nat list" where
  "all_ones_words occs =
     filter (\<lambda>i. list_ex (\<lambda>x. oc_value x = 0xFFFFFFFF) (get_list (top_by_index occs) i)) [0..<TOP_WORDS]"

definition table_words :: "occurrence list \<Rightarrow> int list" where
  "table_words occs = map (\<lambda>i. oc_value (hd (get_list (top_by_index occs) i))) [0..<TOP_WORDS]"

text \<open>\<^verbatim>\<open>input_valid\<close>: the guard in front of the decoder.\<close>

definition input_valid :: "snapshot \<Rightarrow> bool" where
  "input_valid s =
     (let occs = sn_occurrences s; observed = the_only (observed_bdfs occs) in
      sn_end_line s \<noteq> None \<and> observed \<noteq> None \<and>
      boundary_matches (sn_begin_fields s ''bdf'') (sn_end_fields s ''bdf'') observed \<and>
      missing_words occs = [] \<and> duplicate_words occs = [] \<and> all_ones_words occs = [])"

definition snapshot_messages ::
    "snapshot \<Rightarrow> single_reg \<Rightarrow> single_reg \<Rightarrow> top_decoded \<Rightarrow> snapshot_message list" where
  "snapshot_messages s post pmc d =
     (let occs = sn_occurrences s; bdfs = observed_bdfs occs in
      (if sn_end_line s = None then [NoEnd] else []) @
      (if length bdfs \<noteq> 1 then [BdfCount (length bdfs)] else []) @
      (if \<not> boundary_matches (sn_begin_fields s ''bdf'') (sn_end_fields s ''bdf'') (the_only bdfs)
       then [BoundaryBdfMismatch] else []) @
      (if missing_words occs \<noteq> [] then [MissingWords (length (missing_words occs))] else []) @
      (if duplicate_words occs \<noteq> [] then [DuplicateRegisters (length (duplicate_words occs))] else []) @
      (if all_ones_words occs \<noteq> [] then [AllOnesWords (length (all_ones_words occs))] else []) @
      (if sr_invalid_reason post \<noteq> None then [PostAllOnes] else []) @
      (if sr_invalid_reason pmc \<noteq> None then [PmcAllOnes] else []) @
      (if dec_incomplete d \<noteq> None then [IncompleteRecord] else []))"

text \<open>The part of \<^verbatim>\<open>_finalize_snapshot\<close> after the decoder returned.\<close>

definition finalize_decoded :: "snapshot \<Rightarrow> top_decoded \<Rightarrow> final_snapshot" where
  "finalize_decoded s d = (let
     occs = sn_occurrences s;
     bdfs = observed_bdfs occs;
     observed = the_only bdfs;
     begin_bdf = sn_begin_fields s ''bdf'';
     end_bdf = sn_end_fields s ''bdf'';
     derived_valid = (input_valid s \<and> dec_incomplete d = None);
     grs = gr_devices d;
     (gr_reset, deriv) = derive_gr derived_valid grs;
     post = single_register occs POST_REG;
     pmc = single_register occs PMC_ENABLE_REG;
     pmc_value = (if sr_valid pmc then sr_value_int pmc else None)
   in \<lparr>fs_index = sn_index s, fs_begin_line = sn_begin_line s, fs_end_line = sn_end_line s,
       fs_begin_fields = sn_begin_fields s, fs_end_fields = sn_end_fields s,
       fs_bdf = observed, fs_bdfs_seen = bdfs, fs_begin_bdf = begin_bdf, fs_end_bdf = end_bdf,
       fs_matches_observed = boundary_matches begin_bdf end_bdf observed,
       fs_register_occurrences =
         map (\<lambda>x. (oc_line x, oc_bdf x, hex32 (oc_reg x), hex32 (oc_value x))) occs,
       fs_post = post, fs_post_bit1 = post_bit1 post, fs_pmc = pmc,
       fs_unique_words = length (filter (\<lambda>i. top_by_index occs i \<noteq> None) [0..<TOP_WORDS]),
       fs_missing = missing_words occs, fs_duplicates = duplicate_words occs,
       fs_all_ones = all_ones_words occs, fs_input_valid = input_valid s, fs_decoded = d,
       fs_gr_devices = grs, fs_gr_reset = gr_reset,
       fs_gr_mask = map_option (\<lambda>sel. hex32 (push_bit (nat sel) 1)) gr_reset,
       fs_pmc_bit = (case (gr_reset, pmc_value) of
           (Some sel, Some v) \<Rightarrow> Some (v AND push_bit (nat sel) 1 \<noteq> 0) | _ \<Rightarrow> None),
       fs_derivation = deriv,
       fs_valid = (derived_valid \<and> sr_invalid_reason post = None \<and> sr_invalid_reason pmc = None),
       fs_messages = snapshot_messages s post pmc d\<rparr>)"

definition finalize_snapshot :: "snapshot \<Rightarrow> top_error + final_snapshot" where
  "finalize_snapshot s =
     bind_res (if input_valid s then decode_top_words (table_words (sn_occurrences s)) else Inr empty_decoded)
       (\<lambda>d. Inr (finalize_decoded s d))"

subsection \<open>Scanning the capture\<close>

datatype capture_message =
    BeginBeforeEnd nat
  | EndWithoutBegin nat
  | RegisterOutside nat
  | BadRegister nat hex32_error
  | EofBeforeEnd
  | NoSnapshots

record capture_state =
  cs_snapshots :: "final_snapshot list"
  cs_messages :: "capture_message list"
  cs_current :: "snapshot option"

definition has_prefix :: "string \<Rightarrow> bool" where
  "has_prefix raw = search_word ''cmp100_boot_ro'' False raw"

definition line_is_begin :: "string \<Rightarrow> bool" where
  "line_is_begin raw = (has_prefix raw \<and> search_word ''begin'' False raw \<and> \<not> search_word ''end'' False raw)"

definition line_is_end :: "string \<Rightarrow> bool" where
  "line_is_end raw = (has_prefix raw \<and> search_word ''end'' False raw \<and> \<not> search_word ''begin'' False raw)"

definition new_snapshot :: "nat \<Rightarrow> nat \<Rightarrow> string \<Rightarrow> snapshot" where
  "new_snapshot index n raw =
     \<lparr>sn_index = index, sn_begin_line = n, sn_end_line = None,
      sn_begin_fields = line_fields raw, sn_end_fields = Map.empty, sn_occurrences = []\<rparr>"

definition scan_begin :: "capture_state \<Rightarrow> nat \<Rightarrow> string \<Rightarrow> top_error + capture_state" where
  "scan_begin st n raw =
     bind_res
       (case cs_current st of
          None \<Rightarrow> Inr st
        | Some cur \<Rightarrow> bind_res (finalize_snapshot cur) (\<lambda>f.
            Inr (st\<lparr>cs_messages := cs_messages st @ [BeginBeforeEnd n],
                    cs_snapshots := cs_snapshots st @ [f]\<rparr>)))
       (\<lambda>st'. Inr (st'\<lparr>cs_current := Some (new_snapshot (length (cs_snapshots st')) n raw)\<rparr>))"

definition scan_end :: "capture_state \<Rightarrow> nat \<Rightarrow> string \<Rightarrow> top_error + capture_state" where
  "scan_end st n raw =
     (case cs_current st of
        None \<Rightarrow> Inr (st\<lparr>cs_messages := cs_messages st @ [EndWithoutBegin n]\<rparr>)
      | Some cur \<Rightarrow>
          bind_res (finalize_snapshot (cur\<lparr>sn_end_line := Some n, sn_end_fields := line_fields raw\<rparr>))
            (\<lambda>f. Inr (st\<lparr>cs_snapshots := cs_snapshots st @ [f], cs_current := None\<rparr>)))"

definition scan_register :: "capture_state \<Rightarrow> nat \<Rightarrow> string \<Rightarrow> capture_state" where
  "scan_register st n raw =
     (case (line_fields raw ''bdf'', line_fields raw ''reg'', line_fields raw ''value'') of
        (Some bdf, Some reg, Some val) \<Rightarrow>
          (case cs_current st of
             None \<Rightarrow> st\<lparr>cs_messages := cs_messages st @ [RegisterOutside n]\<rparr>
           | Some cur \<Rightarrow>
               (case bind_res (parse_hex32 reg) (\<lambda>r. bind_res (parse_hex32 val) (\<lambda>v. Inr (r, v))) of
                  Inl e \<Rightarrow> st\<lparr>cs_messages := cs_messages st @ [BadRegister n e]\<rparr>
                | Inr (r, v) \<Rightarrow> st\<lparr>cs_current := Some (cur\<lparr>sn_occurrences := sn_occurrences cur @
                    [\<lparr>oc_line = n, oc_bdf = bdf, oc_reg = r, oc_value = v\<rparr>]\<rparr>)\<rparr>))
      | _ \<Rightarrow> st)"

text \<open>One line of the loop.\<close>

definition scan_line :: "capture_state \<Rightarrow> nat \<times> string \<Rightarrow> top_error + capture_state" where
  "scan_line st line = (case line of (n, raw) \<Rightarrow>
     if \<not> has_prefix raw then Inr st
     else if line_is_begin raw then scan_begin st n raw
     else if line_is_end raw then scan_end st n raw
     else Inr (scan_register st n raw))"

record capture_result =
  cr_snapshots :: "final_snapshot list"
  cr_valid :: bool
  cr_messages :: "capture_message list"

definition finish_capture :: "capture_state \<Rightarrow> top_error + capture_result" where
  "finish_capture st =
     bind_res
       (case cs_current st of
          None \<Rightarrow> Inr st
        | Some cur \<Rightarrow> bind_res (finalize_snapshot cur) (\<lambda>f.
            Inr (st\<lparr>cs_messages := cs_messages st @ [EofBeforeEnd],
                    cs_snapshots := cs_snapshots st @ [f]\<rparr>)))
       (\<lambda>st'. let msgs = cs_messages st' @ (if cs_snapshots st' = [] then [NoSnapshots] else []) in
          Inr \<lparr>cr_snapshots = cs_snapshots st',
               cr_valid = (msgs = [] \<and> list_all fs_valid (cs_snapshots st')),
               cr_messages = msgs\<rparr>)"

definition scan_init :: capture_state where
  "scan_init = \<lparr>cs_snapshots = [], cs_messages = [], cs_current = None\<rparr>"

definition scan_step :: "top_error + capture_state \<Rightarrow> nat \<times> string \<Rightarrow> top_error + capture_state" where
  "scan_step r line = bind_res r (\<lambda>st. scan_line st line)"

definition parse_capture :: "string \<Rightarrow> top_error + capture_result" where
  "parse_capture txt =
     bind_res (foldl scan_step (Inr scan_init) (enumerate_from 1 (splitlines txt))) finish_capture"

subsection \<open>The validated table\<close>

lemma word_index_Some:
  "word_index reg = Some i \<longleftrightarrow> i < 64 \<and> reg = TOP_BASE + 4 * int i"
  by (auto simp: word_index_def TOP_BASE_def TOP_END_def TOP_WORDS_def)

lemma top_items: "get_list (top_by_index occs) i = filter (\<lambda>x. word_index (oc_reg x) = Some i) occs"
proof -
  have "filter (\<lambda>x. the (word_index (oc_reg x)) = i) (filter (\<lambda>x. word_index (oc_reg x) \<noteq> None) occs)
      = filter (\<lambda>x. word_index (oc_reg x) = Some i) occs"
    by (induction occs) auto
  then show ?thesis by (simp add: top_by_index_def dict_simps)
qed

lemma top_missing: "top_by_index occs i = None \<longleftrightarrow> get_list (top_by_index occs) i = []"
  by (auto simp: top_by_index_def get_list_def group_by_apply filter_empty_conv split: if_splits)

lemma the_only_conv [simp]: "the_only xs = Some x \<longleftrightarrow> xs = [x]"
  by (auto simp: the_only_def split: list.splits)

lemma the_only_single [simp]: "the_only [x] = Some x"
  by simp

lemma the_only_observed:
  "the_only (observed_bdfs occs) = Some b \<longleftrightarrow> occs \<noteq> [] \<and> (\<forall>x \<in> set occs. oc_bdf x = b)"
proof
  assume "the_only (observed_bdfs occs) = Some b"
  then have "set (observed_bdfs occs) = {b}" by simp
  then have "oc_bdf ` set occs = {b}" by (simp add: observed_bdfs_def)
  then show "occs \<noteq> [] \<and> (\<forall>x \<in> set occs. oc_bdf x = b)" by auto
next
  assume "occs \<noteq> [] \<and> (\<forall>x \<in> set occs. oc_bdf x = b)"
  then have "set (observed_bdfs occs) = {b}" by (auto simp: observed_bdfs_def image_iff neq_Nil_conv)
  moreover have "distinct (observed_bdfs occs)" by (simp add: observed_bdfs_def)
  ultimately show "the_only (observed_bdfs occs) = Some b"
    by (cases "observed_bdfs occs"; cases "tl (observed_bdfs occs)") auto
qed

text \<open>Every table register is present exactly once and is not all ones.\<close>

definition table_complete :: "occurrence list \<Rightarrow> bool" where
  "table_complete occs \<longleftrightarrow>
     (\<forall>i < 64. \<exists>x. filter (\<lambda>x. oc_reg x = TOP_BASE + 4 * int i) occs = [x] \<and> oc_value x \<noteq> 0xFFFFFFFF)"

lemma table_checks:
  "missing_words occs = [] \<and> duplicate_words occs = [] \<and> all_ones_words occs = [] \<longleftrightarrow> table_complete occs"
proof -
  have items: "i < 64 \<Longrightarrow> get_list (top_by_index occs) i
      = filter (\<lambda>x. oc_reg x = TOP_BASE + 4 * int i) occs" for i
    by (simp add: top_items word_index_Some)
  have one: "(ys \<noteq> [] \<and> \<not> length ys > 1 \<and> \<not> (\<exists>x \<in> set ys. oc_value x = 0xFFFFFFFF))
      \<longleftrightarrow> (\<exists>x. ys = [x] \<and> oc_value x \<noteq> 0xFFFFFFFF)" for ys :: "occurrence list"
    by (cases ys; cases "tl ys") auto
  have "missing_words occs = [] \<and> duplicate_words occs = [] \<and> all_ones_words occs = [] \<longleftrightarrow>
      (\<forall>i < 64. get_list (top_by_index occs) i \<noteq> [] \<and> \<not> length (get_list (top_by_index occs) i) > 1 \<and>
         \<not> (\<exists>x \<in> set (get_list (top_by_index occs) i). oc_value x = 0xFFFFFFFF))"
    by (auto simp: missing_words_def duplicate_words_def all_ones_words_def filter_empty_conv
        top_missing list_ex_iff TOP_WORDS_def)
  then show ?thesis unfolding one table_complete_def by (auto simp: items)
qed

lemma input_valid_conv:
  "input_valid s \<longleftrightarrow> sn_end_line s \<noteq> None \<and> table_complete (sn_occurrences s) \<and>
     (\<exists>b. sn_occurrences s \<noteq> [] \<and> (\<forall>x \<in> set (sn_occurrences s). oc_bdf x = b) \<and>
        sn_begin_fields s ''bdf'' \<in> {None, Some b} \<and> sn_end_fields s ''bdf'' \<in> {None, Some b})"
proof -
  have "the_only (observed_bdfs (sn_occurrences s)) \<noteq> None \<and>
      boundary_matches (sn_begin_fields s ''bdf'') (sn_end_fields s ''bdf'')
        (the_only (observed_bdfs (sn_occurrences s)))
    \<longleftrightarrow> (\<exists>b. the_only (observed_bdfs (sn_occurrences s)) = Some b \<and>
        sn_begin_fields s ''bdf'' \<in> {None, Some b} \<and> sn_end_fields s ''bdf'' \<in> {None, Some b})"
    by (auto simp: boundary_matches_def)
  then show ?thesis
    unfolding input_valid_def Let_def the_only_observed table_checks [symmetric] by blast
qed

subsection \<open>No exception escapes\<close>

definition words32 :: "occurrence list \<Rightarrow> bool" where
  "words32 occs \<longleftrightarrow> (\<forall>x \<in> set occs. 0 \<le> oc_value x \<and> oc_value x \<le> 0xFFFFFFFF)"

lemma table_words_nth:
  assumes "table_complete occs" and "i < 64"
  shows "\<exists>x \<in> set occs. oc_reg x = TOP_BASE + 4 * int i \<and> table_words occs ! i = oc_value x"
proof -
  obtain x where x: "filter (\<lambda>x. oc_reg x = TOP_BASE + 4 * int i) occs = [x]"
    using assms by (auto simp: table_complete_def)
  then have "x \<in> set (filter (\<lambda>x. oc_reg x = TOP_BASE + 4 * int i) occs)" by simp
  moreover have "table_words occs ! i = oc_value x"
    using assms(2) x by (simp add: table_words_def TOP_WORDS_def top_items word_index_Some)
  ultimately show ?thesis by auto
qed

lemma table_words_length [simp]: "length (table_words occs) = 64"
  by (simp add: table_words_def TOP_WORDS_def)

lemma decode_table_total:
  assumes "table_complete occs" and "words32 occs"
  shows "\<exists>d. decode_top_words (table_words occs) = Inr d"
proof -
  have "\<forall>v \<in> set (table_words occs). 0 \<le> v \<and> v \<le> 0xFFFFFFFF"
  proof
    fix v assume "v \<in> set (table_words occs)"
    then obtain i where "i < 64" "v = table_words occs ! i"
      by (auto simp: in_set_conv_nth)
    moreover from table_words_nth [OF assms(1) this(1)]
    obtain x where "x \<in> set occs" "table_words occs ! i = oc_value x" by blast
    ultimately show "0 \<le> v \<and> v \<le> 0xFFFFFFFF" using assms(2) by (simp add: words32_def)
  qed
  then show ?thesis
    by (auto simp: decode_top_words_eq TOP_WORDS_def not_less split: prod.splits)
qed

lemma finalize_snapshot_Inr:
  assumes "finalize_snapshot s = Inr f"
  obtains d where "f = finalize_decoded s d"
    "if input_valid s then decode_top_words (table_words (sn_occurrences s)) = Inr d else d = empty_decoded"
  using assms by (auto simp: finalize_snapshot_def bind_res_Inr_conv split: if_splits)

lemma finalize_snapshot_total:
  "words32 (sn_occurrences s) \<Longrightarrow> \<exists>f. finalize_snapshot s = Inr f"
  using decode_table_total [of "sn_occurrences s"]
  by (auto simp: finalize_snapshot_def input_valid_conv bind_res_def split: sum.splits)

lemma parse_hex32_range: "parse_hex32 s = Inr v \<Longrightarrow> 0 \<le> v \<and> v \<le> 0xFFFFFFFF"
  using hex_match_value [of s] by (auto simp: parse_hex32_def Let_def split: if_splits)

text \<open>The scanner's invariant: it has not raised, and the open snapshot holds 32-bit values.\<close>

definition good_scan :: "top_error + capture_state \<Rightarrow> bool" where
  "good_scan r = (case r of Inl _ \<Rightarrow> False
     | Inr st \<Rightarrow> (case cs_current st of None \<Rightarrow> True | Some cur \<Rightarrow> words32 (sn_occurrences cur)))"

lemma good_scan_open:
  assumes "good_scan (Inr st)" and "cs_current st = Some cur"
  shows "words32 (sn_occurrences cur)"
  using assms by (simp add: good_scan_def)

lemma words32_Nil [simp]: "words32 []"
  by (simp add: words32_def)

lemma scan_register_current:
  assumes "good_scan (Inr st)"
  shows "good_scan (Inr (scan_register st n raw))"
    and "cs_snapshots (scan_register st n raw) = cs_snapshots st"
    and "(cs_current (scan_register st n raw) = None) = (cs_current st = None)"
proof -
  show "good_scan (Inr (scan_register st n raw))"
    using assms
    by (auto simp: scan_register_def good_scan_def words32_def bind_res_Inr_conv
        dest!: parse_hex32_range split: option.splits sum.splits)
  show "cs_snapshots (scan_register st n raw) = cs_snapshots st"
    by (simp add: scan_register_def split: option.splits sum.splits prod.splits)
  show "(cs_current (scan_register st n raw) = None) = (cs_current st = None)"
    by (simp add: scan_register_def split: option.splits sum.splits prod.splits)
qed

text \<open>What one line does to the closed and the open snapshots.\<close>

definition advances :: "capture_state \<Rightarrow> capture_state \<Rightarrow> bool \<Rightarrow> bool" where
  "advances st st' opened \<longleftrightarrow> good_scan (Inr st') \<and>
     (\<exists>fs. cs_snapshots st' = cs_snapshots st @ fs \<and>
        length fs + of_bool (cs_current st' \<noteq> None) = of_bool (cs_current st \<noteq> None) + of_bool opened)"

lemma scan_begin_advances:
  assumes "good_scan (Inr st)"
  shows "\<exists>st'. scan_begin st n raw = Inr st' \<and> advances st st' True"
proof (cases "cs_current st")
  case None
  then show ?thesis
    by (simp add: scan_begin_def advances_def good_scan_def new_snapshot_def)
next
  case (Some cur)
  obtain f where "finalize_snapshot cur = Inr f"
    using finalize_snapshot_total good_scan_open [OF assms Some] by blast
  with Some show ?thesis
    by (simp add: scan_begin_def advances_def good_scan_def new_snapshot_def)
qed

lemma scan_end_advances:
  assumes "good_scan (Inr st)"
  shows "\<exists>st'. scan_end st n raw = Inr st' \<and> advances st st' False"
proof (cases "cs_current st")
  case None
  then show ?thesis by (simp add: scan_end_def advances_def good_scan_def)
next
  case (Some cur)
  obtain f where "finalize_snapshot (cur\<lparr>sn_end_line := Some n, sn_end_fields := line_fields raw\<rparr>) = Inr f"
    using finalize_snapshot_total [of "cur\<lparr>sn_end_line := Some n, sn_end_fields := line_fields raw\<rparr>"]
      good_scan_open [OF assms Some] by auto
  with Some show ?thesis by (simp add: scan_end_def advances_def good_scan_def)
qed

lemma scan_step_advances:
  assumes "good_scan (Inr st)"
  shows "\<exists>st'. scan_step (Inr st) l = Inr st' \<and> advances st st' (line_is_begin (snd l))"
proof -
  obtain n raw where l: "l = (n, raw)" by fastforce
  consider "\<not> has_prefix raw" | "line_is_begin raw" | "has_prefix raw" "line_is_end raw"
    | "has_prefix raw" "\<not> line_is_begin raw" "\<not> line_is_end raw" by blast
  then show ?thesis
  proof cases
    case 1
    then show ?thesis using assms by (simp add: scan_step_def scan_line_def l advances_def line_is_begin_def)
  next
    case 2
    then have "scan_line st l = scan_begin st n raw" by (simp add: scan_line_def l line_is_begin_def)
    with 2 scan_begin_advances [OF assms] show ?thesis by (simp add: scan_step_def l)
  next
    case 3
    then have "\<not> line_is_begin raw" by (simp add: line_is_begin_def line_is_end_def)
    with 3 scan_end_advances [OF assms] show ?thesis by (simp add: scan_step_def scan_line_def l)
  next
    case 4
    then show ?thesis using scan_register_current [OF assms, of n raw]
      by (simp add: scan_step_def scan_line_def l advances_def)
  qed
qed

definition closed_snapshots :: "top_error + capture_state \<Rightarrow> final_snapshot list" where
  "closed_snapshots r = (case r of Inl _ \<Rightarrow> [] | Inr st \<Rightarrow> cs_snapshots st)"

definition snapshot_open :: "top_error + capture_state \<Rightarrow> bool" where
  "snapshot_open r = (case r of Inl _ \<Rightarrow> False | Inr st \<Rightarrow> cs_current st \<noteq> None)"

lemma scan_step_result:
  assumes "good_scan r"
  shows "good_scan (scan_step r l)"
    and "\<exists>fs. closed_snapshots (scan_step r l) = closed_snapshots r @ fs"
    and "length (closed_snapshots (scan_step r l)) + of_bool (snapshot_open (scan_step r l))
      = length (closed_snapshots r) + of_bool (snapshot_open r) + of_bool (line_is_begin (snd l))"
proof -
  obtain st where r: "r = Inr st" using assms by (cases r) (auto simp: good_scan_def)
  obtain st' where st': "scan_step r l = Inr st'" "advances st st' (line_is_begin (snd l))"
    using scan_step_advances assms r by blast
  show "good_scan (scan_step r l)" using st' by (simp add: advances_def)
  show "\<exists>fs. closed_snapshots (scan_step r l) = closed_snapshots r @ fs"
    using st' by (auto simp: advances_def closed_snapshots_def r)
  show "length (closed_snapshots (scan_step r l)) + of_bool (snapshot_open (scan_step r l))
      = length (closed_snapshots r) + of_bool (snapshot_open r) + of_bool (line_is_begin (snd l))"
    using st' by (auto simp: advances_def closed_snapshots_def snapshot_open_def r)
qed

interpretation top_scan: block_scan scan_step good_scan closed_snapshots snapshot_open line_is_begin
  by unfold_locales (fact scan_step_result)+

subsection \<open>Properties of the capture decoder\<close>

text \<open>No input text makes \<^verbatim>\<open>parse_capture\<close> raise: every snapshot is finalised, although the
  word decoder it calls rejects malformed tables, and the result holds exactly one snapshot for
  each BEGIN line of the text.\<close>

theorem parse_capture_total:
  "\<exists>r. parse_capture txt = Inr r \<and>
     length (cr_snapshots r) = length (filter line_is_begin (splitlines txt))"
proof -
  let ?ls = "enumerate_from 1 (splitlines txt)"
  let ?r = "foldl scan_step (Inr scan_init) ?ls"
  have init: "good_scan (Inr scan_init)" by (simp add: good_scan_def scan_init_def)
  have good: "good_scan ?r" using init by (rule top_scan.scan_good)
  have count: "length (closed_snapshots ?r) + of_bool (snapshot_open ?r)
      = length (filter line_is_begin (splitlines txt))"
    using top_scan.scan_count [OF init, of ?ls]
    by (simp add: closed_snapshots_def snapshot_open_def scan_init_def filter_enumerate_from)
  obtain st where st: "?r = Inr st" using good by (cases ?r) (auto simp: good_scan_def)
  have "\<exists>r. finish_capture st = Inr r \<and>
      length (cr_snapshots r) = length (cs_snapshots st) + of_bool (cs_current st \<noteq> None)"
  proof (cases "cs_current st")
    case None
    then show ?thesis by (simp add: finish_capture_def Let_def)
  next
    case (Some cur)
    obtain f where "finalize_snapshot cur = Inr f"
      using finalize_snapshot_total good_scan_open [OF _ Some] good st by auto
    with Some show ?thesis by (simp add: finish_capture_def Let_def)
  qed
  moreover have "length (cs_snapshots st) + of_bool (cs_current st \<noteq> None)
      = length (filter line_is_begin (splitlines txt))"
    using count unfolding st by (simp add: closed_snapshots_def snapshot_open_def)
  ultimately show ?thesis
    unfolding parse_capture_def st by simp
qed

lemma finalize_decoded_select:
  "fs_decoded (finalize_decoded s d) = d"
  "fs_messages (finalize_decoded s d) =
     snapshot_messages s (single_register (sn_occurrences s) POST_REG)
       (single_register (sn_occurrences s) PMC_ENABLE_REG) d"
  "fs_valid (finalize_decoded s d) =
     (input_valid s \<and> dec_incomplete d = None \<and>
      sr_invalid_reason (single_register (sn_occurrences s) POST_REG) = None \<and>
      sr_invalid_reason (single_register (sn_occurrences s) PMC_ENABLE_REG) = None)"
  "fs_gr_mask (finalize_decoded s d) =
     map_option (\<lambda>sel. hex32 (push_bit (nat sel) 1))
       (fst (derive_gr (input_valid s \<and> dec_incomplete d = None) (gr_devices d)))"
  by (simp_all add: finalize_decoded_def Let_def split: prod.splits)

lemma derive_gr_Some:
  "fst (derive_gr b grs) = Some sel \<longleftrightarrow> b \<and> (\<exists>g. grs = [g] \<and> td_reset_selector g = Some sel)"
  by (auto simp: derive_gr_def split: list.splits option.splits)

text \<open>A snapshot is valid exactly when its message list is empty: every condition that
  invalidates it is reported, and nothing else is.\<close>

lemma snapshot_valid_iff_no_messages:
  assumes "finalize_snapshot s = Inr f"
  shows "fs_valid f \<longleftrightarrow> fs_messages f = []"
proof -
  obtain d where f: "f = finalize_decoded s d"
    and d: "if input_valid s then decode_top_words (table_words (sn_occurrences s)) = Inr d
            else d = empty_decoded"
    using assms by (rule finalize_snapshot_Inr)
  have one: "length (observed_bdfs (sn_occurrences s)) = 1 \<longleftrightarrow>
      the_only (observed_bdfs (sn_occurrences s)) \<noteq> None"
    by (auto simp: the_only_def length_Suc_conv split: list.splits)
  show ?thesis
    unfolding f finalize_decoded_select snapshot_messages_def input_valid_def Let_def
    using one by auto
qed

text \<open>C2: The derivation fails closed: a PMC mask is reported only for a closed snapshot of one
  adapter whose boundary lines name no other adapter, in which each of the 64 TOP registers was
  seen exactly once and is not all ones, whose table decodes without an unfinished record to
  exactly one GR device with instance 0; the mask is then the power of two of that device's reset
  selector, which is below 32.\<close>

theorem gr_mask_fails_closed:
  assumes "finalize_snapshot s = Inr f" and "fs_gr_mask f = Some m"
  shows "sn_end_line s \<noteq> None \<and> table_complete (sn_occurrences s) \<and>
    (\<exists>b. (\<forall>x \<in> set (sn_occurrences s). oc_bdf x = b) \<and>
       sn_begin_fields s ''bdf'' \<in> {None, Some b} \<and> sn_end_fields s ''bdf'' \<in> {None, Some b}) \<and>
    decode_top_words (table_words (sn_occurrences s)) = Inr (fs_decoded f) \<and>
    dec_incomplete (fs_decoded f) = None \<and>
    (\<exists>g sel. gr_devices (fs_decoded f) = [g] \<and> td_reset_selector g = Some sel \<and>
       0 \<le> sel \<and> sel \<le> 31 \<and> m = hex32 (2 ^ nat sel))"
proof -
  obtain d where f: "f = finalize_decoded s d"
    and d: "if input_valid s then decode_top_words (table_words (sn_occurrences s)) = Inr d
            else d = empty_decoded"
    using assms(1) by (rule finalize_snapshot_Inr)
  from assms(2) obtain g sel where v: "input_valid s" "dec_incomplete d = None"
    and g: "gr_devices d = [g]" "td_reset_selector g = Some sel"
    and m: "m = hex32 (push_bit (nat sel) 1)"
    by (auto simp: f finalize_decoded_select derive_gr_Some)
  have dec: "decode_top_words (table_words (sn_occurrences s)) = Inr d" using d v by simp
  have "g \<in> set (gr_devices d)" using g by simp
  then have "g \<in> set (dec_devices d)" by (simp add: gr_devices_def)
  from device_groups [OF dec this] obtain ws where "ws \<noteq> []" "g = device_of_words ws" by blast
  with device_of_words_bounds(5) g(2) have "0 \<le> sel \<and> sel \<le> 31" by blast
  with v dec g m show ?thesis
    by (auto simp: f finalize_decoded_select input_valid_conv push_bit_eq_mult)
qed

subsection \<open>A complete dump\<close>

text \<open>A table in which every register holds the given word: the words are found by their registers.\<close>

lemma table_words_of:
  assumes "length ws = 64" and "\<forall>w \<in> set ws. w \<noteq> 0xFFFFFFFF"
    and "\<And>i. i < 64 \<Longrightarrow> \<exists>x. filter (\<lambda>x. oc_reg x = TOP_BASE + 4 * int i) occs = [x] \<and> oc_value x = ws ! i"
  shows "table_complete occs" and "table_words occs = ws"
proof -
  have "ws ! i \<noteq> 0xFFFFFFFF" if "i < 64" for i using assms(1,2) that nth_mem [of i ws] by metis
  then show "table_complete occs" using assms(3) by (fastforce simp: table_complete_def)
  show "table_words occs = ws"
  proof (rule nth_equalityI)
    show "length (table_words occs) = length ws" by (simp add: assms(1))
    fix i assume "i < length (table_words occs)"
    then have i: "i < 64" by simp
    then obtain x where "filter (\<lambda>x. oc_reg x = TOP_BASE + 4 * int i) occs = [x]" "oc_value x = ws ! i" using assms(3) by blast
    with i show "table_words occs ! i = ws ! i" by (simp add: table_words_def TOP_WORDS_def top_items word_index_Some)
  qed
qed



text \<open>A dump whose lines came in reverse order, after a read of the POST register.\<close>

definition dump_occurrence :: "string \<Rightarrow> int list \<Rightarrow> nat \<Rightarrow> occurrence" where
  "dump_occurrence bdf ws i =
     \<lparr>oc_line = 66 - i, oc_bdf = bdf, oc_reg = TOP_BASE + 4 * int i, oc_value = ws ! i\<rparr>"

definition dump_snapshot :: "string \<Rightarrow> int list \<Rightarrow> snapshot" where
  "dump_snapshot bdf ws = \<lparr>sn_index = 0, sn_begin_line = 1, sn_end_line = Some 67,
     sn_begin_fields = Map.empty, sn_end_fields = [''bdf'' \<mapsto> bdf],
     sn_occurrences = \<lparr>oc_line = 2, oc_bdf = bdf, oc_reg = POST_REG, oc_value = 2\<rparr> # rev (map (dump_occurrence bdf ws) [0..<64])\<rparr>"

lemma filter_eq_upt: "i < n \<Longrightarrow> filter (\<lambda>j. j = i) [0..<n] = [i]"
  by (induction n) (auto simp: less_Suc_eq)

lemma dump_register:
  assumes "i < 64"
  shows "filter (\<lambda>x. oc_reg x = 0x022700 + 4 * int i) (sn_occurrences (dump_snapshot bdf ws)) = [dump_occurrence bdf ws i]"
proof -
  have "filter (\<lambda>x. oc_reg x = TOP_BASE + 4 * int i) (map (dump_occurrence bdf ws) [0..<64])
      = map (dump_occurrence bdf ws) (filter (\<lambda>j. j = i) [0..<64])"
    by (simp add: filter_map comp_def dump_occurrence_def)
  also have "\<dots> = [dump_occurrence bdf ws i]" by (simp only: filter_eq_upt [OF assms] list.map)
  finally have "filter (\<lambda>x. oc_reg x = 0x022700 + 4 * int i) (rev (map (dump_occurrence bdf ws) [0..<64])) = [dump_occurrence bdf ws i]"
    by (simp add: rev_filter [symmetric] TOP_BASE_def del: rev_map)
  moreover have "POST_REG \<noteq> 0x022700 + 4 * int i" using assms by (simp add: POST_REG_def)
  ultimately show ?thesis by (simp add: dump_snapshot_def)
qed

definition sample_snapshot :: snapshot where
  "sample_snapshot = dump_snapshot ''0000:01:00.0'' sample_top_words"

definition sample_final :: final_snapshot where
  "sample_final = finalize_decoded sample_snapshot sample_decoded"

lemma sample_words: "length sample_top_words = 64" "\<forall>w \<in> set sample_top_words. 0 \<le> w \<and> w < 0xFFFFFFFF"
  by (simp_all add: sample_top_words_def)

lemma sample_registers:
  "\<forall>i < 64. \<exists>x. filter (\<lambda>x. oc_reg x = 0x022700 + 4 * int i) (sn_occurrences sample_snapshot) = [x] \<and> oc_value x = sample_top_words ! i"
  by (simp add: sample_snapshot_def dump_register) (simp add: dump_occurrence_def)

lemma sample_snapshot_valid: "input_valid sample_snapshot" and sample_snapshot_words: "table_words (sn_occurrences sample_snapshot) = sample_top_words"
proof -
  have table: "table_complete (sn_occurrences sample_snapshot)" "table_words (sn_occurrences sample_snapshot) = sample_top_words"
    using table_words_of [of sample_top_words "sn_occurrences sample_snapshot"] sample_words sample_registers by (auto simp: TOP_BASE_def)
  then show "table_words (sn_occurrences sample_snapshot) = sample_top_words" by simp
  show "input_valid sample_snapshot"
    using table(1) by (auto simp: input_valid_conv sample_snapshot_def dump_snapshot_def dump_occurrence_def)
qed

lemma sample_snapshot_final: "finalize_snapshot sample_snapshot = Inr sample_final"
  by (simp add: finalize_snapshot_def sample_snapshot_valid sample_snapshot_words sample_top_words_decoded sample_final_def)

lemma sample_gr_devices: "gr_devices sample_decoded = [sample_device]" "dec_incomplete sample_decoded = None"
  by code_simp+

lemma sample_final_mask: "fs_gr_mask sample_final = Some ''0x00001000''"
proof -
  have "hex32 (push_bit (nat 12) 1) = ''0x00001000''" by code_simp
  then show ?thesis
    by (simp add: sample_final_def finalize_decoded_select sample_gr_devices derive_gr_def sample_device_def sample_snapshot_valid)
qed


theorem gr_mask_fails_closed_witness:
  "\<exists>g sel. gr_devices (fs_decoded sample_final) = [g] \<and> td_reset_selector g = Some sel \<and>
     ''0x00001000'' = hex32 (2 ^ nat sel)"
  using gr_mask_fails_closed [OF sample_snapshot_final sample_final_mask] by blast

end
