(* ===== verification/StageRecords.thy ===== *)
theory StageRecords
  imports CaptureScan "HOL-Library.Char_ord" "HOL-Library.List_Lexorder"
begin

text \<open>
  The records of \<^verbatim>\<open>tools/decode_gv100_stages.py\<close> and the parsers of its lines:
  \<^verbatim>\<open>_integer\<close>, \<^verbatim>\<open>_new_run\<close>, \<^verbatim>\<open>_parse_stage\<close>, \<^verbatim>\<open>_parse_value\<close>,
  \<^verbatim>\<open>_parse_missed\<close> and \<^verbatim>\<open>_value_map\<close>. An exception is the constructor of
  \<open>parse_reason\<close> that its message renders. Registers and values are kept as the hexadecimal text
  the parser stores and are read back with \<^verbatim>\<open>int(text, 16)\<close>, as the code does.
\<close>

subsection \<open>Constants\<close>

definition EXPECTED_LIVE_GR_TYPE :: int where "EXPECTED_LIVE_GR_TYPE = 34"
definition PMC_REG :: int where "PMC_REG = 0x000200"
definition STAGE_POST_REG :: int where "STAGE_POST_REG = 0x02240C"
definition GPC_STATUS_REG :: int where "GPC_STATUS_REG = 0x021C1C"
definition LOGICAL_GPC_COUNT_REG :: int where "LOGICAL_GPC_COUNT_REG = 0x409604"
definition COMPUTE_PIPE_CONTROL_REG :: int where "COMPUTE_PIPE_CONTROL_REG = 0x409664"
definition GPC_TPC_COUNT_BASE :: int where "GPC_TPC_COUNT_BASE = 0x502608"
definition PPC_TPC_MASK_BASE :: int where "PPC_TPC_MASK_BASE = 0x500C30"
definition GPC_STRIDE :: int where "GPC_STRIDE = 0x8000"
definition MAX_GPCS :: nat where "MAX_GPCS = 6"
definition PPCS_PER_GPC :: nat where "PPCS_PER_GPC = 3"

definition RAW_REGS :: "int list" where
  "RAW_REGS = map (\<lambda>slot. 0x21760 + 4 * int slot) [0..<MAX_GPCS]"
definition CTRL_REGS :: "int list" where
  "CTRL_REGS = map (\<lambda>slot. 0x21838 + 4 * int slot) [0..<MAX_GPCS]"
definition STATUS_REGS :: "int list" where
  "STATUS_REGS = map (\<lambda>slot. 0x21C38 + 4 * int slot) [0..<MAX_GPCS]"

definition PHYSICAL_REGS :: "int list" where
  "PHYSICAL_REGS = [PMC_REG, STAGE_POST_REG, GPC_STATUS_REG] @
     concat (map (\<lambda>slot. [RAW_REGS ! slot, CTRL_REGS ! slot, STATUS_REGS ! slot]) [0..<MAX_GPCS])"

definition CORE_SEQUENCE :: "string list" where
  "CORE_SEQUENCE = [''nvidia_baseline'', ''post_entry'', ''post_return'', ''gr_reset_mask_return'',
     ''gr_reset_return'', ''oneinit_entry'', ''oneinit_return'', ''ctxctl_entry'', ''ctxctl_return'']"

definition NONRESET_SEQUENCE :: "string list" where
  "NONRESET_SEQUENCE = filter (\<lambda>nm. nm \<notin> {''gr_reset_mask_return'', ''gr_reset_return''}) CORE_SEQUENCE"

definition LOGICAL_STAGES :: "string list" where
  "LOGICAL_STAGES = [''nvidia_baseline'', ''oneinit_return'', ''ctxctl_entry'', ''ctxctl_return'']"

definition MISSED_SYMBOLS :: "string list" where
  "MISSED_SYMBOLS = [''nvkm_devinit_post'', ''nvkm_mc_reset'', ''nvkm_mc_reset_mask'',
     ''gf100_gr_oneinit'', ''gf100_gr_init_ctxctl_ext'']"

subsection \<open>Records\<close>

datatype parse_reason =
    MissingKey string
  | InvalidInteger string string
  | MissingStageFields "string list"
  | MissingValueFields "string list"
  | MissingMissedFields
  | ValueExceeds32
  | UnknownRecord

record value_rec =
  vr_line :: nat
  vr_seq :: int
  vr_reg :: string
  vr_value :: string
  vr_raw :: string

record topology =
  lt_gpc_count :: int
  lt_tpc_counts :: "int list"
  lt_tpc_sum :: "int option"
  lt_ppc_complete :: bool

record stage =
  sg_line :: nat
  sg_seq :: int
  sg_name :: string
  sg_start_ns :: int
  sg_end_ns :: int
  sg_pid :: int
  sg_rc :: int
  sg_post :: int
  sg_invalid :: int
  sg_values :: "value_rec list"
  sg_raw :: string
  sg_topology :: "topology option"

record missed_rec =
  ms_line :: nat
  ms_symbol :: string
  ms_nmissed :: int
  ms_raw :: string

record unparsed_line =
  up_line :: nat
  up_kind :: string
  up_reason :: parse_reason
  up_raw :: string

record run =
  rn_begin_line :: nat
  rn_end_line :: "nat option"
  rn_begin_bdf :: "string option"
  rn_end_bdf :: "string option"
  rn_declared :: "int option"
  rn_dropped :: "int option"
  rn_pmu_present :: "int option"
  rn_stages :: "stage list"
  rn_missed :: "missed_rec list"
  rn_orphans :: "value_rec list"
  rn_unparsed :: "unparsed_line list"
  rn_raw_lines :: "string list"
  rn_complete :: bool
  rn_armed :: "int option"

subsection \<open>Line parsers\<close>

text \<open>\<^verbatim>\<open>_integer\<close>: hexadecimal when the text matches \<^verbatim>\<open>HEX_RE\<close>, decimal otherwise.\<close>

definition integer_field :: "string \<Rightarrow> string \<Rightarrow> parse_reason + int" where
  "integer_field s field =
     of_option (InvalidInteger field s) (if hex_match s then py_int16 s else py_int10 s)"

definition required_field :: "(string \<rightharpoonup> string) \<Rightarrow> string \<Rightarrow> parse_reason + string" where
  "required_field fs name = of_option (MissingKey name) (fs name)"

definition int_field :: "(string \<rightharpoonup> string) \<Rightarrow> string \<Rightarrow> parse_reason + int" where
  "int_field fs name = bind_res (required_field fs name) (\<lambda>s. integer_field s name)"

definition note_unparsed :: "nat \<Rightarrow> string \<Rightarrow> parse_reason \<Rightarrow> string \<Rightarrow> run \<Rightarrow> run" where
  "note_unparsed n kind reason raw r =
     r\<lparr>rn_unparsed := rn_unparsed r @ [\<lparr>up_line = n, up_kind = kind, up_reason = reason, up_raw = raw\<rparr>]\<rparr>"

definition new_run :: "nat \<Rightarrow> string \<Rightarrow> (string \<rightharpoonup> string) \<Rightarrow> run" where
  "new_run n raw fs = (let
     r0 = \<lparr>rn_begin_line = n, rn_end_line = None, rn_begin_bdf = fs ''bdf'', rn_end_bdf = None,
           rn_declared = None, rn_dropped = None, rn_pmu_present = None, rn_stages = [],
           rn_missed = [], rn_orphans = [], rn_unparsed = [], rn_raw_lines = [raw],
           rn_complete = False, rn_armed = None\<rparr>;
     r1 = (case int_field fs ''records'' of
             Inl e \<Rightarrow> note_unparsed n ''BEGIN'' e raw r0
           | Inr v \<Rightarrow> (case int_field fs ''dropped'' of
                 Inl e \<Rightarrow> note_unparsed n ''BEGIN'' e raw (r0\<lparr>rn_declared := Some v\<rparr>)
               | Inr w \<Rightarrow> r0\<lparr>rn_declared := Some v, rn_dropped := Some w\<rparr>))
   in (case fs ''pmu_present'' of
         None \<Rightarrow> r1
       | Some s \<Rightarrow> (case integer_field s ''pmu_present'' of
             Inl e \<Rightarrow> note_unparsed n ''BEGIN'' e raw r1
           | Inr v \<Rightarrow> r1\<lparr>rn_pmu_present := Some v\<rparr>)))"

definition missing_names :: "(string \<rightharpoonup> string) \<Rightarrow> string list \<Rightarrow> string list" where
  "missing_names fs names = filter (\<lambda>nm. fs nm = None) names"

definition parse_stage :: "nat \<Rightarrow> string \<Rightarrow> (string \<rightharpoonup> string) \<Rightarrow> parse_reason + stage" where
  "parse_stage n raw fs = (let
     missing = missing_names fs [''seq'', ''name'', ''start_ns'', ''end_ns'', ''pid'', ''rc'', ''post'', ''invalid'']
   in bind_res (ensure (missing = []) (MissingStageFields missing)) (\<lambda>_.
      bind_res (int_field fs ''seq'') (\<lambda>sq.
      bind_res (required_field fs ''name'') (\<lambda>nm.
      bind_res (int_field fs ''start_ns'') (\<lambda>t0.
      bind_res (int_field fs ''end_ns'') (\<lambda>t1.
      bind_res (int_field fs ''pid'') (\<lambda>p.
      bind_res (int_field fs ''rc'') (\<lambda>rc.
      bind_res (int_field fs ''post'') (\<lambda>po.
      bind_res (int_field fs ''invalid'') (\<lambda>iv.
        Inr \<lparr>sg_line = n, sg_seq = sq, sg_name = nm, sg_start_ns = t0, sg_end_ns = t1, sg_pid = p,
             sg_rc = rc, sg_post = po, sg_invalid = iv, sg_values = [], sg_raw = raw,
             sg_topology = None\<rparr>))))))))))"

definition parse_value :: "nat \<Rightarrow> string \<Rightarrow> (string \<rightharpoonup> string) \<Rightarrow> parse_reason + value_rec" where
  "parse_value n raw fs = (let missing = missing_names fs [''seq'', ''reg'', ''value'']
   in bind_res (ensure (missing = []) (MissingValueFields missing)) (\<lambda>_.
      bind_res (int_field fs ''reg'') (\<lambda>reg.
      bind_res (int_field fs ''value'') (\<lambda>v.
      bind_res (ensure (0 \<le> reg \<and> reg \<le> 0xFFFFFFFF \<and> 0 \<le> v \<and> v \<le> 0xFFFFFFFF) ValueExceeds32) (\<lambda>_.
      bind_res (int_field fs ''seq'') (\<lambda>sq.
        Inr \<lparr>vr_line = n, vr_seq = sq, vr_reg = py_hex 6 reg, vr_value = py_hex 8 v, vr_raw = raw\<rparr>))))))"

definition parse_missed :: "nat \<Rightarrow> string \<Rightarrow> (string \<rightharpoonup> string) \<Rightarrow> parse_reason + missed_rec" where
  "parse_missed n raw fs =
     (case (fs ''symbol'', fs ''nmissed'') of
        (Some sy, Some k) \<Rightarrow> bind_res (integer_field k ''nmissed'') (\<lambda>v.
           Inr \<lparr>ms_line = n, ms_symbol = sy, ms_nmissed = v, ms_raw = raw\<rparr>)
      | _ \<Rightarrow> Inl MissingMissedFields)"

subsection \<open>The registers of a stage\<close>

text \<open>
  \<^verbatim>\<open>_value_map\<close>: the first value of a register is kept, in order of appearance, and every
  repetition is listed. \<^term>\<open>None\<close> is the \<^verbatim>\<open>ValueError\<close> of \<^verbatim>\<open>int(text, 16)\<close>.
\<close>

type_synonym value_map = "(int \<times> int) list \<times> int list"

fun value_map_loop :: "value_map \<Rightarrow> value_rec list \<Rightarrow> value_map option" where
  "value_map_loop (vs, dups) [] = Some (vs, dups)"
| "value_map_loop (vs, dups) (x # xs) =
     (case (py_int16 (vr_reg x), py_int16 (vr_value x)) of
        (Some reg, Some v) \<Rightarrow>
          if map_of vs reg \<noteq> None then value_map_loop (vs, dups @ [reg]) xs
          else value_map_loop (vs @ [(reg, v)], dups) xs
      | _ \<Rightarrow> None)"

definition value_map_of :: "stage \<Rightarrow> value_map option" where
  "value_map_of s = value_map_loop ([], []) (sg_values s)"

text \<open>The values the parser stores: both texts were written from 32-bit numbers.\<close>

definition wf_value :: "value_rec \<Rightarrow> bool" where
  "wf_value x \<longleftrightarrow> (\<exists>reg v. 0 \<le> reg \<and> reg \<le> 0xFFFFFFFF \<and> 0 \<le> v \<and> v \<le> 0xFFFFFFFF \<and>
     vr_reg x = py_hex 6 reg \<and> vr_value x = py_hex 8 v)"

definition reg_of :: "value_rec \<Rightarrow> int" where "reg_of x = the (py_int16 (vr_reg x))"
definition val_of :: "value_rec \<Rightarrow> int" where "val_of x = the (py_int16 (vr_value x))"

lemma wf_valueI:
  "vr_reg x = py_hex 6 reg \<Longrightarrow> vr_value x = py_hex 8 v \<Longrightarrow>
     0 \<le> reg \<Longrightarrow> reg \<le> 0xFFFFFFFF \<Longrightarrow> 0 \<le> v \<Longrightarrow> v \<le> 0xFFFFFFFF \<Longrightarrow> wf_value x"
  by (auto simp: wf_value_def)

lemma parse_value_wf: "parse_value n raw fs = Inr x \<Longrightarrow> wf_value x"
  by (auto simp: parse_value_def bind_res_Inr_conv Let_def intro: wf_valueI)

lemma wf_value_decode:
  assumes "wf_value x"
  shows "py_int16 (vr_reg x) = Some (reg_of x)" and "py_int16 (vr_value x) = Some (val_of x)"
    and "0 \<le> reg_of x \<and> reg_of x \<le> 0xFFFFFFFF" and "0 \<le> val_of x \<and> val_of x \<le> 0xFFFFFFFF"
  using assms by (auto simp: wf_value_def reg_of_def val_of_def hex_text.dec_enc)

text \<open>The dictionary a loop over well-formed values builds: first occurrences, then repetitions.\<close>

fun first_values :: "(int \<times> int) list \<Rightarrow> value_rec list \<Rightarrow> (int \<times> int) list" where
  "first_values vs [] = vs"
| "first_values vs (x # xs) =
     first_values (if reg_of x \<in> fst ` set vs then vs else vs @ [(reg_of x, val_of x)]) xs"

lemma value_map_loop_wf:
  "list_all wf_value xs \<Longrightarrow> \<exists>dups'. value_map_loop (vs, dups) xs = Some (first_values vs xs, dups')"
proof (induction xs arbitrary: vs dups)
  case Nil
  then show ?case by simp
next
  case (Cons x xs)
  then have "wf_value x" by simp
  with Cons show ?case by (auto simp: wf_value_decode map_of_eq_None_iff)
qed

lemma value_map_of_wf:
  "list_all wf_value (sg_values s) \<Longrightarrow> \<exists>dups. value_map_of s = Some (first_values [] (sg_values s), dups)"
  unfolding value_map_of_def by (rule value_map_loop_wf)

end
