(* ===== verification/StageValidate.thy ===== *)
theory StageValidate
  imports StageRecords
begin

text \<open>
  \<^verbatim>\<open>_validate_run\<close> and \<^verbatim>\<open>_mask_observations\<close> of \<^verbatim>\<open>tools/decode_gv100_stages.py\<close>. The
  error list is built as the code builds it, one group of checks after the other; each
  \<^verbatim>\<open>_error(errors, code, ...)\<close> is a constructor of \<open>stage_error\<close>. The validated run extends the
  parsed one by the entries the function stores in it.
\<close>

subsection \<open>Errors\<close>

datatype invalid_flag = AllOnesFlag | BufferOverflowFlag | BadGpcCountFlag | UnknownBits int

datatype stage_error =
    MissingEnd
  | MissingBeginBdf
  | BdfMismatch "string option" "string option"
  | MissingDeclaredCount
  | RecordCountMismatch int nat
  | MissingDroppedCount
  | RecordsDropped int
  | InvalidPmuPresent int
  | UnparsedCaptureLines nat
  | OrphanValues nat
  | UnexpectedLiveGrType int
  | DuplicateStageSeq "int list"
  | NoncontiguousStageSeq "int list"
  | InvalidStageTime int string
  | NonmonotonicStageTime int string
  | CollectorInvalid int string int "invalid_flag list"
  | NegativeReturn int string int
  | DuplicateRegister int string "string list"
  | AllOnesValue int string "string list"
  | MissingPhysicalRegisters int string "string list"
  | LogicalValuesAtUnsafeStage int string
  | PmcGrBitClear int string
  | MissingLogicalGpcCount int string
  | InvalidLogicalGpcCount int string int
  | MissingComputePipeControl int string
  | MissingGpcTpcCounts int string "string list"
  | MissingPpcMasks int string "string list"
  | MissingStage string
  | DuplicateStage string "int list"
  | AmbiguousInitialReset "int list" "int list"
  | InitialResetWindowUnavailable
  | UnclassifiedResetEvents "int list"
  | StageOrder "string list"
  | UnexpectedReturn int string int int
  | PostValueNotBoolean int string int
  | PostValueMismatch int int
  | ForcedPostRequiresPmu "int option"
  | ProbeMissed string int
  | MissingMissedCounter string
  | DuplicateMissedCounter string nat

datatype stage_warning = ArmedLineNotPresent

text \<open>\<^verbatim>\<open>if cond: _error(errors, e)\<close>\<close>

definition report_if :: "bool \<Rightarrow> 'e \<Rightarrow> 'e list" where
  "report_if c e = (if c then [e] else [])"

lemma report_if_Nil [simp]: "report_if c e = [] \<longleftrightarrow> \<not> c"
  by (simp add: report_if_def)

subsection \<open>Boundaries and counters\<close>

definition boundary_errors :: "run \<Rightarrow> stage_error list" where
  "boundary_errors r =
     report_if (\<not> rn_complete r) MissingEnd @
     report_if (rn_begin_bdf r \<in> {None, Some []}) MissingBeginBdf @
     report_if (rn_complete r \<and> rn_begin_bdf r \<noteq> rn_end_bdf r) (BdfMismatch (rn_begin_bdf r) (rn_end_bdf r)) @
     (case rn_declared r of
        None \<Rightarrow> [MissingDeclaredCount]
      | Some n \<Rightarrow> report_if (n \<noteq> int (length (rn_stages r))) (RecordCountMismatch n (length (rn_stages r)))) @
     (case rn_dropped r of
        None \<Rightarrow> [MissingDroppedCount]
      | Some n \<Rightarrow> report_if (n \<noteq> 0) (RecordsDropped n)) @
     (case rn_pmu_present r of
        None \<Rightarrow> []
      | Some n \<Rightarrow> report_if (n \<notin> {-1, 0, 1}) (InvalidPmuPresent n)) @
     report_if (rn_unparsed r \<noteq> []) (UnparsedCaptureLines (length (rn_unparsed r))) @
     report_if (rn_orphans r \<noteq> []) (OrphanValues (length (rn_orphans r))) @
     (case rn_armed r of
        None \<Rightarrow> []
      | Some n \<Rightarrow> report_if (n \<noteq> EXPECTED_LIVE_GR_TYPE) (UnexpectedLiveGrType n))"

definition armed_warnings :: "run \<Rightarrow> stage_warning list" where
  "armed_warnings r = (if rn_armed r = None then [ArmedLineNotPresent] else [])"

definition sequence_errors :: "int list \<Rightarrow> stage_error list" where
  "sequence_errors seqs =
     report_if (length seqs \<noteq> length (remdups seqs))
       (DuplicateStageSeq (sort (remdups (filter (\<lambda>s. count_list seqs s > 1) seqs)))) @
     report_if (seqs \<noteq> map int [0..<length seqs]) (NoncontiguousStageSeq seqs)"

subsection \<open>One stage\<close>

definition invalid_flags :: "int \<Rightarrow> invalid_flag list" where
  "invalid_flags v =
     (if v AND 1 \<noteq> 0 then [AllOnesFlag] else []) @
     (if v AND 2 \<noteq> 0 then [BufferOverflowFlag] else []) @
     (if v AND 4 \<noteq> 0 then [BadGpcCountFlag] else []) @
     (if v AND NOT 7 \<noteq> 0 then [UnknownBits (v AND NOT 7)] else [])"

definition has_reg :: "value_map \<Rightarrow> int \<Rightarrow> bool" where
  "has_reg vm reg \<longleftrightarrow> map_of (fst vm) reg \<noteq> None"

definition reg_value :: "value_map \<Rightarrow> int \<Rightarrow> int" where
  "reg_value vm reg = the (map_of (fst vm) reg)"

definition is_logical_reg :: "int \<Rightarrow> bool" where
  "is_logical_reg reg \<longleftrightarrow>
     reg = LOGICAL_GPC_COUNT_REG \<or> reg = COMPUTE_PIPE_CONTROL_REG \<or>
     (PPC_TPC_MASK_BASE \<le> reg \<and> reg < PPC_TPC_MASK_BASE + int MAX_GPCS * GPC_STRIDE) \<or>
     (GPC_TPC_COUNT_BASE \<le> reg \<and> reg < GPC_TPC_COUNT_BASE + int MAX_GPCS * GPC_STRIDE)"

definition count_reg :: "nat \<Rightarrow> int" where
  "count_reg gpc = GPC_TPC_COUNT_BASE + GPC_STRIDE * int gpc"

definition ppc_reg :: "nat \<Rightarrow> nat \<Rightarrow> int" where
  "ppc_reg gpc ppc = PPC_TPC_MASK_BASE + GPC_STRIDE * int gpc + 4 * int ppc"

text \<open>The logical topology of a stage with a usable GPC count, and the errors found on the way.\<close>

definition logical_topology :: "stage \<Rightarrow> value_map \<Rightarrow> nat \<Rightarrow> stage_error list \<times> topology" where
  "logical_topology s vm gpc_count = (let
     missing_counts = map (py_hex 6) (filter (\<lambda>reg. \<not> has_reg vm reg) (map count_reg [0..<gpc_count]));
     tpc_counts = map (\<lambda>reg. reg_value vm reg AND 0xFF) (filter (has_reg vm) (map count_reg [0..<gpc_count]));
     missing_ppc = map (py_hex 6) (filter (\<lambda>reg. \<not> has_reg vm reg)
        (concat (map (\<lambda>gpc. map (ppc_reg gpc) [0..<PPCS_PER_GPC]) [0..<gpc_count])))
   in (report_if (missing_counts \<noteq> []) (MissingGpcTpcCounts (sg_seq s) (sg_name s) missing_counts) @
       report_if (missing_ppc \<noteq> []) (MissingPpcMasks (sg_seq s) (sg_name s) missing_ppc),
       \<lparr>lt_gpc_count = int gpc_count, lt_tpc_counts = tpc_counts,
        lt_tpc_sum = (if missing_counts \<noteq> [] then None else Some (sum_list tpc_counts)),
        lt_ppc_complete = (missing_ppc = [])\<rparr>))"

definition logical_errors :: "stage \<Rightarrow> value_map \<Rightarrow> stage_error list \<times> topology option" where
  "logical_errors s vm =
     (let sq = sg_seq s; nm = sg_name s;
          pmc = report_if (has_reg vm PMC_REG \<and> reg_value vm PMC_REG AND 0x1000 = 0) (PmcGrBitClear sq nm)
      in if \<not> has_reg vm LOGICAL_GPC_COUNT_REG then (pmc @ [MissingLogicalGpcCount sq nm], None)
         else let gpc_count = reg_value vm LOGICAL_GPC_COUNT_REG AND 0x1F in
           if \<not> (1 \<le> gpc_count \<and> gpc_count \<le> int MAX_GPCS)
           then (pmc @ [InvalidLogicalGpcCount sq nm gpc_count], None)
           else (case logical_topology s vm (nat gpc_count) of (errs, topo) \<Rightarrow>
             (pmc @ report_if (\<not> has_reg vm COMPUTE_PIPE_CONTROL_REG) (MissingComputePipeControl sq nm) @ errs,
              Some topo)))"

definition time_errors :: "int option \<Rightarrow> stage \<Rightarrow> stage_error list" where
  "time_errors prev s =
     report_if (sg_start_ns s > sg_end_ns s) (InvalidStageTime (sg_seq s) (sg_name s)) @
     report_if (case prev of None \<Rightarrow> False | Some p \<Rightarrow> sg_start_ns s < p)
       (NonmonotonicStageTime (sg_seq s) (sg_name s))"

definition stage_errors :: "int option \<Rightarrow> stage \<Rightarrow> value_map \<Rightarrow> stage_error list \<times> topology option" where
  "stage_errors prev s vm = (let
     sq = sg_seq s; nm = sg_name s; vals = fst vm; dups = snd vm;
     all_ones = map (\<lambda>(reg, v). py_hex 6 reg) (filter (\<lambda>(reg, v). v = 0xFFFFFFFF) vals);
     missing_physical = map (py_hex 6) (filter (\<lambda>reg. \<not> has_reg vm reg) PHYSICAL_REGS);
     logical_present = list_ex (\<lambda>(reg, v). is_logical_reg reg) vals;
     common =
       time_errors prev s @
       report_if (sg_invalid s \<noteq> 0) (CollectorInvalid sq nm (sg_invalid s) (invalid_flags (sg_invalid s))) @
       report_if (sg_rc s < 0) (NegativeReturn sq nm (sg_rc s)) @
       report_if (dups \<noteq> []) (DuplicateRegister sq nm (map (py_hex 6) (sort (remdups dups)))) @
       report_if (all_ones \<noteq> []) (AllOnesValue sq nm all_ones) @
       report_if (missing_physical \<noteq> []) (MissingPhysicalRegisters sq nm missing_physical) @
       report_if (nm \<notin> set LOGICAL_STAGES \<and> logical_present) (LogicalValuesAtUnsafeStage sq nm)
   in if nm \<in> set LOGICAL_STAGES
      then (case logical_errors s vm of (errs, topo) \<Rightarrow> (common @ errs, topo))
      else (common, None))"

text \<open>The loop over the stages, with the start time of the previous one.\<close>

fun stages_errors :: "int option \<Rightarrow> (stage \<times> value_map) list \<Rightarrow> stage_error list \<times> stage list" where
  "stages_errors prev [] = ([], [])"
| "stages_errors prev ((s, vm) # rest) =
     (case stage_errors prev s vm of (errs, topo) \<Rightarrow>
      case stages_errors (Some (sg_start_ns s)) rest of (errs', ss) \<Rightarrow>
        (errs @ errs', s\<lparr>sg_topology := topo\<rparr> # ss))"

subsection \<open>The core stages and the reset events\<close>

definition stages_named :: "stage list \<Rightarrow> string \<Rightarrow> stage list" where
  "stages_named stages nm = get_list (group_by sg_name stages) nm"

definition unique_stage :: "stage list \<Rightarrow> string \<Rightarrow> stage option" where
  "unique_stage stages nm = (case stages_named stages nm of [s] \<Rightarrow> Some s | _ \<Rightarrow> None)"

definition presence_errors :: "stage list \<Rightarrow> stage_error list" where
  "presence_errors stages = concat (map (\<lambda>nm.
     case stages_named stages nm of
       [] \<Rightarrow> [MissingStage nm]
     | [s] \<Rightarrow> []
     | ss \<Rightarrow> [DuplicateStage nm (map sg_seq ss)]) NONRESET_SEQUENCE)"

definition nonreset_core :: "stage list \<Rightarrow> (string \<times> int) list" where
  "nonreset_core stages = concat (map (\<lambda>nm.
     case unique_stage stages nm of None \<Rightarrow> [] | Some s \<Rightarrow> [(nm, sg_seq s)]) NONRESET_SEQUENCE)"

text \<open>The reset pair between \<^verbatim>\<open>post_return\<close> and \<^verbatim>\<open>oneinit_entry\<close>.\<close>

definition initial_reset :: "stage list \<Rightarrow> stage_error list \<times> (int \<times> int) option" where
  "initial_reset stages =
     (case (unique_stage stages ''post_return'', unique_stage stages ''oneinit_entry'') of
        (Some lo, Some hi) \<Rightarrow>
          (let inside = (\<lambda>s. sg_seq lo < sg_seq s \<and> sg_seq s < sg_seq hi);
               masks = filter inside (stages_named stages ''gr_reset_mask_return'');
               resets = filter inside (stages_named stages ''gr_reset_return'')
           in (case (masks, resets) of
                 ([m], [r]) \<Rightarrow>
                   if sg_seq m + 1 = sg_seq r then ([], Some (sg_seq m, sg_seq r))
                   else ([AmbiguousInitialReset (map sg_seq masks) (map sg_seq resets)], None)
               | _ \<Rightarrow> ([AmbiguousInitialReset (map sg_seq masks) (map sg_seq resets)], None)))
      | _ \<Rightarrow> ([InitialResetWindowUnavailable], None))"

text \<open>The \<^verbatim>\<open>while cursor < len(trailing)\<close> loop: two events at a time, as a pair or unclassified.\<close>

definition is_reset_pair :: "stage \<Rightarrow> stage \<Rightarrow> bool" where
  "is_reset_pair a b \<longleftrightarrow> sg_name a = ''gr_reset_mask_return'' \<and> sg_name b = ''gr_reset_return'' \<and>
     sg_seq a + 1 = sg_seq b"

fun classify_pairs :: "stage list \<Rightarrow> (int \<times> int) list \<times> int list" where
  "classify_pairs [] = ([], [])"
| "classify_pairs [a] = ([], [sg_seq a])"
| "classify_pairs (a # b # rest) =
     (case classify_pairs rest of (ps, us) \<Rightarrow>
        if is_reset_pair a b then ((sg_seq a, sg_seq b) # ps, us)
        else (ps, sg_seq a # sg_seq b # us))"

definition reset_events :: "stage list \<Rightarrow> stage list" where
  "reset_events stages =
     stages_named stages ''gr_reset_mask_return'' @ stages_named stages ''gr_reset_return''"

definition trailing_events :: "stage list \<Rightarrow> stage list" where
  "trailing_events stages =
     (case unique_stage stages ''ctxctl_return'' of
        None \<Rightarrow> []
      | Some c \<Rightarrow> sort_key sg_seq (filter (\<lambda>s. sg_seq s > sg_seq c) (reset_events stages)))"

record reset_class =
  rc_initial :: "(int \<times> int) option"
  rc_pairs :: "(int \<times> int) list"
  rc_unclassified :: "int list"

definition pair_seqs :: "(int \<times> int) list \<Rightarrow> int list" where
  "pair_seqs ps = concat (map (\<lambda>(a, b). [a, b]) ps)"

definition classify_resets :: "stage list \<Rightarrow> reset_class" where
  "classify_resets stages = (let
     initial = snd (initial_reset stages);
     (pairs, uncl) = classify_pairs (trailing_events stages);
     classified = (case initial of None \<Rightarrow> [] | Some (m, r) \<Rightarrow> [m, r]) @ pair_seqs pairs;
     all_seqs = map sg_seq (reset_events stages)
   in \<lparr>rc_initial = initial, rc_pairs = pairs,
       rc_unclassified = sort (remdups (uncl @ filter (\<lambda>q. q \<notin> set classified) all_seqs))\<rparr>)"

definition core_sequence :: "stage list \<Rightarrow> (string \<times> int) list" where
  "core_sequence stages = nonreset_core stages @
     (case snd (initial_reset stages) of None \<Rightarrow> []
      | Some (m, r) \<Rightarrow> [(''gr_reset_mask_return'', m), (''gr_reset_return'', r)])"

definition order_errors :: "stage list \<Rightarrow> stage_error list" where
  "order_errors stages = (let core = core_sequence stages; observed = map fst (sort_key snd core) in
     report_if (length core = length CORE_SEQUENCE \<and> observed \<noteq> CORE_SEQUENCE) (StageOrder observed))"

definition return_error :: "int \<Rightarrow> stage \<Rightarrow> stage_error list" where
  "return_error wanted s = report_if (sg_rc s \<noteq> wanted) (UnexpectedReturn (sg_seq s) (sg_name s) wanted (sg_rc s))"

definition core_return_errors :: "stage list \<Rightarrow> stage_error list" where
  "core_return_errors stages = concat (map (\<lambda>nm.
     case unique_stage stages nm of None \<Rightarrow> [] | Some s \<Rightarrow> return_error 0 s) NONRESET_SEQUENCE)"

definition post_errors :: "run \<Rightarrow> stage_error list" where
  "post_errors r =
     (case (unique_stage (rn_stages r) ''post_entry'', unique_stage (rn_stages r) ''post_return'') of
        (Some e, Some x) \<Rightarrow>
          concat (map (\<lambda>s. report_if (sg_post s \<notin> {0, 1}) (PostValueNotBoolean (sg_seq s) (sg_name s) (sg_post s))) [e, x]) @
          report_if (sg_post e \<noteq> sg_post x) (PostValueMismatch (sg_post e) (sg_post x)) @
          report_if ((sg_post e = 1 \<or> sg_post x = 1) \<and> rn_pmu_present r \<noteq> Some 1)
            (ForcedPostRequiresPmu (rn_pmu_present r))
      | _ \<Rightarrow> [])"

definition reset_return_errors :: "stage list \<Rightarrow> stage_error list" where
  "reset_return_errors stages =
     concat (map (return_error 0x1000) (stages_named stages ''gr_reset_mask_return'')) @
     concat (map (return_error 0) (stages_named stages ''gr_reset_return''))"

definition missed_errors :: "missed_rec list \<Rightarrow> stage_error list" where
  "missed_errors ms =
     concat (map (\<lambda>x. report_if (ms_nmissed x \<noteq> 0) (ProbeMissed (ms_symbol x) (ms_nmissed x))) ms) @
     concat (map (\<lambda>sy. case get_list (group_by ms_symbol ms) sy of
         [] \<Rightarrow> [MissingMissedCounter sy]
       | [x] \<Rightarrow> []
       | xs \<Rightarrow> [DuplicateMissedCounter sy (length xs)]) (sort MISSED_SYMBOLS))"

subsection \<open>Mask observations\<close>

record observation =
  ob_seq :: int
  ob_stage :: string
  ob_raw :: "string option list"
  ob_ctrl :: "string option list"
  ob_status :: "string option list"

record transition =
  tn_from_seq :: int
  tn_from_stage :: string
  tn_to_seq :: int
  tn_to_stage :: string
  tn_raw :: "nat list"
  tn_ctrl :: "nat list"
  tn_status :: "nat list"
  tn_changed :: bool

record mask_comparison =
  mc_observations :: "observation list"
  mc_transitions :: "transition list"
  mc_any_change :: bool

definition family :: "value_map \<Rightarrow> int list \<Rightarrow> string option list" where
  "family vm regs = map (\<lambda>reg. map_option (py_hex 8) (map_of (fst vm) reg)) regs"

definition observe :: "stage \<times> value_map \<Rightarrow> observation" where
  "observe x = (case x of (s, vm) \<Rightarrow>
     \<lparr>ob_seq = sg_seq s, ob_stage = sg_name s, ob_raw = family vm RAW_REGS,
      ob_ctrl = family vm CTRL_REGS, ob_status = family vm STATUS_REGS\<rparr>)"

definition changed_slots :: "string option list \<Rightarrow> string option list \<Rightarrow> nat list" where
  "changed_slots olds news =
     map fst (filter (\<lambda>(i, (a, b)). a \<noteq> None \<and> b \<noteq> None \<and> a \<noteq> b) (enumerate_from 0 (zip olds news)))"

definition transition_between :: "observation \<Rightarrow> observation \<Rightarrow> transition" where
  "transition_between a b = (let
     raw = changed_slots (ob_raw a) (ob_raw b);
     ctrl = changed_slots (ob_ctrl a) (ob_ctrl b);
     status = changed_slots (ob_status a) (ob_status b)
   in \<lparr>tn_from_seq = ob_seq a, tn_from_stage = ob_stage a, tn_to_seq = ob_seq b, tn_to_stage = ob_stage b,
       tn_raw = raw, tn_ctrl = ctrl, tn_status = status,
       tn_changed = (raw \<noteq> [] \<or> ctrl \<noteq> [] \<or> status \<noteq> [])\<rparr>)"

definition mask_observations :: "(stage \<times> value_map) list \<Rightarrow> mask_comparison" where
  "mask_observations svms = (let
     obs = map observe (sort_key (sg_seq \<circ> fst) svms);
     trans = map (\<lambda>(a, b). transition_between a b) (zip obs (tl obs))
   in \<lparr>mc_observations = obs, mc_transitions = trans, mc_any_change = list_ex tn_changed trans\<rparr>)"

subsection \<open>The whole validation\<close>

record validated_run = run +
  vn_reset :: reset_class
  vn_mask :: mask_comparison
  vn_valid :: bool
  vn_errors :: "stage_error list"
  vn_warnings :: "stage_warning list"

definition run_errors :: "run \<Rightarrow> (stage \<times> value_map) list \<Rightarrow> stage_error list" where
  "run_errors r svms = (let stages = rn_stages r in
     boundary_errors r @
     sequence_errors (map sg_seq stages) @
     fst (stages_errors None svms) @
     presence_errors stages @
     fst (initial_reset stages) @
     (let u = rc_unclassified (classify_resets stages) in report_if (u \<noteq> []) (UnclassifiedResetEvents u)) @
     order_errors stages @
     core_return_errors stages @
     post_errors r @
     reset_return_errors stages @
     missed_errors (rn_missed r))"

definition validate_run :: "run \<Rightarrow> validated_run option" where
  "validate_run r =
     (case those (map value_map_of (rn_stages r)) of
        None \<Rightarrow> None
      | Some vms \<Rightarrow> (let svms = zip (rn_stages r) vms; errs = run_errors r svms in
          Some (run.extend (r\<lparr>rn_stages := snd (stages_errors None svms)\<rparr>)
            \<lparr>vn_reset = classify_resets (rn_stages r), vn_mask = mask_observations svms,
             vn_valid = (errs = []), vn_errors = errs, vn_warnings = armed_warnings r\<rparr>)))"

end
