(* ===== verification/StageProps.thy ===== *)
theory StageProps
  imports StageValidate
begin

text \<open>
  What a valid lifecycle capture guarantees: \<^verbatim>\<open>_validate_run\<close> accepts a run only when its
  boundaries, counters, stages, registers, reset events and return codes are what the collector
  promises. Each property reads one group of the checks back from an empty error list.
\<close>

subsection \<open>Reading the error list\<close>

lemma validate_run_Some:
  assumes "validate_run r = Some v"
  obtains vms where "those (map value_map_of (rn_stages r)) = Some vms"
    and "vn_errors v = run_errors r (zip (rn_stages r) vms)"
    and "vn_valid v \<longleftrightarrow> run_errors r (zip (rn_stages r) vms) = []"
    and "rn_stages v = snd (stages_errors None (zip (rn_stages r) vms))"
    and "vn_reset v = classify_resets (rn_stages r)"
    and "vn_mask v = mask_observations (zip (rn_stages r) vms)"
  using assms that by (auto simp: validate_run_def Let_def run.defs split: option.splits)

lemma those_map_Some:
  "those (map f xs) = Some ys \<longleftrightarrow> list_all2 (\<lambda>x y. f x = Some y) xs ys"
  by (induction xs arbitrary: ys) (auto simp: list_all2_Cons1 split: option.splits)

lemma stages_with_maps:
  assumes "those (map value_map_of ss) = Some vms" and "s \<in> set ss"
  shows "\<exists>vm. value_map_of s = Some vm \<and> (s, vm) \<in> set (zip ss vms)"
proof -
  have l2: "list_all2 (\<lambda>s vm. value_map_of s = Some vm) ss vms"
    using assms(1) by (simp add: those_map_Some)
  obtain i where i: "i < length ss" "s = ss ! i" using assms(2) by (auto simp: in_set_conv_nth)
  then have "value_map_of s = Some (vms ! i)" using l2 by (auto dest: list_all2_nthD)
  moreover have "(s, vms ! i) \<in> set (zip ss vms)"
    using i list_all2_lengthD [OF l2] by (auto simp: set_zip)
  ultimately show ?thesis by blast
qed

lemma stages_named_filter [code]: "stages_named ss nm = filter (\<lambda>s. sg_name s = nm) ss"
  by (simp add: stages_named_def dict_simps)

lemma unique_stage_Some:
  "unique_stage ss nm = Some s \<longleftrightarrow> filter (\<lambda>s. sg_name s = nm) ss = [s]"
  by (auto simp: unique_stage_def stages_named_filter split: list.splits)

lemma unique_stage_mem: "unique_stage ss nm = Some s \<Longrightarrow> s \<in> set ss \<and> sg_name s = nm"
proof -
  assume "unique_stage ss nm = Some s"
  then have "s \<in> set (filter (\<lambda>s. sg_name s = nm) ss)" by (simp add: unique_stage_Some)
  then show ?thesis by simp
qed

lemma presence_errors_Nil:
  "presence_errors ss = [] \<longleftrightarrow> (\<forall>nm \<in> set NONRESET_SEQUENCE. unique_stage ss nm \<noteq> None)"
  by (auto simp: presence_errors_def unique_stage_def split: list.splits)

text \<open>The checks of a run, one group per line.\<close>

lemma run_errors_Nil:
  "run_errors r svms = [] \<longleftrightarrow>
     boundary_errors r = [] \<and> sequence_errors (map sg_seq (rn_stages r)) = [] \<and>
     fst (stages_errors None svms) = [] \<and> presence_errors (rn_stages r) = [] \<and>
     fst (initial_reset (rn_stages r)) = [] \<and> rc_unclassified (classify_resets (rn_stages r)) = [] \<and>
     order_errors (rn_stages r) = [] \<and> core_return_errors (rn_stages r) = [] \<and> post_errors r = [] \<and>
     reset_return_errors (rn_stages r) = [] \<and> missed_errors (rn_missed r) = []"
  by (simp add: run_errors_def Let_def)

lemma boundary_errors_Nil:
  "boundary_errors r = [] \<longleftrightarrow>
     rn_complete r \<and> rn_begin_bdf r \<notin> {None, Some []} \<and> rn_end_bdf r = rn_begin_bdf r \<and>
     rn_declared r = Some (int (length (rn_stages r))) \<and> rn_dropped r = Some 0 \<and>
     rn_pmu_present r \<in> {None, Some (-1), Some 0, Some 1} \<and> rn_unparsed r = [] \<and> rn_orphans r = [] \<and>
     rn_armed r \<in> {None, Some 34}"
  by (auto simp: boundary_errors_def EXPECTED_LIVE_GR_TYPE_def split: option.splits)

lemma sequence_errors_Nil: "sequence_errors qs = [] \<longleftrightarrow> qs = map int [0..<length qs]"
proof -
  have "qs = map int [0..<length qs] \<Longrightarrow> distinct qs"
    by (metis distinct_map distinct_upt inj_on_of_nat)
  then have "qs = map int [0..<length qs] \<Longrightarrow> length qs = length (remdups qs)"
    by (metis distinct_remdups_id)
  then show ?thesis by (simp add: sequence_errors_def) blast
qed

lemma stage_at_seq:
  assumes "sequence_errors (map sg_seq ss) = []" and "s \<in> set ss"
  shows "0 \<le> sg_seq s \<and> nat (sg_seq s) < length ss \<and> ss ! nat (sg_seq s) = s"
proof -
  obtain i where i: "i < length ss" "s = ss ! i" using assms(2) by (auto simp: in_set_conv_nth)
  have "map sg_seq ss ! i = map int [0..<length (map sg_seq ss)] ! i"
    using assms(1) by (simp add: sequence_errors_Nil)
  with i have "sg_seq s = int i" by simp
  with i show ?thesis by simp
qed

subsection \<open>The core sequence\<close>

lemma initial_reset_Nil:
  assumes "fst (initial_reset ss) = []"
  obtains lo hi m rr where "unique_stage ss ''post_return'' = Some lo"
    "unique_stage ss ''oneinit_entry'' = Some hi"
    "m \<in> set ss" "sg_name m = ''gr_reset_mask_return''" "sg_seq lo < sg_seq m"
    "rr \<in> set ss" "sg_name rr = ''gr_reset_return''" "sg_seq rr < sg_seq hi"
    "sg_seq rr = sg_seq m + 1" "snd (initial_reset ss) = Some (sg_seq m, sg_seq rr)"
proof -
  from assms obtain lo hi where u: "unique_stage ss ''post_return'' = Some lo"
      "unique_stage ss ''oneinit_entry'' = Some hi"
    by (auto simp: initial_reset_def split: option.splits)
  let ?in = "\<lambda>s. sg_seq lo < sg_seq s \<and> sg_seq s < sg_seq hi"
  let ?ms = "filter ?in (stages_named ss ''gr_reset_mask_return'')"
  let ?rs = "filter ?in (stages_named ss ''gr_reset_return'')"
  from assms u obtain m rr where mr: "?ms = [m]" "?rs = [rr]" "sg_seq m + 1 = sg_seq rr"
    by (auto simp: initial_reset_def Let_def split: list.splits if_splits)
  have "m \<in> set ?ms" "rr \<in> set ?rs" by (simp_all only: mr list.set_intros)
  then have "m \<in> set ss \<and> sg_name m = ''gr_reset_mask_return'' \<and> ?in m"
    "rr \<in> set ss \<and> sg_name rr = ''gr_reset_return'' \<and> ?in rr"
    by (auto simp: stages_named_filter)
  moreover have "snd (initial_reset ss) = Some (sg_seq m, sg_seq rr)"
    using u mr by (simp add: initial_reset_def Let_def)
  ultimately show ?thesis using that u mr(3) by auto
qed

lemma initial_reset_pair:
  assumes "fst (initial_reset ss) = []"
  shows "\<exists>m rr. m \<in> set ss \<and> sg_name m = ''gr_reset_mask_return'' \<and> rr \<in> set ss \<and>
     sg_name rr = ''gr_reset_return'' \<and> sg_seq rr = sg_seq m + 1 \<and>
     snd (initial_reset ss) = Some (sg_seq m, sg_seq rr)"
  by (rule initial_reset_Nil [OF assms]) blast

lemma core_member:
  assumes "(nm, q) \<in> set (core_sequence ss)" and "fst (initial_reset ss) = []"
  shows "\<exists>s \<in> set ss. sg_name s = nm \<and> sg_seq s = q"
proof -
  obtain m rr :: stage where mr: "m \<in> set ss" "sg_name m = ''gr_reset_mask_return''" "rr \<in> set ss"
    "sg_name rr = ''gr_reset_return''" "snd (initial_reset ss) = Some (sg_seq m, sg_seq rr)"
    using initial_reset_pair [OF assms(2)] by blast
  from assms(1) mr(5) consider "(nm, q) \<in> set (nonreset_core ss)"
    | "(nm, q) = (sg_name m, sg_seq m)" | "(nm, q) = (sg_name rr, sg_seq rr)"
    by (auto simp: core_sequence_def mr(2,4))
  then show ?thesis
  proof cases
    case 1
    then show ?thesis
      by (auto simp: nonreset_core_def dest: unique_stage_mem [OF sym] split: option.splits)
  qed (use mr in auto)
qed

lemma core_length:
  assumes "presence_errors ss = []" and "fst (initial_reset ss) = []"
  shows "length (core_sequence ss) = 9"
proof -
  obtain m rr :: stage where "snd (initial_reset ss) = Some (sg_seq m, sg_seq rr)"
    using initial_reset_pair [OF assms(2)] by blast
  moreover have "length (nonreset_core ss) = length NONRESET_SEQUENCE"
  proof -
    have "\<forall>nm \<in> set nms. unique_stage ss nm \<noteq> None \<Longrightarrow>
      length (concat (map (\<lambda>nm. case unique_stage ss nm of None \<Rightarrow> [] | Some s \<Rightarrow> [(nm, sg_seq s)]) nms))
        = length nms" for nms
      by (induction nms) auto
    then show ?thesis using assms(1) by (simp add: nonreset_core_def presence_errors_Nil)
  qed
  moreover have "length NONRESET_SEQUENCE = 7" by code_simp
  ultimately show ?thesis by (simp add: core_sequence_def)
qed

lemma valid_core:
  assumes "validate_run r = Some v" and "vn_valid v"
  shows "sequence_errors (map sg_seq (rn_stages r)) = []" "presence_errors (rn_stages r) = []"
    "fst (initial_reset (rn_stages r)) = []" "order_errors (rn_stages r) = []"
    "rc_unclassified (classify_resets (rn_stages r)) = []" "boundary_errors r = []"
    "core_return_errors (rn_stages r) = []" "post_errors r = []" "reset_return_errors (rn_stages r) = []"
    "missed_errors (rn_missed r) = []"
  using assms by (auto elim!: validate_run_Some simp: run_errors_Nil)

text \<open>C1: In a valid run the nine core stages occur in the order of \<^verbatim>\<open>CORE_SEQUENCE\<close>: there are
  strictly increasing positions that carry their names, the two initial reset stages are adjacent,
  and each of the seven other core stages occurs exactly once.\<close>

theorem valid_run_core_sequence:
  assumes "validate_run r = Some v" and "vn_valid v"
  shows "\<exists>pos. length pos = 9 \<and> sorted_wrt (<) pos \<and>
    (\<forall>k < 9. pos ! k < length (rn_stages r) \<and> sg_name (rn_stages r ! (pos ! k)) = CORE_SEQUENCE ! k) \<and>
    pos ! 4 = pos ! 3 + 1 \<and>
    (\<forall>nm \<in> set NONRESET_SEQUENCE. length (filter (\<lambda>s. sg_name s = nm) (rn_stages r)) = 1)"
proof -
  let ?ss = "rn_stages r"
  note ok = valid_core [OF assms]
  define c where "c = sort_key snd (core_sequence ?ss)"
  define pos where "pos = map (nat \<circ> snd) c"
  have len: "length c = 9" using core_length ok by (simp add: c_def)
  have names: "map fst c = CORE_SEQUENCE"
    using ok(4) core_length ok(2,3) by (simp add: order_errors_def c_def Let_def CORE_SEQUENCE_def)
  have dist: "distinct CORE_SEQUENCE" by code_simp
  have at: "0 \<le> snd x \<and> nat (snd x) < length ?ss \<and> sg_name (?ss ! nat (snd x)) = fst x"
    if "x \<in> set c" for x
  proof -
    have "(fst x, snd x) \<in> set (core_sequence ?ss)" using that by (simp add: c_def)
    then obtain s where "s \<in> set ?ss" "sg_name s = fst x" "sg_seq s = snd x"
      using core_member ok(3) by blast
    with stage_at_seq [OF ok(1), of s] show ?thesis by simp
  qed
  have nth: "pos ! k < length ?ss \<and> sg_name (?ss ! (pos ! k)) = CORE_SEQUENCE ! k" if "k < 9" for k
  proof -
    have "CORE_SEQUENCE ! k = fst (c ! k)" using len that names by (metis nth_map)
    with at [of "c ! k"] len that show ?thesis by (simp add: pos_def)
  qed
  have le: "pos ! i \<le> pos ! j" if "i < j" "j < 9" for i j
  proof -
    have "sorted (map snd c)" by (simp add: c_def)
    then have "snd (c ! i) \<le> snd (c ! j)" using that len by (simp add: sorted_iff_nth_mono_less)
    then show ?thesis using that len by (simp add: pos_def nat_mono)
  qed
  have lt: "pos ! i < pos ! j" if "i < j" "j < 9" for i j
  proof -
    have "length CORE_SEQUENCE = 9" using names len by (metis length_map)
    then have "CORE_SEQUENCE ! i \<noteq> CORE_SEQUENCE ! j" using dist that by (simp add: nth_eq_iff_index_eq)
    then have "pos ! i \<noteq> pos ! j" using nth [of i] nth [of j] that by auto
    with le [OF that] show ?thesis by simp
  qed
  have sorted: "sorted_wrt (<) pos"
    unfolding sorted_wrt_iff_nth_less using lt len by (simp add: pos_def)
  have adj: "pos ! 4 = pos ! 3 + 1"
  proof -
    obtain m rr :: stage where mr: "sg_seq rr = sg_seq m + 1" "m \<in> set ?ss"
        "snd (initial_reset ?ss) = Some (sg_seq m, sg_seq rr)"
      using initial_reset_pair [OF ok(3)] by blast
    have inc: "(CORE_SEQUENCE ! 3, sg_seq m) \<in> set c" "(CORE_SEQUENCE ! 4, sg_seq rr) \<in> set c"
      using mr by (simp_all add: c_def core_sequence_def CORE_SEQUENCE_def)
    have "distinct (map fst c)" using names dist by simp
    then have key: "snd (c ! k) = q" if "(CORE_SEQUENCE ! k, q) \<in> set c" "k < 9" for k q
    proof -
      have "fst (c ! k) = CORE_SEQUENCE ! k" using names len that(2) by (metis nth_map)
      moreover have "c ! k \<in> set c" using len that(2) by simp
      ultimately have "(CORE_SEQUENCE ! k, snd (c ! k)) \<in> set c" by (metis prod.collapse)
      with that(1) \<open>distinct (map fst c)\<close> show ?thesis by (metis eq_key_imp_eq_value)
    qed
    have "snd (c ! 3) = sg_seq m" "snd (c ! 4) = sg_seq rr" using key inc by auto
    with mr stage_at_seq [OF ok(1) mr(2)] len show ?thesis by (simp add: pos_def nat_add_distrib)
  qed
  have "length (filter (\<lambda>s. sg_name s = nm) ?ss) = 1" if "nm \<in> set NONRESET_SEQUENCE" for nm
    using ok(2) that by (auto simp: presence_errors_Nil unique_stage_Some)
  with len sorted nth adj show ?thesis
    by (intro exI [of _ pos]) (simp add: pos_def)
qed

subsection \<open>The registers of a valid run\<close>

lemma stages_errors_Cons:
  "stages_errors prev ((s, vm) # rest) =
     (fst (stage_errors prev s vm) @ fst (stages_errors (Some (sg_start_ns s)) rest),
      s\<lparr>sg_topology := snd (stage_errors prev s vm)\<rparr> # snd (stages_errors (Some (sg_start_ns s)) rest))"
  by (simp split: prod.splits)

lemma stages_errors_out:
  assumes "fst (stages_errors prev svms) = []" and "(s, vm) \<in> set svms"
  shows "\<exists>p. fst (stage_errors p s vm) = [] \<and>
    s\<lparr>sg_topology := snd (stage_errors p s vm)\<rparr> \<in> set (snd (stages_errors prev svms))"
  using assms
proof (induction prev svms rule: stages_errors.induct)
  case (1 prev)
  then show ?case by simp
next
  case (2 prev s' vm' rest)
  note eq = stages_errors_Cons [of prev s' vm' rest]
  have nil: "fst (stage_errors prev s' vm') = []" "fst (stages_errors (Some (sg_start_ns s')) rest) = []"
    using "2.prems"(1) by (simp_all only: eq fst_conv append_is_Nil_conv)
  show ?case
  proof (cases "(s, vm) = (s', vm')")
    case True
    with nil(1) show ?thesis unfolding eq by (intro exI [of _ prev]) simp
  next
    case False
    with "2.prems" have "(s, vm) \<in> set rest" by auto
    with "2.IH" [of "fst (stage_errors prev s' vm')" "snd (stage_errors prev s' vm')"] nil(2) show ?thesis
      unfolding eq by auto
  qed
qed

text \<open>The checks of one stage that do not look at the logical registers.\<close>

definition stage_sound :: "stage \<Rightarrow> value_map \<Rightarrow> bool" where
  "stage_sound s vm \<longleftrightarrow> sg_start_ns s \<le> sg_end_ns s \<and> sg_invalid s = 0 \<and> 0 \<le> sg_rc s \<and> snd vm = [] \<and>
     (\<forall>(reg, v) \<in> set (fst vm). v \<noteq> 0xFFFFFFFF) \<and> (\<forall>reg \<in> set PHYSICAL_REGS. has_reg vm reg)"

text \<open>The logical registers of a stage that may carry them.\<close>

definition gpc_total :: "value_map \<Rightarrow> nat" where
  "gpc_total vm = nat (reg_value vm LOGICAL_GPC_COUNT_REG AND 0x1F)"

definition logical_complete :: "value_map \<Rightarrow> bool" where
  "logical_complete vm \<longleftrightarrow> has_reg vm LOGICAL_GPC_COUNT_REG \<and> has_reg vm COMPUTE_PIPE_CONTROL_REG \<and>
     reg_value vm PMC_REG AND 0x1000 \<noteq> 0 \<and> 1 \<le> gpc_total vm \<and> gpc_total vm \<le> MAX_GPCS \<and>
     (\<forall>gpc < gpc_total vm. has_reg vm (count_reg gpc) \<and>
        (\<forall>ppc < PPCS_PER_GPC. has_reg vm (ppc_reg gpc ppc)))"

definition tpc_counts_of :: "value_map \<Rightarrow> int list" where
  "tpc_counts_of vm = map (\<lambda>gpc. reg_value vm (count_reg gpc) AND 0xFF) [0..<gpc_total vm]"

lemma stage_errors_Nil:
  "fst (stage_errors p s vm) = [] \<longleftrightarrow>
     time_errors p s = [] \<and> stage_sound s vm \<and>
     (if sg_name s \<in> set LOGICAL_STAGES then fst (logical_errors s vm) = []
      else \<not> list_ex (\<lambda>(reg, v). is_logical_reg reg) (fst vm))"
  by (cases vm) (auto simp: stage_errors_def stage_sound_def Let_def time_errors_def filter_empty_conv
      split: prod.splits if_splits)

lemma logical_topology_Nil:
  assumes "fst (logical_topology s vm n) = []"
  shows "\<forall>gpc < n. has_reg vm (count_reg gpc) \<and> (\<forall>ppc < PPCS_PER_GPC. has_reg vm (ppc_reg gpc ppc))"
    and "snd (logical_topology s vm n) = \<lparr>lt_gpc_count = int n,
      lt_tpc_counts = map (\<lambda>gpc. reg_value vm (count_reg gpc) AND 0xFF) [0..<n],
      lt_tpc_sum = Some (sum_list (map (\<lambda>gpc. reg_value vm (count_reg gpc) AND 0xFF) [0..<n])),
      lt_ppc_complete = True\<rparr>"
proof -
  have counts: "\<forall>gpc < n. has_reg vm (count_reg gpc)"
    and ppcs: "\<forall>gpc < n. \<forall>ppc < PPCS_PER_GPC. has_reg vm (ppc_reg gpc ppc)"
    using assms by (auto simp: logical_topology_def Let_def filter_empty_conv)
  then show "\<forall>gpc < n. has_reg vm (count_reg gpc) \<and> (\<forall>ppc < PPCS_PER_GPC. has_reg vm (ppc_reg gpc ppc))"
    by blast
  have "filter (has_reg vm) (map count_reg [0..<n]) = map count_reg [0..<n]"
    using counts by (auto simp: filter_id_conv)
  moreover have "filter (\<lambda>reg. \<not> has_reg vm reg) (map count_reg [0..<n]) = []"
    using counts by (auto simp: filter_empty_conv)
  moreover have "filter (\<lambda>reg. \<not> has_reg vm reg)
      (concat (map (\<lambda>gpc. map (ppc_reg gpc) [0..<PPCS_PER_GPC]) [0..<n])) = []"
    using ppcs by (auto simp: filter_empty_conv)
  ultimately show "snd (logical_topology s vm n) = \<lparr>lt_gpc_count = int n,
      lt_tpc_counts = map (\<lambda>gpc. reg_value vm (count_reg gpc) AND 0xFF) [0..<n],
      lt_tpc_sum = Some (sum_list (map (\<lambda>gpc. reg_value vm (count_reg gpc) AND 0xFF) [0..<n])),
      lt_ppc_complete = True\<rparr>"
    by (simp add: logical_topology_def Let_def comp_def)
qed

lemma logical_errors_Nil:
  assumes "fst (logical_errors s vm) = []" and "has_reg vm PMC_REG"
  shows "logical_complete vm" and "snd (logical_errors s vm) = Some \<lparr>lt_gpc_count = int (gpc_total vm),
    lt_tpc_counts = tpc_counts_of vm, lt_tpc_sum = Some (sum_list (tpc_counts_of vm)),
    lt_ppc_complete = True\<rparr>"
proof -
  let ?g = "reg_value vm LOGICAL_GPC_COUNT_REG AND 0x1F"
  from assms have has: "has_reg vm LOGICAL_GPC_COUNT_REG"
    and rng: "1 \<le> ?g \<and> ?g \<le> int MAX_GPCS"
    by (auto simp: logical_errors_def Let_def split: if_splits)
  then have eq: "logical_errors s vm =
      (report_if (reg_value vm PMC_REG AND 0x1000 = 0) (PmcGrBitClear (sg_seq s) (sg_name s)) @
       report_if (\<not> has_reg vm COMPUTE_PIPE_CONTROL_REG) (MissingComputePipeControl (sg_seq s) (sg_name s)) @
       fst (logical_topology s vm (gpc_total vm)), Some (snd (logical_topology s vm (gpc_total vm))))"
    using assms(2) by (simp add: logical_errors_def Let_def gpc_total_def split: prod.splits)
  with assms(1) have nil: "fst (logical_topology s vm (gpc_total vm)) = []"
    and rest: "reg_value vm PMC_REG AND 0x1000 \<noteq> 0" "has_reg vm COMPUTE_PIPE_CONTROL_REG"
    by simp_all
  have "1 \<le> gpc_total vm \<and> gpc_total vm \<le> MAX_GPCS" using rng by (simp add: gpc_total_def) linarith
  with has rest logical_topology_Nil(1) [OF nil] show "logical_complete vm"
    by (simp add: logical_complete_def)
  show "snd (logical_errors s vm) = Some \<lparr>lt_gpc_count = int (gpc_total vm),
    lt_tpc_counts = tpc_counts_of vm, lt_tpc_sum = Some (sum_list (tpc_counts_of vm)),
    lt_ppc_complete = True\<rparr>"
    by (simp add: eq logical_topology_Nil(2) [OF nil] tpc_counts_of_def)
qed

lemma PMC_physical: "PMC_REG \<in> set PHYSICAL_REGS"
  by (simp add: PHYSICAL_REGS_def)

text \<open>One stage of a valid run, with the register map the validation read.\<close>

lemma valid_stage:
  assumes "validate_run r = Some v" and "vn_valid v" and "s \<in> set (rn_stages r)"
  shows "\<exists>vm p. value_map_of s = Some vm \<and> fst (stage_errors p s vm) = [] \<and>
    s\<lparr>sg_topology := snd (stage_errors p s vm)\<rparr> \<in> set (rn_stages v)"
proof -
  obtain vms where m: "those (map value_map_of (rn_stages r)) = Some vms"
      "fst (stages_errors None (zip (rn_stages r) vms)) = []"
      "rn_stages v = snd (stages_errors None (zip (rn_stages r) vms))"
    using assms by (auto elim!: validate_run_Some simp: run_errors_Nil)
  with stages_with_maps [OF m(1) assms(3)] stages_errors_out [OF m(2)] show ?thesis by auto
qed

text \<open>C12: In a valid run every stage is loss free: its times are ordered, the collector raised no
  flag, no register is repeated or reads all ones, and all 21 physical registers are present. A
  stage where graphics may be unpowered carries no logical register at all.\<close>

theorem valid_run_registers:
  assumes "validate_run r = Some v" and "vn_valid v" and "s \<in> set (rn_stages r)"
  shows "\<exists>vs. value_map_of s = Some (vs, []) \<and>
    sg_start_ns s \<le> sg_end_ns s \<and> sg_invalid s = 0 \<and> 0 \<le> sg_rc s \<and>
    set PHYSICAL_REGS \<subseteq> fst ` set vs \<and> 0xFFFFFFFF \<notin> snd ` set vs \<and>
    (sg_name s \<notin> set LOGICAL_STAGES \<longrightarrow> (\<forall>reg \<in> fst ` set vs. \<not> is_logical_reg reg))"
proof -
  obtain vs dups p where vm: "value_map_of s = Some (vs, dups)" "fst (stage_errors p s (vs, dups)) = []"
    using valid_stage [OF assms] by auto
  have phys: "set PHYSICAL_REGS \<subseteq> fst ` set vs"
    using vm(2) by (auto simp: stage_errors_Nil stage_sound_def has_reg_def map_of_eq_None_iff)
  have "\<forall>reg \<in> fst ` set vs. \<not> is_logical_reg reg" if "sg_name s \<notin> set LOGICAL_STAGES"
    using vm(2) that by (simp add: stage_errors_Nil list_ex_iff case_prod_unfold)
  with vm phys show ?thesis
    by (auto simp: stage_errors_Nil stage_sound_def)
qed

text \<open>C13: In a valid run every stage after graphics is initialised has a complete logical topology:
  the graphics bit of PMC is set, one to six GPCs are reported, each has its TPC count and its three
  PPC masks, and the topology the decoder stores lists exactly these counts and their sum.\<close>

theorem valid_run_topology:
  assumes "validate_run r = Some v" and "vn_valid v" and "s \<in> set (rn_stages r)"
    and "sg_name s \<in> set LOGICAL_STAGES"
  shows "\<exists>vm. value_map_of s = Some vm \<and> logical_complete vm \<and>
    s\<lparr>sg_topology := Some \<lparr>lt_gpc_count = int (gpc_total vm), lt_tpc_counts = tpc_counts_of vm,
       lt_tpc_sum = Some (sum_list (tpc_counts_of vm)), lt_ppc_complete = True\<rparr>\<rparr> \<in> set (rn_stages v)"
proof -
  obtain vm p where vm: "value_map_of s = Some vm" "fst (stage_errors p s vm) = []"
      "s\<lparr>sg_topology := snd (stage_errors p s vm)\<rparr> \<in> set (rn_stages v)"
    using valid_stage [OF assms(1-3)] by auto
  then have nil: "fst (logical_errors s vm) = []" "has_reg vm PMC_REG"
    using assms(4) PMC_physical by (auto simp: stage_errors_Nil stage_sound_def)
  have "snd (stage_errors p s vm) = snd (logical_errors s vm)"
    using assms(4) by (simp add: stage_errors_def Let_def split: prod.splits)
  with vm logical_errors_Nil [OF nil] show ?thesis by auto
qed

subsection \<open>Reset events\<close>

lemma classify_pairs_sound:
  "(a, b) \<in> set (fst (classify_pairs es)) \<Longrightarrow>
     \<exists>x \<in> set es. \<exists>y \<in> set es. is_reset_pair x y \<and> a = sg_seq x \<and> b = sg_seq y"
proof (induction es rule: classify_pairs.induct)
  case (3 x y rest)
  obtain ps us where rest: "classify_pairs rest = (ps, us)" by fastforce
  show ?case
  proof (cases "is_reset_pair x y \<and> a = sg_seq x \<and> b = sg_seq y")
    case True
    then show ?thesis by (intro bexI [of _ x] bexI [of _ y]) simp_all
  next
    case False
    with "3.prems" rest have "(a, b) \<in> set ps" by (auto split: if_splits)
    with "3.IH" rest show ?thesis by (metis fst_conv list.set_intros(2))
  qed
qed simp_all

lemma pair_seqs_simps [simp]:
  "pair_seqs [] = []" "pair_seqs ((a, b) # ps) = a # b # pair_seqs ps"
  by (simp_all add: pair_seqs_def)

lemma classify_pairs_cover:
  "set (pair_seqs (fst (classify_pairs es))) \<union> set (snd (classify_pairs es)) = sg_seq ` set es"
  by (induction es rule: classify_pairs.induct) (auto split: prod.splits)

lemma trailing_events_in:
  "x \<in> set (trailing_events ss) \<Longrightarrow> x \<in> set (reset_events ss) \<and>
     (\<exists>c. unique_stage ss ''ctxctl_return'' = Some c \<and> sg_seq c < sg_seq x)"
  by (cases "unique_stage ss ''ctxctl_return''") (auto simp: trailing_events_def)

lemma reset_events_iff:
  "x \<in> set (reset_events ss) \<longleftrightarrow>
     x \<in> set ss \<and> sg_name x \<in> {''gr_reset_mask_return'', ''gr_reset_return''}"
  by (auto simp: reset_events_def stages_named_filter)

definition initial_seqs :: "reset_class \<Rightarrow> int list" where
  "initial_seqs c = (case rc_initial c of None \<Rightarrow> [] | Some (m, r) \<Rightarrow> [m, r])"

lemma initial_reset_events:
  assumes "snd (initial_reset ss) = Some (m, r)"
  shows "m \<in> sg_seq ` set (reset_events ss) \<and> r \<in> sg_seq ` set (reset_events ss)"
proof -
  have "fst (initial_reset ss) = []"
    using assms by (auto simp: initial_reset_def Let_def split: option.splits list.splits if_splits)
  with initial_reset_pair [OF this] assms show ?thesis by (force simp: reset_events_iff)
qed

lemma trailing_subset: "sg_seq ` set (trailing_events ss) \<subseteq> sg_seq ` set (reset_events ss)"
  using trailing_events_in by blast

lemma classify_resets_cover:
  "set (initial_seqs (classify_resets ss)) \<union> set (pair_seqs (rc_pairs (classify_resets ss))) \<union>
     set (rc_unclassified (classify_resets ss)) = sg_seq ` set (reset_events ss)"
proof -
  let ?c = "classify_resets ss"
  obtain ps us where cp: "classify_pairs (trailing_events ss) = (ps, us)" by fastforce
  have eq: "rc_pairs ?c = ps" "rc_initial ?c = snd (initial_reset ss)"
    "set (rc_unclassified ?c) = set us \<union>
       (sg_seq ` set (reset_events ss) - (set (initial_seqs ?c) \<union> set (pair_seqs ps)))"
    by (cases "snd (initial_reset ss)"; auto simp: classify_resets_def cp initial_seqs_def Let_def)+
  have "set (pair_seqs ps) \<union> set us \<subseteq> sg_seq ` set (reset_events ss)"
    using classify_pairs_cover [of "trailing_events ss"] cp trailing_subset by simp
  moreover have "set (initial_seqs ?c) \<subseteq> sg_seq ` set (reset_events ss)"
    using initial_reset_events by (cases "snd (initial_reset ss)") (auto simp: initial_seqs_def eq(2))
  ultimately show ?thesis unfolding eq(1,3) by blast
qed

text \<open>The classification of the reset events loses none and invents none: for every capture,
  the sequence numbers of the initial pair, of the trailing pairs and of the unclassified list are
  together exactly those of the reset stages.\<close>

lemma classify_resets_conserves:
  "set (initial_seqs (classify_resets ss)) \<union> set (pair_seqs (rc_pairs (classify_resets ss))) \<union>
     set (rc_unclassified (classify_resets ss)) = sg_seq ` set (reset_events ss)"
  by (rule classify_resets_cover)

lemma return_error_Nil: "return_error w s = [] \<longleftrightarrow> sg_rc s = w"
  by (simp add: return_error_def)

lemma valid_trailing_pair:
  assumes "(a, b) \<in> set (rc_pairs (classify_resets ss))"
  shows "b = a + 1 \<and>
    (\<exists>c. unique_stage ss ''ctxctl_return'' = Some c \<and> sg_seq c < a) \<and>
    (\<exists>x \<in> set ss. sg_name x = ''gr_reset_mask_return'' \<and> sg_seq x = a) \<and>
    (\<exists>y \<in> set ss. sg_name y = ''gr_reset_return'' \<and> sg_seq y = b)"
proof -
  have "(a, b) \<in> set (fst (classify_pairs (trailing_events ss)))"
    using assms by (simp add: classify_resets_def Let_def split: prod.splits)
  from classify_pairs_sound [OF this] obtain x y where xy: "x \<in> set (trailing_events ss)"
      "y \<in> set (trailing_events ss)" "is_reset_pair x y" "a = sg_seq x" "b = sg_seq y"
    by blast
  with trailing_events_in [of x ss] trailing_events_in [of y ss] show ?thesis
    by (auto simp: is_reset_pair_def reset_events_iff)
qed

text \<open>C11: In a valid run every reset event is explained: it belongs to the initial pair or to a
  trailing pair; each pair is a mask stage directly followed by its reset stage, trailing pairs come
  after \<^verbatim>\<open>ctxctl_return\<close>, and every mask stage returned the GR mask 0x1000 and every reset 0.\<close>

theorem valid_run_resets:
  assumes "validate_run r = Some v" and "vn_valid v"
  shows "\<exists>m. rc_initial (vn_reset v) = Some (m, m + 1) \<and> rc_unclassified (vn_reset v) = [] \<and>
    (\<forall>(a, b) \<in> set (rc_pairs (vn_reset v)). b = a + 1 \<and>
       (\<exists>c \<in> set (rn_stages r). sg_name c = ''ctxctl_return'' \<and> sg_seq c < a)) \<and>
    (\<forall>s \<in> set (rn_stages r). sg_name s = ''gr_reset_mask_return'' \<longrightarrow> sg_rc s = 0x1000 \<and>
       (sg_seq s, sg_seq s + 1) \<in> insert (m, m + 1) (set (rc_pairs (vn_reset v)))) \<and>
    (\<forall>s \<in> set (rn_stages r). sg_name s = ''gr_reset_return'' \<longrightarrow> sg_rc s = 0 \<and>
       (sg_seq s - 1, sg_seq s) \<in> insert (m, m + 1) (set (rc_pairs (vn_reset v))))"
proof -
  let ?ss = "rn_stages r" and ?c = "classify_resets (rn_stages r)"
  note ok = valid_core [OF assms]
  have vr: "vn_reset v = ?c" using assms(1) by (auto elim!: validate_run_Some)
  obtain m rr :: stage where mr: "m \<in> set ?ss" "sg_name m = ''gr_reset_mask_return''" "rr \<in> set ?ss"
      "sg_name rr = ''gr_reset_return''" "sg_seq rr = sg_seq m + 1"
      "snd (initial_reset ?ss) = Some (sg_seq m, sg_seq rr)"
    using initial_reset_pair [OF ok(3)] by blast
  have ini: "rc_initial ?c = Some (sg_seq m, sg_seq m + 1)"
    using mr by (simp add: classify_resets_def Let_def split: prod.splits)
  have same: "x = y" if "x \<in> set ?ss" "y \<in> set ?ss" "sg_seq x = sg_seq y" for x y
    using stage_at_seq [OF ok(1)] that by metis
  have explained: "\<exists>(a, b) \<in> insert (sg_seq m, sg_seq m + 1) (set (rc_pairs ?c)). sg_seq s = a \<or> sg_seq s = b"
    if "s \<in> set (reset_events ?ss)" for s
  proof -
    have "sg_seq s \<in> set (initial_seqs ?c) \<union> set (pair_seqs (rc_pairs ?c)) \<union> set (rc_unclassified ?c)"
      using that classify_resets_cover by blast
    then show ?thesis using ok(5) by (auto simp: initial_seqs_def ini pair_seqs_def)
  qed
  have pair: "b = a + 1 \<and> (\<exists>x \<in> set ?ss. sg_name x = ''gr_reset_mask_return'' \<and> sg_seq x = a) \<and>
      (\<exists>y \<in> set ?ss. sg_name y = ''gr_reset_return'' \<and> sg_seq y = b)"
    if "(a, b) \<in> insert (sg_seq m, sg_seq m + 1) (set (rc_pairs ?c))" for a b
    using that mr valid_trailing_pair [of a b ?ss] by auto
  have trail: "b = a + 1 \<and> (\<exists>c \<in> set ?ss. sg_name c = ''ctxctl_return'' \<and> sg_seq c < a)"
    if "(a, b) \<in> set (rc_pairs ?c)" for a b
    using valid_trailing_pair [OF that] unique_stage_mem by blast
  have mask: "sg_rc s = 0x1000 \<and> (sg_seq s, sg_seq s + 1) \<in> insert (sg_seq m, sg_seq m + 1) (set (rc_pairs ?c))"
    if s: "s \<in> set ?ss" "sg_name s = ''gr_reset_mask_return''" for s
  proof -
    obtain a b where ab: "(a, b) \<in> insert (sg_seq m, sg_seq m + 1) (set (rc_pairs ?c))"
        "sg_seq s = a \<or> sg_seq s = b"
      using explained [of s] s by (auto simp: reset_events_iff)
    with pair [OF ab(1)] same [OF s(1)] s(2) have "sg_seq s = a \<and> b = a + 1" by fastforce
    with ab(1) ok(9) s show ?thesis
      by (auto simp: reset_return_errors_def return_error_Nil stages_named_filter)
  qed
  have reset: "sg_rc s = 0 \<and> (sg_seq s - 1, sg_seq s) \<in> insert (sg_seq m, sg_seq m + 1) (set (rc_pairs ?c))"
    if s: "s \<in> set ?ss" "sg_name s = ''gr_reset_return''" for s
  proof -
    obtain a b where ab: "(a, b) \<in> insert (sg_seq m, sg_seq m + 1) (set (rc_pairs ?c))"
        "sg_seq s = a \<or> sg_seq s = b"
      using explained [of s] s by (auto simp: reset_events_iff)
    with pair [OF ab(1)] same [OF s(1)] s(2) have "sg_seq s = b \<and> b = a + 1" by fastforce
    with ab(1) ok(9) s show ?thesis
      by (auto simp: reset_return_errors_def return_error_Nil stages_named_filter)
  qed
  show ?thesis
    using ini ok(5) trail mask reset unfolding vr by (intro exI [of _ "sg_seq m"]) blast
qed

subsection \<open>Nothing lost\<close>

lemma missed_errors_Nil:
  "missed_errors ms = [] \<longleftrightarrow> (\<forall>x \<in> set ms. ms_nmissed x = 0) \<and>
     (\<forall>sy \<in> set MISSED_SYMBOLS. length (filter (\<lambda>x. ms_symbol x = sy) ms) = 1)"
proof -
  have one: "(case xs of [] \<Rightarrow> [MissingMissedCounter sy] | [x] \<Rightarrow> []
      | xs \<Rightarrow> [DuplicateMissedCounter sy (length xs)]) = [] \<longleftrightarrow> length xs = 1" for sy and xs :: "missed_rec list"
    by (auto split: list.splits)
  show ?thesis
    by (simp add: missed_errors_def dict_simps one)
qed

text \<open>C14: A valid run is complete and nothing of it was lost: both delimiters name the same device, the
  declared number of records is the number of stages, numbered from 0 without a gap, none was
  dropped, no line was left unread, no register value lacks its stage, and every probe reports
  exactly once that it missed nothing.\<close>

theorem valid_run_lossless:
  assumes "validate_run r = Some v" and "vn_valid v"
  shows "rn_complete r \<and> (\<exists>bdf. bdf \<noteq> [] \<and> rn_begin_bdf r = Some bdf \<and> rn_end_bdf r = Some bdf) \<and>
    rn_declared r = Some (int (length (rn_stages r))) \<and> rn_dropped r = Some 0 \<and>
    map sg_seq (rn_stages r) = map int [0..<length (rn_stages r)] \<and>
    rn_unparsed r = [] \<and> rn_orphans r = [] \<and>
    (\<forall>sy \<in> set MISSED_SYMBOLS.
       map ms_nmissed (filter (\<lambda>x. ms_symbol x = sy) (rn_missed r)) = [0]) \<and>
    (\<forall>x \<in> set (rn_missed r). ms_nmissed x = 0)"
proof -
  note ok = valid_core [OF assms]
  have "map ms_nmissed (filter (\<lambda>x. ms_symbol x = sy) (rn_missed r)) = [0]"
    if sy: "sy \<in> set MISSED_SYMBOLS" for sy
  proof -
    obtain x where x: "filter (\<lambda>x. ms_symbol x = sy) (rn_missed r) = [x]"
      using ok(10) sy by (auto simp: missed_errors_Nil length_Suc_conv)
    then have "x \<in> set (filter (\<lambda>x. ms_symbol x = sy) (rn_missed r))" by simp
    then have "x \<in> set (rn_missed r)" by simp
    with ok(10) x show ?thesis unfolding missed_errors_Nil by simp
  qed
  with ok(1,6,10) show ?thesis
    by (auto simp: boundary_errors_Nil sequence_errors_Nil missed_errors_Nil)
qed

text \<open>In a valid run the POST request is consistent: the single \<^verbatim>\<open>post_entry\<close> and the single
  \<^verbatim>\<open>post_return\<close> carry the same Boolean, both returned 0, and POST is only forced when the
  PMU was reported present.\<close>

theorem valid_run_post:
  assumes "validate_run r = Some v" and "vn_valid v"
  shows "\<exists>e x. filter (\<lambda>s. sg_name s = ''post_entry'') (rn_stages r) = [e] \<and>
    filter (\<lambda>s. sg_name s = ''post_return'') (rn_stages r) = [x] \<and>
    sg_post e = sg_post x \<and> sg_post e \<in> {0, 1} \<and> sg_rc e = 0 \<and> sg_rc x = 0 \<and>
    (sg_post e = 1 \<longrightarrow> rn_pmu_present r = Some 1)"
proof -
  note ok = valid_core [OF assms]
  have core: "''post_entry'' \<in> set NONRESET_SEQUENCE" "''post_return'' \<in> set NONRESET_SEQUENCE"
    by code_simp+
  obtain e x where u: "unique_stage (rn_stages r) ''post_entry'' = Some e"
      "unique_stage (rn_stages r) ''post_return'' = Some x"
    using ok(2) core unfolding presence_errors_Nil by blast
  have "sg_rc e = 0" "sg_rc x = 0"
    using ok(7) core u by (force simp: core_return_errors_def return_error_Nil)+
  with ok(8) u show ?thesis
    by (auto simp: post_errors_def unique_stage_Some)
qed

subsection \<open>Register maps and mask transitions\<close>

lemma first_values_map_of:
  "map_of (first_values vs xs) reg = (case map_of vs reg of Some v \<Rightarrow> Some v
     | None \<Rightarrow> map_option val_of (find (\<lambda>x. reg_of x = reg) xs))"
proof (induction xs arbitrary: vs)
  case Nil
  then show ?case by (simp split: option.splits)
next
  case (Cons x xs)
  have "map_of (vs @ [(reg_of x, val_of x)]) reg =
      (case map_of vs reg of Some v \<Rightarrow> Some v | None \<Rightarrow> if reg_of x = reg then Some (val_of x) else None)"
    by (auto simp: map_add_def split: option.splits)
  with Cons show ?case
    by (auto simp: weak_map_of_SomeI map_of_eq_None_iff split: option.splits
        dest: map_of_SomeD intro: rev_image_eqI)
qed

lemma first_values_distinct: "distinct (map fst vs) \<Longrightarrow> distinct (map fst (first_values vs xs))"
  by (induction xs arbitrary: vs) auto

text \<open>The register map of a stage never fails on the values the parser stores, keeps each register
  once, and gives every register the value that was recorded first.\<close>

lemma value_map_first_wins:
  assumes "list_all wf_value (sg_values s)"
  shows "\<exists>vs dups. value_map_of s = Some (vs, dups) \<and> distinct (map fst vs) \<and>
    (\<forall>reg. map_of vs reg = map_option val_of (find (\<lambda>x. reg_of x = reg) (sg_values s)))"
  using value_map_of_wf [OF assms] first_values_distinct [of "[]"]
  by (auto simp: first_values_map_of)

lemma changed_slots_iff:
  "slot \<in> set (changed_slots olds news) \<longleftrightarrow> slot < length olds \<and> slot < length news \<and>
     (\<exists>a b. olds ! slot = Some a \<and> news ! slot = Some b \<and> a \<noteq> b)"
proof -
  have "slot \<in> set (changed_slots olds news) \<longleftrightarrow>
      (\<exists>p. (slot, p) \<in> set (enumerate 0 (zip olds news)) \<and> fst p \<noteq> None \<and> snd p \<noteq> None \<and> fst p \<noteq> snd p)"
    unfolding changed_slots_def enumerate_from_eq set_map set_filter image_iff by (auto; fastforce)
  also have "\<dots> \<longleftrightarrow> slot < length olds \<and> slot < length news \<and>
      olds ! slot \<noteq> None \<and> news ! slot \<noteq> None \<and> olds ! slot \<noteq> news ! slot"
    by (auto simp: in_set_enumerate_eq)
  finally show ?thesis by auto
qed

lemma family_nth: "i < length regs \<Longrightarrow> family vm regs ! i = map_option (py_hex 8) (map_of (fst vm) (regs ! i))"
  by (simp add: family_def)

lemma py_hex_eq_iff: "0 \<le> a \<Longrightarrow> 0 \<le> b \<Longrightarrow> py_hex w a = py_hex w b \<longleftrightarrow> a = b"
  by (metis hex_text.dec_enc option.inject)

text \<open>The register differs between two maps that both hold it.\<close>

definition reg_changed :: "value_map \<Rightarrow> value_map \<Rightarrow> int \<Rightarrow> bool" where
  "reg_changed vm vm' reg \<longleftrightarrow> has_reg vm reg \<and> has_reg vm' reg \<and> reg_value vm reg \<noteq> reg_value vm' reg"

definition nonneg_map :: "value_map \<Rightarrow> bool" where
  "nonneg_map vm \<longleftrightarrow> list_all (\<lambda>(reg, v). 0 \<le> v) (fst vm)"

lemma nonneg_map_of: "nonneg_map vm \<Longrightarrow> map_of (fst vm) reg = Some v \<Longrightarrow> 0 \<le> v"
  by (auto simp: nonneg_map_def list_all_iff dest: map_of_SomeD)

lemma changed_slots_family:
  assumes "nonneg_map vm" and "nonneg_map vm'"
  shows "set (changed_slots (family vm regs) (family vm' regs)) =
    {i. i < length regs \<and> reg_changed vm vm' (regs ! i)}"
proof -
  have "slot \<in> set (changed_slots (family vm regs) (family vm' regs)) \<longleftrightarrow>
      slot < length regs \<and> reg_changed vm vm' (regs ! slot)" for slot
  proof (cases "slot < length regs")
    case True
    then show ?thesis
      using nonneg_map_of [OF assms(1)] nonneg_map_of [OF assms(2)]
      by (auto simp: changed_slots_iff family_def reg_changed_def has_reg_def reg_value_def py_hex_eq_iff)
  qed (simp add: changed_slots_iff family_def)
  then show ?thesis by blast
qed

text \<open>The mask comparison is exact. Its observations are the stages in the order of their
  numbers, and between two neighbours the slots it reports as changed are, for each family of mask
  registers, exactly those whose register is present on both sides with different values.\<close>

theorem mask_transitions_exact:
  assumes "\<forall>x \<in> set svms. nonneg_map (snd x)"
    and "xs = sort_key (sg_seq \<circ> fst) svms" and "Suc i < length svms"
  shows "length (mc_transitions (mask_observations svms)) = length svms - 1 \<and>
    (let t = mc_transitions (mask_observations svms) ! i; vm = snd (xs ! i); vm' = snd (xs ! Suc i) in
      tn_from_seq t = sg_seq (fst (xs ! i)) \<and> tn_to_seq t = sg_seq (fst (xs ! Suc i)) \<and>
      set (tn_raw t) = {s. s < 6 \<and> reg_changed vm vm' (RAW_REGS ! s)} \<and>
      set (tn_ctrl t) = {s. s < 6 \<and> reg_changed vm vm' (CTRL_REGS ! s)} \<and>
      set (tn_status t) = {s. s < 6 \<and> reg_changed vm vm' (STATUS_REGS ! s)} \<and>
      (tn_changed t \<longleftrightarrow> (\<exists>reg \<in> set (RAW_REGS @ CTRL_REGS @ STATUS_REGS). reg_changed vm vm' reg)))"
proof -
  let ?t = "mc_transitions (mask_observations svms) ! i"
  obtain s vm s' vm' where x: "xs ! i = (s, vm)" "xs ! Suc i = (s', vm')"
    by (metis prod.exhaust)
  have len: "length xs = length svms" "length RAW_REGS = 6" "length CTRL_REGS = 6" "length STATUS_REGS = 6"
    using assms(2) by (simp_all add: RAW_REGS_def CTRL_REGS_def STATUS_REGS_def MAX_GPCS_def)
  have t: "?t = transition_between (observe (s, vm)) (observe (s', vm'))"
    using assms(3) len(1) x
    by (simp add: mask_observations_def Let_def assms(2) [symmetric] nth_tl)
  have "xs ! i \<in> set svms" "xs ! Suc i \<in> set svms"
    using assms(2,3) len(1) by (metis Suc_lessD nth_mem set_sort)+
  then have nn: "nonneg_map vm" "nonneg_map vm'" using assms(1) x by force+
  have fam: "set (tn_raw ?t) = {s. s < 6 \<and> reg_changed vm vm' (RAW_REGS ! s)}"
    "set (tn_ctrl ?t) = {s. s < 6 \<and> reg_changed vm vm' (CTRL_REGS ! s)}"
    "set (tn_status ?t) = {s. s < 6 \<and> reg_changed vm vm' (STATUS_REGS ! s)}"
    by (simp_all add: t transition_between_def observe_def Let_def changed_slots_family [OF nn] len)
  have at_slot: "(\<exists>reg \<in> set regs. reg_changed vm vm' reg) \<longleftrightarrow>
      (\<exists>k < length regs. reg_changed vm vm' (regs ! k))" for regs
    by (metis in_set_conv_nth)
  have "tn_changed ?t \<longleftrightarrow> set (tn_raw ?t) \<noteq> {} \<or> set (tn_ctrl ?t) \<noteq> {} \<or> set (tn_status ?t) \<noteq> {}"
    by (simp add: t transition_between_def Let_def)
  also have "\<dots> \<longleftrightarrow> (\<exists>reg \<in> set (RAW_REGS @ CTRL_REGS @ STATUS_REGS). reg_changed vm vm' reg)"
    using at_slot [of RAW_REGS] at_slot [of CTRL_REGS] at_slot [of STATUS_REGS] by (simp add: fam len) blast
  finally show ?thesis
    using fam x assms(3) len
    by (simp add: t transition_between_def observe_def Let_def)
      (simp add: mask_observations_def Let_def assms(2) [symmetric])
qed

subsection \<open>A valid run\<close>

text \<open>A stage that stores the given pairs, in the text form the parser writes.\<close>

definition stored :: "int \<Rightarrow> int \<times> int \<Rightarrow> value_rec" where
  "stored sq x = \<lparr>vr_line = 1, vr_seq = sq, vr_reg = py_hex 6 (fst x), vr_value = py_hex 8 (snd x), vr_raw = []\<rparr>"

lemma value_map_stored:
  assumes "list_all (\<lambda>(reg, v). 0 \<le> reg \<and> 0 \<le> v) ps" and "distinct (map fst (vs @ ps))"
  shows "value_map_loop (vs, []) (map (stored sq) ps) = Some (vs @ ps, [])"
  using assms
proof (induction ps arbitrary: vs)
  case Nil
  then show ?case by simp
next
  case (Cons x ps)
  then show ?case
    by (cases x) (auto simp: stored_def hex_text.dec_enc map_of_eq_None_iff)
qed

definition sample_physical :: "(int \<times> int) list" where
  "sample_physical = map (\<lambda>reg. (reg, if reg = PMC_REG then 0x1000 else 0)) PHYSICAL_REGS"

definition sample_logical :: "(int \<times> int) list" where
  "sample_logical = [(LOGICAL_GPC_COUNT_REG, 1), (COMPUTE_PIPE_CONTROL_REG, 0), (count_reg 0, 7),
     (ppc_reg 0 0, 7), (ppc_reg 0 1, 3), (ppc_reg 0 2, 3)]"

definition sample_pairs :: "string \<Rightarrow> (int \<times> int) list" where
  "sample_pairs nm = sample_physical @ (if nm \<in> set LOGICAL_STAGES then sample_logical else [])"

type_synonym sample_entry = "nat \<times> string"

text \<open>The run over an arbitrary assignment of stored values, and the values of the sample.\<close>

definition stage_with :: "(sample_entry \<Rightarrow> value_rec list) \<Rightarrow> sample_entry \<Rightarrow> stage" where
  "stage_with vals x = \<lparr>sg_line = fst x + 2, sg_seq = int (fst x), sg_name = snd x,
      sg_start_ns = int (fst x), sg_end_ns = int (fst x), sg_pid = 1,
      sg_rc = (if snd x = ''gr_reset_mask_return'' then 0x1000 else 0), sg_post = 1, sg_invalid = 0,
      sg_values = vals x, sg_raw = [], sg_topology = None\<rparr>"

definition sample_names :: "string list" where
  "sample_names = CORE_SEQUENCE @ [''gr_reset_mask_return'', ''gr_reset_return'']"

definition run_with :: "(sample_entry \<Rightarrow> value_rec list) \<Rightarrow> run" where
  "run_with vals = \<lparr>rn_begin_line = 1, rn_end_line = Some 20, rn_begin_bdf = Some ''0000:01:00.0'',
     rn_end_bdf = Some ''0000:01:00.0'', rn_declared = Some 11, rn_dropped = Some 0,
     rn_pmu_present = Some 1, rn_stages = map (stage_with vals) (enumerate_from 0 sample_names),
     rn_missed = map (\<lambda>sy. \<lparr>ms_line = 18, ms_symbol = sy, ms_nmissed = 0, ms_raw = []\<rparr>) MISSED_SYMBOLS,
     rn_orphans = [], rn_unparsed = [], rn_raw_lines = [], rn_complete = True, rn_armed = Some 34\<rparr>"

definition sample_values :: "sample_entry \<Rightarrow> value_rec list" where
  "sample_values x = map (stored (int (fst x))) (sample_pairs (snd x))"

abbreviation sample_stage :: "sample_entry \<Rightarrow> stage" where "sample_stage \<equiv> stage_with sample_values"
abbreviation sample_run :: run where "sample_run \<equiv> run_with sample_values"

lemma sample_pairs_ok:
  "nm \<in> {''a'', ''nvidia_baseline''} \<Longrightarrow>
     list_all (\<lambda>(reg, v). 0 \<le> reg \<and> 0 \<le> v) (sample_pairs nm) \<and> distinct (map fst (sample_pairs nm))"
  by (elim insertE emptyE; hypsubst; code_simp)

lemma sample_pairs_cases: "sample_pairs nm = sample_pairs ''nvidia_baseline'' \<or> sample_pairs nm = sample_pairs ''a''"
proof -
  have "''nvidia_baseline'' \<in> set LOGICAL_STAGES" "''a'' \<notin> set LOGICAL_STAGES" by code_simp+
  then show ?thesis by (simp add: sample_pairs_def)
qed

lemma sample_value_map: "value_map_of (sample_stage x) = Some (sample_pairs (snd x), [])"
proof -
  have "list_all (\<lambda>(reg, v). 0 \<le> reg \<and> 0 \<le> v) (sample_pairs (snd x)) \<and> distinct (map fst (sample_pairs (snd x)))"
    using sample_pairs_cases [of "snd x"] by (elim disjE; simp only: sample_pairs_ok insert_iff simp_thms)
  then show ?thesis
    using value_map_stored [of "sample_pairs (snd x)" "[]"]
    by (simp add: value_map_of_def stage_with_def sample_values_def)
qed

definition sample_svms :: "(stage \<times> value_map) list" where
  "sample_svms = map (\<lambda>x. (sample_stage x, (sample_pairs (snd x), []))) (enumerate_from 0 sample_names)"

lemma sample_maps:
  "those (map value_map_of (rn_stages sample_run)) =
     Some (map (\<lambda>x. (sample_pairs (snd x), [])) (enumerate_from 0 sample_names))"
  unfolding those_map_Some by (simp add: run_with_def list_all2_conv_all_nth sample_value_map)

lemma sample_zip:
  "zip (rn_stages sample_run) (map (\<lambda>x. (sample_pairs (snd x), [])) (enumerate_from 0 sample_names)) = sample_svms"
  by (simp add: run_with_def sample_svms_def zip_map_map zip_same_conv_map)

lemma logical_complete_errors:
  assumes "logical_complete vm"
  shows "fst (logical_errors s vm) = []"
proof -
  have "fst (logical_topology s vm (gpc_total vm)) = []"
    using assms by (auto simp: logical_complete_def logical_topology_def Let_def filter_empty_conv)
  moreover have "1 \<le> reg_value vm LOGICAL_GPC_COUNT_REG AND 0x1F \<and>
      reg_value vm LOGICAL_GPC_COUNT_REG AND 0x1F \<le> int MAX_GPCS"
    using assms by (simp add: logical_complete_def gpc_total_def) linarith
  ultimately show ?thesis
    using assms by (auto simp: logical_errors_def Let_def logical_complete_def gpc_total_def case_prod_unfold)
qed

lemma sample_logical_complete: "logical_complete (sample_pairs ''nvidia_baseline'', [])"
  by code_simp

lemma sample_pairs_logical:
  "nm \<in> set LOGICAL_STAGES \<Longrightarrow> sample_pairs nm = sample_pairs ''nvidia_baseline''"
  "nm \<notin> set LOGICAL_STAGES \<Longrightarrow> sample_pairs nm = sample_physical"
  by (simp_all add: sample_pairs_def LOGICAL_STAGES_def)

lemma sample_pairs_sound:
  "\<forall>(reg, v) \<in> set (sample_pairs ''nvidia_baseline''). v \<noteq> 0xFFFFFFFF"
  "\<forall>(reg, v) \<in> set sample_physical. v \<noteq> 0xFFFFFFFF"
  "\<forall>reg \<in> set PHYSICAL_REGS. has_reg (sample_pairs ''nvidia_baseline'', []) reg"
  "\<forall>reg \<in> set PHYSICAL_REGS. has_reg (sample_physical, []) reg"
  "\<not> list_ex (\<lambda>(reg, v). is_logical_reg reg) sample_physical"
  by code_simp+

lemma sample_stage_ok:
  assumes "\<forall>p. prev = Some p \<longrightarrow> p \<le> int k"
  shows "fst (stage_errors prev (sample_stage (k, nm)) (sample_pairs nm, [])) = []"
proof (cases "nm \<in> set LOGICAL_STAGES")
  case True
  have "fst (stage_errors prev (sample_stage (k, nm)) (sample_pairs ''nvidia_baseline'', [])) = []"
    using assms True sample_pairs_sound
    by (cases prev) (simp_all add: stage_errors_Nil stage_sound_def time_errors_def stage_with_def
        sample_logical_complete logical_complete_errors)
  then show ?thesis by (simp only: sample_pairs_logical(1) [OF True])
next
  case False
  have "fst (stage_errors prev (sample_stage (k, nm)) (sample_physical, [])) = []"
    using assms False sample_pairs_sound
    by (cases prev) (simp_all add: stage_errors_Nil stage_sound_def time_errors_def stage_with_def)
  then show ?thesis by (simp only: sample_pairs_logical(2) [OF False])
qed

lemma sample_stages_ok:
  "\<forall>p. prev = Some p \<longrightarrow> p \<le> int k \<Longrightarrow> fst (stages_errors prev
     (map (\<lambda>x. (sample_stage x, (sample_pairs (snd x), []))) (enumerate_from k nms))) = []"
proof (induction nms arbitrary: k prev)
  case Nil
  then show ?case by simp
next
  case (Cons nm nms)
  have "sg_start_ns (sample_stage (k, nm)) = int k" by (simp add: stage_with_def)
  then show ?case
    using sample_stage_ok [OF Cons.prems] Cons.IH [of "Some (int k)" "Suc k"]
    by (simp add: stages_errors_Cons del: stages_errors.simps(2))
qed

lemma sample_stage_errors: "fst (stages_errors None sample_svms) = []"
  unfolding sample_svms_def by (rule sample_stages_ok) simp

text \<open>Everything but the registers, for an arbitrary assignment of values.\<close>

lemma shape_of_run_with:
  "boundary_errors (run_with vals) = []" "sequence_errors (map sg_seq (rn_stages (run_with vals))) = []"
  "presence_errors (rn_stages (run_with vals)) = []" "fst (initial_reset (rn_stages (run_with vals))) = []"
  "rc_unclassified (classify_resets (rn_stages (run_with vals))) = []"
  "order_errors (rn_stages (run_with vals)) = []" "core_return_errors (rn_stages (run_with vals)) = []"
  "post_errors (run_with vals) = []" "reset_return_errors (rn_stages (run_with vals)) = []"
  "missed_errors (rn_missed (run_with vals)) = []"
  by code_simp+

lemma sample_errors: "run_errors sample_run sample_svms = []"
  by (simp only: run_errors_Nil sample_stage_errors shape_of_run_with simp_thms)

lemma sample_valid: "\<exists>v. validate_run sample_run = Some v \<and> vn_valid v"
  unfolding validate_run_def sample_maps
  by (simp add: sample_zip sample_errors run.defs)

subsection \<open>The properties on the sample run\<close>

lemma valid_run_core_sequence_witness:
  "\<exists>pos. length pos = 9 \<and> sorted_wrt (<) pos \<and> pos ! 4 = pos ! 3 + 1 \<and>
    (\<forall>k < 9. sg_name (rn_stages sample_run ! (pos ! k)) = CORE_SEQUENCE ! k)"
proof -
  obtain v where "validate_run sample_run = Some v" "vn_valid v" using sample_valid by blast
  from valid_run_core_sequence [OF this] show ?thesis by blast
qed

abbreviation sample_first :: stage where
  "sample_first \<equiv> sample_stage (0, ''nvidia_baseline'')"

lemma sample_first_mem: "sample_first \<in> set (rn_stages sample_run)"
  by (simp add: run_with_def sample_names_def CORE_SEQUENCE_def)

lemma valid_run_registers_witness:
  "\<exists>vs. value_map_of sample_first = Some (vs, []) \<and> set PHYSICAL_REGS \<subseteq> fst ` set vs \<and>
    0xFFFFFFFF \<notin> snd ` set vs"
proof -
  obtain v where "validate_run sample_run = Some v" "vn_valid v" using sample_valid by blast
  from valid_run_registers [OF this sample_first_mem] show ?thesis by blast
qed

lemma valid_run_topology_witness:
  "\<exists>v. validate_run sample_run = Some v \<and>
    sample_first\<lparr>sg_topology := Some \<lparr>lt_gpc_count = 1, lt_tpc_counts = [7], lt_tpc_sum = Some 7,
      lt_ppc_complete = True\<rparr>\<rparr> \<in> set (rn_stages v)"
proof -
  obtain v where v: "validate_run sample_run = Some v" "vn_valid v" using sample_valid by blast
  have "sg_name sample_first \<in> set LOGICAL_STAGES" by (simp add: stage_with_def LOGICAL_STAGES_def)
  from valid_run_topology [OF v sample_first_mem this] obtain vm where
    vm: "value_map_of sample_first = Some vm" "sample_first\<lparr>sg_topology := Some \<lparr>lt_gpc_count = int (gpc_total vm),
       lt_tpc_counts = tpc_counts_of vm, lt_tpc_sum = Some (sum_list (tpc_counts_of vm)),
       lt_ppc_complete = True\<rparr>\<rparr> \<in> set (rn_stages v)" by blast
  have eq: "vm = (sample_pairs ''nvidia_baseline'', [])" using vm(1) sample_value_map by simp
  have "gpc_total (sample_pairs ''nvidia_baseline'', []) = 1" by code_simp
  moreover have "tpc_counts_of (sample_pairs ''nvidia_baseline'', []) = [7]" by code_simp
  ultimately show ?thesis using v(1) vm(2) unfolding eq by (intro exI [of _ v]) simp
qed

lemma valid_run_resets_witness:
  "\<exists>v m. validate_run sample_run = Some v \<and> rc_initial (vn_reset v) = Some (m, m + 1) \<and>
    rc_unclassified (vn_reset v) = []"
proof -
  obtain v where v: "validate_run sample_run = Some v" "vn_valid v" using sample_valid by blast
  from valid_run_resets [OF v] v(1) show ?thesis by blast
qed

lemma valid_run_lossless_witness:
  "rn_dropped sample_run = Some 0 \<and> rn_declared sample_run = Some (int (length (rn_stages sample_run)))"
proof -
  obtain v where v: "validate_run sample_run = Some v" "vn_valid v" using sample_valid by blast
  from valid_run_lossless [OF v] show ?thesis by blast
qed

end
