(* ===== verification/StageCapture.thy ===== *)
theory StageCapture
  imports StageProps
begin

text \<open>
  \<^verbatim>\<open>parse_capture\<close> and the exit status of \<^verbatim>\<open>main\<close> of
  \<^verbatim>\<open>tools/decode_gv100_stages.py\<close>. \<^term>\<open>None\<close> is the exception \<^verbatim>\<open>_validate_run\<close>
  could raise; the first property shows that it never does.
\<close>

subsection \<open>The scanner\<close>

definition STAGE_PREFIX :: string where "STAGE_PREFIX = ''cmp100_stage_ro''"

record stage_scan =
  sc_runs :: "validated_run list"
  sc_current :: "run option"
  sc_armed :: "string option \<rightharpoonup> int"

text \<open>The word after the prefix, or the empty text.\<close>

definition line_marker :: "string \<Rightarrow> string" where
  "line_marker raw = (case after_first STAGE_PREFIX raw of None \<Rightarrow> [] | Some rest \<Rightarrow> first_token (strip rest))"

definition has_stage_prefix :: "string \<Rightarrow> bool" where
  "has_stage_prefix raw \<longleftrightarrow> after_first STAGE_PREFIX raw \<noteq> None"

text \<open>\<^verbatim>\<open>_validate_run(current); runs.append(current)\<close>\<close>

definition close_run :: "stage_scan \<Rightarrow> run \<Rightarrow> stage_scan option" where
  "close_run sc r = map_option (\<lambda>v. sc\<lparr>sc_runs := sc_runs sc @ [v]\<rparr>) (validate_run r)"

definition on_armed :: "stage_scan \<Rightarrow> string \<Rightarrow> stage_scan" where
  "on_armed sc raw = (let fs = line_fields raw in
     case (fs ''bdf'', int_field fs ''live_gr_type'') of
       (Some bdf, Inr v) \<Rightarrow> sc\<lparr>sc_armed := (sc_armed sc)(Some bdf \<mapsto> v)\<rparr>
     | _ \<Rightarrow> sc)"

definition on_begin :: "stage_scan \<Rightarrow> nat \<Rightarrow> string \<Rightarrow> stage_scan option" where
  "on_begin sc n raw = map_option
     (\<lambda>sc'. let r = new_run n raw (line_fields raw) in
        sc'\<lparr>sc_current := Some (r\<lparr>rn_armed := sc_armed sc' (rn_begin_bdf r)\<rparr>)\<rparr>)
     (case sc_current sc of None \<Rightarrow> Some sc | Some cur \<Rightarrow> close_run sc cur)"

text \<open>The value goes to the one stage with its number; otherwise it is an orphan.\<close>

definition attach_value :: "run \<Rightarrow> value_rec \<Rightarrow> run" where
  "attach_value r x =
     (if length (filter (\<lambda>s. sg_seq s = vr_seq x) (rn_stages r)) = 1
      then r\<lparr>rn_stages := map (\<lambda>s. if sg_seq s = vr_seq x then s\<lparr>sg_values := sg_values s @ [x]\<rparr> else s) (rn_stages r)\<rparr>
      else r\<lparr>rn_orphans := rn_orphans r @ [x]\<rparr>)"

definition on_record :: "run \<Rightarrow> nat \<Rightarrow> string \<Rightarrow> string \<Rightarrow> run" where
  "on_record r n marker raw = (let fs = line_fields raw in
     if marker = ''STAGE'' then
       (case parse_stage n raw fs of
          Inl e \<Rightarrow> note_unparsed n ''STAGE'' e raw r
        | Inr s \<Rightarrow> r\<lparr>rn_stages := rn_stages r @ [s]\<rparr>)
     else if marker = ''VALUE'' then
       (case parse_value n raw fs of
          Inl e \<Rightarrow> note_unparsed n ''VALUE'' e raw r
        | Inr x \<Rightarrow> attach_value r x)
     else if marker = ''MISSED'' then
       (case parse_missed n raw fs of
          Inl e \<Rightarrow> note_unparsed n ''MISSED'' e raw r
        | Inr x \<Rightarrow> r\<lparr>rn_missed := rn_missed r @ [x]\<rparr>)
     else note_unparsed n (if marker = [] then ''unknown'' else marker) UnknownRecord raw r)"

definition end_run :: "run \<Rightarrow> nat \<Rightarrow> string \<Rightarrow> run" where
  "end_run r n raw = r\<lparr>rn_end_line := Some n, rn_end_bdf := line_fields raw ''bdf'', rn_complete := True\<rparr>"

text \<open>A line inside a run: its text is kept, then it is read or it closes the run.\<close>

definition in_run :: "stage_scan \<Rightarrow> run \<Rightarrow> nat \<Rightarrow> string \<Rightarrow> stage_scan option" where
  "in_run sc cur n raw = (let r = cur\<lparr>rn_raw_lines := rn_raw_lines cur @ [raw]\<rparr>; marker = line_marker raw in
     if marker = ''END''
     then map_option (\<lambda>sc'. sc'\<lparr>sc_current := None\<rparr>) (close_run sc (end_run r n raw))
     else Some (sc\<lparr>sc_current := Some (on_record r n marker raw)\<rparr>))"

definition stage_line :: "stage_scan \<Rightarrow> nat \<times> string \<Rightarrow> stage_scan option" where
  "stage_line sc l = (case l of (n, raw) \<Rightarrow>
     if \<not> has_stage_prefix raw then Some sc
     else if line_marker raw = ''ARMED'' then Some (on_armed sc raw)
     else if line_marker raw = ''BEGIN'' then on_begin sc n raw
     else case sc_current sc of None \<Rightarrow> Some sc | Some cur \<Rightarrow> in_run sc cur n raw)"

definition stage_step :: "stage_scan option \<Rightarrow> nat \<times> string \<Rightarrow> stage_scan option" where
  "stage_step s l = Option.bind s (\<lambda>sc. stage_line sc l)"

definition stage_init :: stage_scan where
  "stage_init = \<lparr>sc_runs = [], sc_current = None, sc_armed = Map.empty\<rparr>"

subsection \<open>The result\<close>

record stage_result =
  sr_latest :: "nat option"
  sr_runs :: "validated_run list"

definition latest_complete :: "validated_run list \<Rightarrow> nat option" where
  "latest_complete rs = (let complete = map fst (filter (\<lambda>x. rn_complete (snd x)) (enumerate_from 0 rs)) in
     if complete = [] then None else Some (last complete))"

definition finish_stages :: "stage_scan \<Rightarrow> stage_result option" where
  "finish_stages sc = map_option
     (\<lambda>sc'. \<lparr>sr_latest = latest_complete (sc_runs sc'), sr_runs = sc_runs sc'\<rparr>)
     (case sc_current sc of None \<Rightarrow> Some sc | Some cur \<Rightarrow> close_run sc cur)"

definition parse_stages :: "string \<Rightarrow> stage_result option" where
  "parse_stages src =
     Option.bind (foldl stage_step (Some stage_init) (enumerate_from 1 (splitlines src))) finish_stages"

text \<open>The exit status of \<^verbatim>\<open>main\<close>, with and without \<^verbatim>\<open>--all\<close>.\<close>

definition exit_status :: "bool \<Rightarrow> stage_result \<Rightarrow> int" where
  "exit_status all_runs res =
     (case sr_latest res of
        None \<Rightarrow> 2
      | Some i \<Rightarrow> if \<not> all_runs \<and> \<not> vn_valid (sr_runs res ! i) then 2 else 0)"

subsection \<open>What every run satisfies\<close>

text \<open>Each line of the run became exactly one record, one unparsed entry or the END boundary.\<close>

definition line_count :: "'a run_scheme \<Rightarrow> nat" where
  "line_count r = 1 + length (rn_stages r) + sum_list (map (length \<circ> sg_values) (rn_stages r)) +
     length (rn_orphans r) + length (rn_missed r) +
     length (filter (\<lambda>u. up_kind u \<noteq> ''BEGIN'') (rn_unparsed r)) + of_bool (rn_complete r)"

definition attached :: "stage \<Rightarrow> bool" where
  "attached s \<longleftrightarrow> list_all (\<lambda>x. wf_value x \<and> vr_seq x = sg_seq s) (sg_values s)"

definition good_run :: "'a run_scheme \<Rightarrow> bool" where
  "good_run r \<longleftrightarrow> list_all attached (rn_stages r) \<and> length (rn_raw_lines r) = line_count r"

lemma attached_wf: "attached s \<Longrightarrow> list_all wf_value (sg_values s)"
  by (auto simp: attached_def list_all_iff)

lemma validate_run_total:
  assumes "list_all attached (rn_stages r)"
  shows "\<exists>v. validate_run r = Some v"
proof -
  have "\<exists>vms. those (map value_map_of ss) = Some vms" if "list_all attached ss" for ss
    using that
  proof (induction ss)
    case (Cons s ss)
    obtain vm where "value_map_of s = Some vm"
      using value_map_of_wf [OF attached_wf [of s]] Cons.prems by auto
    with Cons show ?case by auto
  qed simp
  then show ?thesis using assms by (fastforce simp: validate_run_def Let_def)
qed


lemma stages_errors_values:
  "map (\<lambda>s. (sg_seq s, sg_name s, sg_values s)) (snd (stages_errors prev svms)) =
     map (\<lambda>x. (sg_seq (fst x), sg_name (fst x), sg_values (fst x))) svms"
proof (induction svms arbitrary: prev)
  case (Cons x svms)
  then show ?case by (cases x) (simp add: stages_errors_Cons del: stages_errors.simps(2))
qed simp

text \<open>Validation adds entries and topologies; the records of the run are kept.\<close>

lemma validate_run_keeps:
  assumes "validate_run r = Some v"
  shows "map (\<lambda>s. (sg_seq s, sg_name s, sg_values s)) (rn_stages v) =
      map (\<lambda>s. (sg_seq s, sg_name s, sg_values s)) (rn_stages r)"
    and "rn_orphans v = rn_orphans r" "rn_missed v = rn_missed r" "rn_unparsed v = rn_unparsed r"
      "rn_raw_lines v = rn_raw_lines r" "rn_complete v = rn_complete r"
proof -
  from assms obtain vms where "those (map value_map_of (rn_stages r)) = Some vms"
      "rn_stages v = snd (stages_errors None (zip (rn_stages r) vms))"
    by (rule validate_run_Some)
  moreover from this have "map fst (zip (rn_stages r) vms) = rn_stages r"
    by (auto simp: those_map_Some dest: list_all2_lengthD)
  moreover have "map (\<lambda>x. (sg_seq (fst x), sg_name (fst x), sg_values (fst x))) svms =
      map (\<lambda>s. (sg_seq s, sg_name s, sg_values s)) (map fst svms)" for svms :: "(stage \<times> value_map) list"
    by simp
  ultimately show "map (\<lambda>s. (sg_seq s, sg_name s, sg_values s)) (rn_stages v) =
      map (\<lambda>s. (sg_seq s, sg_name s, sg_values s)) (rn_stages r)"
    by (simp only: stages_errors_values)
  obtain ss more where v: "v = run.extend (r\<lparr>rn_stages := ss\<rparr>) more"
    using assms unfolding validate_run_def Let_def by (cases "those (map value_map_of (rn_stages r))") auto
  show "rn_orphans v = rn_orphans r" "rn_missed v = rn_missed r" "rn_unparsed v = rn_unparsed r"
      "rn_raw_lines v = rn_raw_lines r" "rn_complete v = rn_complete r"
    by (simp_all add: v run.defs)
qed

lemma good_run_cong:
  assumes "map (\<lambda>s. (sg_seq s, sg_name s, sg_values s)) (rn_stages v) =
      map (\<lambda>s. (sg_seq s, sg_name s, sg_values s)) (rn_stages r)"
    and "rn_orphans v = rn_orphans r" "rn_missed v = rn_missed r" "rn_unparsed v = rn_unparsed r"
      "rn_raw_lines v = rn_raw_lines r" "rn_complete v = rn_complete r"
  shows "good_run v = good_run r"
proof -
  have l2: "list_all2 (\<lambda>s s'. sg_seq s = sg_seq s' \<and> sg_values s = sg_values s') (rn_stages v) (rn_stages r)"
    using assms(1) by (auto simp: list_all2_conv_all_nth map_equality_iff)
  then have "list_all attached (rn_stages v) = list_all attached (rn_stages r)"
    by (induction rule: list_all2_induct) (auto simp: attached_def)
  moreover from l2 have "map (length \<circ> sg_values) (rn_stages v) = map (length \<circ> sg_values) (rn_stages r)"
    by (induction rule: list_all2_induct) auto
  moreover from l2 have "length (rn_stages v) = length (rn_stages r)" by (rule list_all2_lengthD)
  ultimately show ?thesis using assms(2-) by (simp add: good_run_def line_count_def)
qed

lemma good_run_valid:
  assumes "validate_run r = Some v" and "good_run r"
  shows "good_run v"
  using good_run_cong [OF validate_run_keeps [OF assms(1)]] assms(2) by blast

subsection \<open>Every step keeps it\<close>

definition open_run :: "run \<Rightarrow> bool" where
  "open_run r \<longleftrightarrow> good_run r \<and> \<not> rn_complete r"

lemma new_run_open: "open_run (new_run n raw fs)"
  by (auto simp: new_run_def open_run_def good_run_def line_count_def note_unparsed_def Let_def
      split: sum.splits option.splits)

lemma attach_sum:
  "sum_list (map (length \<circ> sg_values) (map (\<lambda>s. if sg_seq s = q then s\<lparr>sg_values := sg_values s @ [x]\<rparr> else s) ss))
     = sum_list (map (length \<circ> sg_values) ss) + length (filter (\<lambda>s. sg_seq s = q) ss)"
  by (induction ss) simp_all

lemma attach_value_count: "line_count (attach_value r x) = line_count r + 1"
  using attach_sum [of "vr_seq x" x "rn_stages r"]
  by (simp add: attach_value_def line_count_def)

lemma attach_value_attached:
  "wf_value x \<Longrightarrow> list_all attached (rn_stages r) \<Longrightarrow> list_all attached (rn_stages (attach_value r x))"
  by (auto simp: attach_value_def list_all_iff attached_def)

lemma parse_stage_values: "parse_stage n raw fs = Inr s \<Longrightarrow> sg_values s = []"
  by (auto simp: parse_stage_def bind_res_Inr_conv Let_def)

lemma note_unparsed_keeps:
  "rn_stages (note_unparsed n kind e raw r) = rn_stages r"
  "rn_raw_lines (note_unparsed n kind e raw r) = rn_raw_lines r"
  "rn_complete (note_unparsed n kind e raw r) = rn_complete r"
  "kind \<noteq> ''BEGIN'' \<Longrightarrow> line_count (note_unparsed n kind e raw r) = line_count r + 1"
  by (simp_all add: note_unparsed_def line_count_def)

lemma attach_value_raw:
  "rn_raw_lines (attach_value r x) = rn_raw_lines r" "rn_complete (attach_value r x) = rn_complete r"
  by (simp_all add: attach_value_def)

text \<open>A record line is one more line of the run.\<close>

definition one_more :: "run \<Rightarrow> run \<Rightarrow> bool" where
  "one_more r r' \<longleftrightarrow> list_all attached (rn_stages r') \<and> line_count r' = line_count r + 1 \<and>
     rn_raw_lines r' = rn_raw_lines r \<and> rn_complete r' = rn_complete r"

lemma one_more_intros:
  assumes "list_all attached (rn_stages r)"
  shows "kind \<noteq> ''BEGIN'' \<Longrightarrow> one_more r (note_unparsed n kind e raw r)"
    and "sg_values s = [] \<Longrightarrow> one_more r (r\<lparr>rn_stages := rn_stages r @ [s]\<rparr>)"
    and "wf_value x \<Longrightarrow> one_more r (attach_value r x)"
    and "one_more r (r\<lparr>rn_missed := rn_missed r @ [m]\<rparr>)"
  using assms
  by (simp_all add: one_more_def note_unparsed_keeps attach_value_count attach_value_attached attach_value_raw)
    (simp_all add: line_count_def attached_def)

lemma on_record_one_more:
  assumes "list_all attached (rn_stages r)" and "marker \<noteq> ''BEGIN''"
  shows "one_more r (on_record r n marker raw)"
proof -
  note intros = one_more_intros [OF assms(1)]
  consider "marker = ''STAGE''" | "marker = ''VALUE''" | "marker = ''MISSED''"
    | "marker \<notin> {''STAGE'', ''VALUE'', ''MISSED''}" by blast
  then show ?thesis
  proof cases
    case 1
    then show ?thesis
      by (cases "parse_stage n raw (line_fields raw)")
        (auto simp: on_record_def Let_def dest!: parse_stage_values intro: intros)
  next
    case 2
    then show ?thesis
      by (cases "parse_value n raw (line_fields raw)")
        (auto simp: on_record_def Let_def dest!: parse_value_wf intro: intros)
  next
    case 3
    then show ?thesis
      by (cases "parse_missed n raw (line_fields raw)") (auto simp: on_record_def Let_def intro: intros)
  next
    case 4
    with assms(2) show ?thesis by (auto simp: on_record_def Let_def intro!: intros)
  qed
qed

subsection \<open>The scan\<close>

definition good_stages :: "stage_scan option \<Rightarrow> bool" where
  "good_stages s = (case s of None \<Rightarrow> False
     | Some sc \<Rightarrow> list_all good_run (sc_runs sc) \<and> (case sc_current sc of None \<Rightarrow> True | Some r \<Rightarrow> open_run r))"

definition closed_runs :: "stage_scan option \<Rightarrow> validated_run list" where
  "closed_runs s = (case s of None \<Rightarrow> [] | Some sc \<Rightarrow> sc_runs sc)"

definition run_open :: "stage_scan option \<Rightarrow> bool" where
  "run_open s = (case s of None \<Rightarrow> False | Some sc \<Rightarrow> sc_current sc \<noteq> None)"

definition begins_run :: "string \<Rightarrow> bool" where
  "begins_run raw \<longleftrightarrow> has_stage_prefix raw \<and> line_marker raw = ''BEGIN''"

definition moves :: "stage_scan \<Rightarrow> stage_scan \<Rightarrow> bool \<Rightarrow> bool" where
  "moves sc sc' opened \<longleftrightarrow> good_stages (Some sc') \<and>
     (\<exists>vs. sc_runs sc' = sc_runs sc @ vs \<and>
        length vs + of_bool (sc_current sc' \<noteq> None) = of_bool (sc_current sc \<noteq> None) + of_bool opened)"

lemma close_run_good:
  assumes "good_run r" and "list_all good_run (sc_runs sc)"
  shows "\<exists>v. close_run sc r = Some (sc\<lparr>sc_runs := sc_runs sc @ [v]\<rparr>) \<and> good_run v"
proof -
  obtain v where "validate_run r = Some v"
    using validate_run_total assms(1) by (auto simp: good_run_def)
  with good_run_valid [OF this assms(1)] show ?thesis
    by (intro exI [of _ v]) (simp add: close_run_def)
qed

lemma good_stages_open: "good_stages (Some sc) \<Longrightarrow> sc_current sc = Some r \<Longrightarrow> open_run r"
  by (simp add: good_stages_def)

lemma good_stages_runs: "good_stages (Some sc) \<Longrightarrow> list_all good_run (sc_runs sc)"
  by (simp add: good_stages_def)

lemma on_begin_moves:
  assumes "good_stages (Some sc)"
  shows "\<exists>sc'. on_begin sc n raw = Some sc' \<and> moves sc sc' True"
proof -
  have new: "open_run (new_run n raw fs\<lparr>rn_armed := a\<rparr>)" for fs a
    using new_run_open [of n raw fs] by (simp add: open_run_def good_run_def line_count_def)
  show ?thesis
  proof (cases "sc_current sc")
    case None
    with assms new show ?thesis by (simp add: on_begin_def Let_def moves_def good_stages_def)
  next
    case (Some cur)
    obtain v where "close_run sc cur = Some (sc\<lparr>sc_runs := sc_runs sc @ [v]\<rparr>)" "good_run v"
      using close_run_good good_stages_open [OF assms Some] good_stages_runs [OF assms]
      unfolding open_run_def by blast
    with Some assms new show ?thesis by (simp add: on_begin_def Let_def moves_def good_stages_def)
  qed
qed

lemma in_run_moves:
  assumes "good_stages (Some sc)" and "sc_current sc = Some cur" and "line_marker raw \<noteq> ''BEGIN''"
  shows "\<exists>sc'. in_run sc cur n raw = Some sc' \<and> moves sc sc' False"
proof -
  let ?r = "cur\<lparr>rn_raw_lines := rn_raw_lines cur @ [raw]\<rparr>"
  have good: "good_run cur" "\<not> rn_complete cur"
    using good_stages_open [OF assms(1,2)] by (simp_all add: open_run_def)
  show ?thesis
  proof (cases "line_marker raw = ''END''")
    case True
    have "good_run (end_run ?r n raw)"
      using good by (simp add: end_run_def good_run_def line_count_def)
    then obtain v where "close_run sc (end_run ?r n raw) = Some (sc\<lparr>sc_runs := sc_runs sc @ [v]\<rparr>)" "good_run v"
      using close_run_good good_stages_runs [OF assms(1)] by blast
    with True assms(1,2) show ?thesis by (simp add: in_run_def Let_def moves_def good_stages_def)
  next
    case False
    have "one_more ?r (on_record ?r n (line_marker raw) raw)"
      using good assms(3) by (intro on_record_one_more) (simp_all add: good_run_def)
    moreover have "length (rn_raw_lines ?r) = line_count ?r + 1"
      using good by (simp add: good_run_def line_count_def)
    ultimately have "open_run (on_record ?r n (line_marker raw) raw)"
      using good(2) by (simp add: one_more_def good_run_def open_run_def)
    with False assms(1,2) show ?thesis
      by (simp add: in_run_def Let_def moves_def good_stages_def)
  qed
qed

lemma stage_line_moves:
  assumes "good_stages (Some sc)"
  shows "\<exists>sc'. stage_line sc (n, raw) = Some sc' \<and> moves sc sc' (begins_run raw)"
proof -
  consider "\<not> has_stage_prefix raw" | "has_stage_prefix raw" "line_marker raw = ''ARMED''"
    | "begins_run raw" | "has_stage_prefix raw" "line_marker raw \<noteq> ''ARMED''" "\<not> begins_run raw"
    by (auto simp: begins_run_def)
  then show ?thesis
  proof cases
    case 1
    with assms show ?thesis by (simp add: stage_line_def moves_def begins_run_def)
  next
    case 2
    have "sc_runs (on_armed sc raw) = sc_runs sc \<and> sc_current (on_armed sc raw) = sc_current sc"
      by (simp add: on_armed_def Let_def split: option.splits sum.splits)
    with 2 assms show ?thesis by (simp add: stage_line_def moves_def begins_run_def good_stages_def)
  next
    case 3
    with on_begin_moves [OF assms, of n raw] show ?thesis by (simp add: stage_line_def begins_run_def)
  next
    case 4
    then have "line_marker raw \<noteq> ''BEGIN''" by (simp add: begins_run_def)
    with 4 in_run_moves [OF assms] assms show ?thesis
      by (cases "sc_current sc") (simp_all add: stage_line_def moves_def)
  qed
qed

lemma stage_step_moves:
  assumes "good_stages s"
  shows "good_stages (stage_step s l)"
    and "\<exists>vs. closed_runs (stage_step s l) = closed_runs s @ vs"
    and "length (closed_runs (stage_step s l)) + of_bool (run_open (stage_step s l))
      = length (closed_runs s) + of_bool (run_open s) + of_bool (begins_run (snd l))"
proof -
  obtain sc where s: "s = Some sc" using assms by (cases s) (auto simp: good_stages_def)
  obtain sc' where sc': "stage_step s l = Some sc'" "moves sc sc' (begins_run (snd l))"
    using stage_line_moves [OF assms [unfolded s], of "fst l" "snd l"] by (auto simp: stage_step_def s)
  then show "good_stages (stage_step s l)"
    and "\<exists>vs. closed_runs (stage_step s l) = closed_runs s @ vs"
    and "length (closed_runs (stage_step s l)) + of_bool (run_open (stage_step s l))
      = length (closed_runs s) + of_bool (run_open s) + of_bool (begins_run (snd l))"
    by (auto simp: moves_def closed_runs_def run_open_def s)
qed

interpretation stage_scanner: block_scan stage_step good_stages closed_runs run_open begins_run
  by unfold_locales (fact stage_step_moves)+

lemma finish_stages_good:
  assumes "good_stages (Some sc)"
  shows "\<exists>res. finish_stages sc = Some res \<and> list_all good_run (sr_runs res) \<and>
    length (sr_runs res) = length (sc_runs sc) + of_bool (sc_current sc \<noteq> None) \<and>
    sr_latest res = latest_complete (sr_runs res)"
proof (cases "sc_current sc")
  case None
  with assms show ?thesis by (simp add: finish_stages_def good_stages_def)
next
  case (Some cur)
  obtain v where "close_run sc cur = Some (sc\<lparr>sc_runs := sc_runs sc @ [v]\<rparr>)" "good_run v"
    using close_run_good good_stages_open [OF assms Some] good_stages_runs [OF assms]
    unfolding open_run_def by blast
  with Some assms show ?thesis by (simp add: finish_stages_def good_stages_def)
qed

lemma parse_stages_result:
  "\<exists>res. parse_stages src = Some res \<and> list_all good_run (sr_runs res) \<and>
     length (sr_runs res) = length (filter begins_run (splitlines src)) \<and>
     sr_latest res = latest_complete (sr_runs res)"
proof -
  let ?ls = "enumerate_from 1 (splitlines src)"
  let ?s = "foldl stage_step (Some stage_init) ?ls"
  have init: "good_stages (Some stage_init)" by (simp add: good_stages_def stage_init_def)
  from stage_scanner.scan_good [OF init] have good: "good_stages ?s" .
  then obtain sc where sc: "?s = Some sc" by (cases ?s) (auto simp: good_stages_def)
  have "length (sc_runs sc) + of_bool (sc_current sc \<noteq> None) = length (filter begins_run (splitlines src))"
    using stage_scanner.scan_count [OF init, of ?ls, unfolded sc]
    by (simp add: closed_runs_def run_open_def filter_enumerate_from) (simp add: stage_init_def)
  with finish_stages_good [of sc] good sc show ?thesis by (auto simp: parse_stages_def)
qed

subsection \<open>Properties of the stage decoder\<close>

text \<open>C32: No kernel log makes the stage decoder raise, and its result has exactly one run for each
  BEGIN line of the log.\<close>

theorem parse_stages_total:
  "\<exists>res. parse_stages src = Some res \<and>
     length (sr_runs res) = length (filter begins_run (splitlines src))"
  using parse_stages_result by blast

text \<open>C16: Nothing inside a run disappears and nothing is attached to a wrong stage: every line the run
  kept is accounted for by exactly one stage, register value, orphan, probe counter, unread line or
  boundary, and each stage holds only 32-bit values that carry its own number.\<close>

theorem parse_stages_accounts:
  assumes "parse_stages src = Some res" and "r \<in> set (sr_runs res)"
  shows "length (rn_raw_lines r) = line_count r \<and>
    (\<forall>s \<in> set (rn_stages r). \<forall>x \<in> set (sg_values s). vr_seq x = sg_seq s \<and> wf_value x)"
proof -
  from parse_stages_result [of src] assms have "good_run r" by (auto simp: list_all_iff)
  then show ?thesis by (auto simp: good_run_def attached_def list_all_iff)
qed

lemma latest_complete_snoc:
  "latest_complete (rs @ [r]) = (if rn_complete r then Some (length rs) else latest_complete rs)"
  by (simp add: latest_complete_def Let_def enumerate_from_eq enumerate_append_eq)

lemma latest_complete_Some:
  "latest_complete rs = Some i \<longleftrightarrow>
     i < length rs \<and> rn_complete (rs ! i) \<and> (\<forall>j < length rs. i < j \<longrightarrow> \<not> rn_complete (rs ! j))"
proof (induction rs rule: rev_induct)
  case Nil
  then show ?case by (simp add: latest_complete_def)
next
  case (snoc r rs)
  then show ?case by (auto simp: latest_complete_snoc nth_append less_Suc_eq)
qed

lemma latest_complete_None: "latest_complete rs = None \<longleftrightarrow> (\<forall>r \<in> set rs. \<not> rn_complete r)"
proof (induction rs rule: rev_induct)
  case Nil
  then show ?case by (simp add: latest_complete_def)
next
  case (snoc r rs)
  then show ?case by (auto simp: latest_complete_snoc)
qed

text \<open>C15: The decoder exits with status 0 exactly when the last run that has both delimiters is valid;
  a later unfinished run does not hide it, and an earlier valid one does not excuse it. With
  \<^verbatim>\<open>--all\<close> the status only says whether some run is complete.\<close>

theorem exit_status_zero:
  assumes "parse_stages src = Some res"
  shows "(exit_status False res = 0 \<longleftrightarrow> (\<exists>i < length (sr_runs res). rn_complete (sr_runs res ! i) \<and>
      (\<forall>j < length (sr_runs res). i < j \<longrightarrow> \<not> rn_complete (sr_runs res ! j)) \<and> vn_valid (sr_runs res ! i))) \<and>
    (exit_status True res = 0 \<longleftrightarrow> (\<exists>r \<in> set (sr_runs res). rn_complete r))"
proof -
  have latest: "sr_latest res = latest_complete (sr_runs res)"
    using parse_stages_result [of src] assms by auto
  show ?thesis
  proof (cases "latest_complete (sr_runs res)")
    case None
    then have "\<not> rn_complete r" if "r \<in> set (sr_runs res)" for r
      using that by (simp add: latest_complete_None)
    with None latest show ?thesis by (auto simp: exit_status_def)
  next
    case (Some i)
    note last = Some [unfolded latest_complete_Some]
    have uniq: "k = i" if "k < length (sr_runs res)" "rn_complete (sr_runs res ! k)"
        "\<forall>j < length (sr_runs res). k < j \<longrightarrow> \<not> rn_complete (sr_runs res ! j)" for k
      using that last by (metis linorder_neqE_nat)
    from last have "\<exists>r \<in> set (sr_runs res). rn_complete r" by (auto intro: nth_mem)
    with uniq last latest Some show ?thesis by (auto simp: exit_status_def)
  qed
qed

text \<open>A log with one stage, one value that belongs to it and one that belongs to no stage.\<close>

definition sample_log :: string where
  "sample_log = ''x cmp100_stage_ro BEGIN bdf=a records=1 dropped=0'' @ [CHR 0x0A] @
     ''cmp100_stage_ro STAGE seq=0 name=n start_ns=1 end_ns=2 pid=3 rc=0 post=0 invalid=0'' @ [CHR 0x0A] @
     ''cmp100_stage_ro VALUE seq=0 reg=0x200 value=0x1000'' @ [CHR 0x0A] @
     ''cmp100_stage_ro VALUE seq=7 reg=0x200 value=0x1000'' @ [CHR 0x0A] @
     ''cmp100_stage_ro END bdf=a''"

lemma sample_log_begins: "length (filter begins_run (splitlines sample_log)) = 1"
  by code_simp

lemma sample_log_run: "\<exists>res r. parse_stages sample_log = Some res \<and> sr_runs res = [r]"
  using parse_stages_result [of sample_log] by (auto simp: sample_log_begins length_Suc_conv)

lemma parse_stages_accounts_witness:
  "\<exists>res r. parse_stages sample_log = Some res \<and> sr_runs res = [r] \<and> length (rn_raw_lines r) = line_count r \<and>
    (\<forall>s \<in> set (rn_stages r). \<forall>x \<in> set (sg_values s). vr_seq x = sg_seq s)"
proof -
  obtain res r where res: "parse_stages sample_log = Some res" "sr_runs res = [r]"
    using sample_log_run by blast
  then have "r \<in> set (sr_runs res)" by simp
  from parse_stages_accounts [OF res(1) this] res show ?thesis by blast
qed

lemma exit_status_zero_witness:
  "\<exists>res r. parse_stages sample_log = Some res \<and> sr_runs res = [r] \<and>
    (exit_status False res = 0 \<longleftrightarrow> rn_complete r \<and> vn_valid r) \<and> (exit_status True res = 0 \<longleftrightarrow> rn_complete r)"
proof -
  obtain res r where res: "parse_stages sample_log = Some res" "sr_runs res = [r]"
    using sample_log_run by blast
  with exit_status_zero [OF res(1)] show ?thesis by simp
qed

end
