(* ===== verification/PyBytes.thy ===== *)
theory PyBytes
  imports PyText
begin

text \<open>
  Byte strings, \<^verbatim>\<open>struct\<close> and slices. A byte is an \<^typ>\<open>8 word\<close>; a \<^verbatim>\<open>bytes\<close> or
  \<^verbatim>\<open>bytearray\<close> value is a list of them. Reading a field that does not fit raises
  \<^verbatim>\<open>struct.error\<close>, here \<^term>\<open>None\<close>; a slice is clamped to the length, as in Python. The
  laws of 32-bit fields in a buffer are stated once, as an interface the payload builders use.
\<close>

type_synonym byte = "8 word"
type_synonym bytes = "byte list"

subsection \<open>Little-endian integers\<close>

fun le_value :: "bytes \<Rightarrow> int" where
  "le_value [] = 0"
| "le_value (b # bs) = uint b + 256 * le_value bs"

fun le_bytes :: "nat \<Rightarrow> int \<Rightarrow> bytes" where
  "le_bytes 0 v = []"
| "le_bytes (Suc n) v = word_of_int v # le_bytes n (v div 256)"

lemma length_le_bytes [simp]: "length (le_bytes n v) = n"
  by (induction n arbitrary: v) simp_all

lemma uint_byte_bounds: "0 \<le> uint (b :: byte) \<and> uint b < 256"
  using uint_bounded [of b] by simp

lemma le_value_bounds: "0 \<le> le_value bs \<and> le_value bs < 256 ^ length bs"
proof (induction bs)
  case (Cons b bs)
  then show ?case using uint_byte_bounds [of b] by simp
qed simp

lemma le_value_le_bytes: "le_value (le_bytes n v) = v mod 256 ^ n"
proof (induction n arbitrary: v)
  case (Suc n)
  have "uint (word_of_int v :: byte) = v mod 256" by (simp add: uint_word_of_int)
  with Suc show ?case by (simp add: zmod_zmult2_eq mult.commute)
qed simp

lemma le_bytes_le_value: "le_bytes (length bs) (le_value bs) = bs"
proof (induction bs)
  case (Cons b bs)
  have "(uint b + 256 * le_value bs) div 256 = le_value bs"
    using uint_byte_bounds [of b] by simp
  moreover have "word_of_int (uint b + 256 * le_value bs) = b"
  proof -
    have "uint (word_of_int (uint b + 256 * le_value bs) :: byte) = uint b"
      using uint_byte_bounds [of b] by (simp only: uint_word_of_int) simp
    then show ?thesis by (simp only: word_uint_eq_iff)
  qed
  ultimately show ?case using Cons by simp
qed simp

lemma le_bytes_cong: "v mod 256 ^ n = w mod 256 ^ n \<Longrightarrow> le_bytes n v = le_bytes n w"
  by (metis le_bytes_le_value le_value_le_bytes length_le_bytes)

interpretation le_text: codec "le_bytes w" "\<lambda>bs. if length bs = w then Some (le_value bs) else None"
  "\<lambda>v. 0 \<le> v \<and> v < 256 ^ w" for w
  by unfold_locales (simp add: le_value_le_bytes)

subsection \<open>Fields and slices\<close>

text \<open>\<^verbatim>\<open>data[a:b]\<close> for \<^verbatim>\<open>0 <= a <= b\<close>\<close>

definition slice :: "nat \<Rightarrow> nat \<Rightarrow> 'a list \<Rightarrow> 'a list" where
  "slice a b xs = take (b - a) (drop a xs)"

text \<open>\<^verbatim>\<open>struct.unpack_from\<close> with one field of the given width.\<close>

definition get_field :: "nat \<Rightarrow> bytes \<Rightarrow> nat \<Rightarrow> int option" where
  "get_field w bs off = (if off + w \<le> length bs then Some (le_value (slice off (off + w) bs)) else None)"

definition get_u16 :: "bytes \<Rightarrow> nat \<Rightarrow> int option" where "get_u16 = get_field 2"
definition get_u32 :: "bytes \<Rightarrow> nat \<Rightarrow> int option" where "get_u32 = get_field 4"

text \<open>\<^verbatim>\<open>out[off:off + len(xs)] = xs\<close>\<close>

definition splice :: "bytes \<Rightarrow> nat \<Rightarrow> bytes \<Rightarrow> bytes" where
  "splice bs off xs = take off bs @ xs @ drop (off + length xs) bs"

text \<open>\<^verbatim>\<open>struct.pack_into("<I", out, off, value & 0xFFFFFFFF)\<close> where the field fits.\<close>

definition store_u32 :: "bytes \<Rightarrow> nat \<Rightarrow> int \<Rightarrow> bytes" where
  "store_u32 bs off v = splice bs off (le_bytes 4 (v AND 0xFFFFFFFF))"

lemma length_splice: "off + length xs \<le> length bs \<Longrightarrow> length (splice bs off xs) = length bs"
  by (simp add: splice_def)

lemma splice_nth:
  assumes "off + length xs \<le> length bs" and "i < length bs"
  shows "splice bs off xs ! i = (if off \<le> i \<and> i < off + length xs then xs ! (i - off) else bs ! i)"
  using assms by (auto simp: splice_def nth_append min_def)

lemma slice_eqI:
  assumes "b \<le> length xs" and "b \<le> length ys" and "\<And>i. a \<le> i \<Longrightarrow> i < b \<Longrightarrow> xs ! i = ys ! i"
  shows "slice a b xs = slice a b ys"
  using assms by (auto simp: slice_def intro!: nth_equalityI)

lemma slice_splice_same: "off + length xs \<le> length bs \<Longrightarrow> slice off (off + length xs) (splice bs off xs) = xs"
  by (simp add: slice_def splice_def)

lemma and_u32: "(v :: int) AND 0xFFFFFFFF = v mod 2 ^ 32"
  using take_bit_eq_mask [of 32 v] by (simp add: take_bit_eq_mod mask_eq_exp_minus_1)

subsection \<open>A buffer of 32-bit fields\<close>

text \<open>
  What the builders use of a buffer: a stored field is read back, a field elsewhere is untouched,
  and the size stays. Proved once for every such buffer: after a list of aligned stores, each
  aligned field holds the last value stored there, or what it held before.
\<close>

locale field_buffer =
  fixes get :: "'m \<Rightarrow> nat \<Rightarrow> int option"
    and put :: "'m \<Rightarrow> nat \<Rightarrow> int \<Rightarrow> 'm"
    and size_of :: "'m \<Rightarrow> nat"
  assumes get_put_same: "off + 4 \<le> size_of m \<Longrightarrow> get (put m off v) off = Some (v mod 2 ^ 32)"
    and get_put_other: "off + 4 \<le> size_of m \<Longrightarrow> off + 4 \<le> off' \<or> off' + 4 \<le> off \<Longrightarrow>
      get (put m off v) off' = get m off'"
    and size_put: "off + 4 \<le> size_of m \<Longrightarrow> size_of (put m off v) = size_of m"
begin

definition put_all :: "'m \<Rightarrow> (nat \<times> int) list \<Rightarrow> 'm" where
  "put_all m ws = foldl (\<lambda>m x. put m (fst x) (snd x)) m ws"

definition fits :: "'m \<Rightarrow> (nat \<times> int) list \<Rightarrow> bool" where
  "fits m ws \<longleftrightarrow> list_all (\<lambda>x. fst x mod 4 = 0 \<and> fst x + 4 \<le> size_of m) ws"

lemma aligned_apart: "(a::nat) mod 4 = 0 \<Longrightarrow> b mod 4 = 0 \<Longrightarrow> a \<noteq> b \<Longrightarrow> a + 4 \<le> b \<or> b + 4 \<le> a"
  by presburger

lemma size_put_all: "fits m ws \<Longrightarrow> size_of (put_all m ws) = size_of m"
  by (induction ws arbitrary: m) (simp_all add: put_all_def fits_def size_put)

lemma get_put_all:
  assumes "fits m ws" and "off mod 4 = 0"
  shows "get (put_all m ws) off =
    (case map_of (rev ws) off of Some v \<Rightarrow> Some (v mod 2 ^ 32) | None \<Rightarrow> get m off)"
  using assms(1)
proof (induction ws rule: rev_induct)
  case Nil
  then show ?case by (simp add: put_all_def)
next
  case (snoc x ws)
  then have fit: "fits m ws" "fst x mod 4 = 0" "fst x + 4 \<le> size_of (put_all m ws)"
    by (simp_all add: fits_def size_put_all)
  have step: "put_all m (ws @ [x]) = put (put_all m ws) (fst x) (snd x)" by (simp add: put_all_def)
  show ?case
  proof (cases "fst x = off")
    case True
    with fit step show ?thesis by (cases x) (simp add: get_put_same)
  next
    case False
    with aligned_apart [OF fit(2) assms(2)] have "get (put_all m (ws @ [x])) off = get (put_all m ws) off"
      unfolding step by (intro get_put_other fit(3)) blast
    with False snoc.IH fit(1) show ?thesis by (cases x) simp
  qed
qed

end

lemma store_u32_size: "off + 4 \<le> length bs \<Longrightarrow> length (store_u32 bs off v) = length bs"
  by (simp add: store_u32_def length_splice)

lemma store_u32_same: "off + 4 \<le> length bs \<Longrightarrow> get_u32 (store_u32 bs off v) off = Some (v mod 2 ^ 32)"
  using slice_splice_same [of off "le_bytes 4 (v AND 0xFFFFFFFF)" bs]
  by (simp add: get_u32_def get_field_def store_u32_size)
    (simp add: store_u32_def le_value_le_bytes and_u32)

lemma store_u32_nth:
  "off + 4 \<le> length bs \<Longrightarrow> i < length bs \<Longrightarrow> i < off \<or> off + 4 \<le> i \<Longrightarrow> store_u32 bs off v ! i = bs ! i"
  by (auto simp: store_u32_def splice_nth)

lemma store_u32_other:
  assumes "off + 4 \<le> length bs" and "off + 4 \<le> off' \<or> off' + 4 \<le> off"
  shows "get_u32 (store_u32 bs off v) off' = get_u32 bs off'"
proof (cases "off' + 4 \<le> length bs")
  case True
  have "slice off' (off' + 4) (store_u32 bs off v) = slice off' (off' + 4) bs"
    using True assms by (intro slice_eqI) (auto simp: store_u32_size store_u32_nth)
  with True assms show ?thesis by (simp add: get_u32_def get_field_def store_u32_size)
qed (use assms in \<open>simp add: get_u32_def get_field_def store_u32_size\<close>)

interpretation u32_buffer: field_buffer get_u32 store_u32 length
  by unfold_locales (simp_all add: store_u32_same store_u32_other store_u32_size)

lemma get_field_bounds:
  assumes "get_field w cfg offset = Some v"
  shows "0 \<le> v \<and> v < 256 ^ w"
proof -
  have "offset + w \<le> length cfg" and v: "v = le_value (slice offset (offset + w) cfg)"
    using assms by (auto simp: get_field_def split: if_splits)
  then have "length (slice offset (offset + w) cfg) = w" by (simp add: slice_def)
  then show ?thesis using le_value_bounds [of "slice offset (offset + w) cfg"] v by simp
qed

end
