(* ===== verification/Payloads.thy ===== *)
theory Payloads
  imports PyBytes
begin

text \<open>
  \<^verbatim>\<open>tools/build_payloads.py\<close>: the three firmware images derived from the stock files, and
  the checked reads and writes around them. SHA-256 is the parameter \<open>digest\<close>; a
  \<^verbatim>\<open>SystemExit\<close> is a constructor of \<open>build_error\<close>. Files written before a failure stay
  written, so \<^verbatim>\<open>main\<close> returns them with the error.
\<close>

subsection \<open>Pinned digests\<close>

definition STOCK_FECS_SHA :: string where
  "STOCK_FECS_SHA = ''8b636da582662995aa5ed3b8f530299a8aca801934657c85e6a031fb8fd1eab1''"
definition STOCK_BL_SHA :: string where
  "STOCK_BL_SHA = ''01326cc997716bebb0eab9fe1f463fffa0ee586079e4ca0e5bb096ab6fcfedab''"
definition STOCK_UCODE_SHA :: string where
  "STOCK_UCODE_SHA = ''b349f0355548716770531eb9082544bb84de059f17bbf3952fb09dd27d8673d4''"
definition CUSTOM_FECS_SHA :: string where
  "CUSTOM_FECS_SHA = ''0c6916d57cd46780261bdf4e9dd5c81691f3c1685d1b1e5ea8b266e14d2ea95e''"
definition CUSTOM_BL_SHA :: string where
  "CUSTOM_BL_SHA = ''7ede4b56759a5e4276604c7bd7e7d6c82016192c019d6d9244e6b2002dbcaa9c''"
definition CUSTOM_UCODE_SHA :: string where
  "CUSTOM_UCODE_SHA = ''5bb3828d1b3e8782749b3a9bfcbfc746e88f4ff3ca041c87eea8b4a1eb003b33''"
definition PCIE_POLICY_UCODE_SHA :: string where
  "PCIE_POLICY_UCODE_SHA = ''f5827fe768a62289fc8080877eb01eacb271b030dbf15c1b43e702f17dacf524''"
definition PCIE_VECTOR_UCODE_SHA :: string where
  "PCIE_VECTOR_UCODE_SHA = ''4c658410b734a022d603e766429b1779647850dbd04e9fde3963e378e024d4e2''"

datatype build_error =
    StructError
  | NegativeExtension
  | ExpectedFalconId2
  | CaveNotZero
  | UnexpectedBinSize
  | UnexpectedDataOffset
  | UnexpectedDataSize
  | SizeMismatch nat nat
  | DigestMismatch string string
  | InternalMismatch string string string

definition checked_read :: "(bytes \<Rightarrow> string) \<Rightarrow> bytes \<Rightarrow> string \<Rightarrow> nat \<Rightarrow> build_error + bytes" where
  "checked_read digest blob expected_hash expected_size =
     bind_res (ensure (length blob = expected_size) (SizeMismatch (length blob) expected_size)) (\<lambda>_.
     bind_res (ensure (digest blob = expected_hash) (DigestMismatch (digest blob) expected_hash)) (\<lambda>_.
       Inr blob))"

subsection \<open>Builders\<close>

definition put_u32 :: "bytes \<Rightarrow> nat \<Rightarrow> int \<Rightarrow> build_error + bytes" where
  "put_u32 blob off v = (if off + 4 \<le> length blob then Inr (store_u32 blob off v) else Inl StructError)"

definition unpack_u32 :: "bytes \<Rightarrow> nat \<Rightarrow> build_error + int" where
  "unpack_u32 blob off = of_option StructError (get_u32 blob off)"

definition build_fecs :: "bytes \<Rightarrow> build_error + bytes" where
  "build_fecs stock =
     bind_res (unpack_u32 stock 0x48) (\<lambda>falcon.
     bind_res (ensure (falcon = 2) ExpectedFalconId2) (\<lambda>_.
     bind_res (put_u32 stock 0x4C 1) (\<lambda>out.
       put_u32 out 0x54 0x504)))"

definition bl_cave :: bytes where
  "bl_cave = [0xdf, 0xde, 0xc0, 0xde, 0xc0, 0x09, 0x40, 0xf7, 0x9f, 0x00, 0xf8, 0x02]"

definition build_bl :: "bytes \<Rightarrow> build_error + bytes" where
  "build_bl stock =
     bind_res (ensure (\<not> list_ex (\<lambda>b. b \<noteq> 0) (slice 0x370 (0x370 + length bl_cave) stock)) CaveNotZero) (\<lambda>_.
       Inr (splice stock 0x370 bl_cave))"

definition initial_words :: "int \<Rightarrow> int \<Rightarrow> (nat \<times> int) list" where
  "initial_words v target =
     [(0x8C70, 0x00000002), (0x8C74, 0x00000300), (0x8C78, 0x00000001), (0x8C84, 0x00000002),
      (0x8C88, 0x00000400), (0x8C8C, v), (0x8C90, target), (0x8C94, 0x000033C8), (0x8C98, 0x00001000),
      (0x8C9C, 0x00000002), (0x8CA0, 0x000033C8), (0x8CA4, 0x00000C00), (0x8CB8, 0x00002DF0),
      (0x8CC4, 0x00000176)]"

definition restore_words :: "(nat \<times> int) list" where
  "restore_words =
     [(0x8CBC, 0x00005BB8), (0x8CC0, 0x00000A09), (0x8CC4, 0x00001FF9), (0x8CC8, 0x00005B8C),
      (0x8CCC, 0x000033C8), (0x8CD0, 0x00000000), (0x8CD4, 0x00000000), (0x8CD8, 0x00001FF9),
      (0x8CDC, 0x00000000), (0x8CE0, 0x00005BE4), (0x8CE4, 0x00000000), (0x8CE8, 0x00000000),
      (0x8CEC, 0x00000573), (0x8CF0, 0x00000000), (0x8CF4, 0x00000000), (0x8CF8, 0x00005C38),
      (0x8CFC, 0x00000B2A), (0x8D00, 0xFFFFFFB4), (0x8D04, 0x000008E6)]"

text \<open>\<^verbatim>\<open>for offset, value in words.items(): put_u32(out, offset, value)\<close>\<close>

fun put_words :: "bytes \<Rightarrow> (nat \<times> int) list \<Rightarrow> build_error + bytes" where
  "put_words out [] = Inr out"
| "put_words out ((off, v) # ws) = bind_res (put_u32 out off v) (\<lambda>out'. put_words out' ws)"

definition extend_zero :: "bytes \<Rightarrow> nat \<Rightarrow> build_error + bytes" where
  "extend_zero out n = (if n < length out then Inl NegativeExtension else Inr (out @ replicate (n - length out) 0))"

definition check_field :: "bytes \<Rightarrow> nat \<Rightarrow> int \<Rightarrow> build_error \<Rightarrow> build_error + unit" where
  "check_field stock off wanted e = bind_res (unpack_u32 stock off) (\<lambda>v. ensure (v = wanted) e)"

definition build_ucode_write :: "bytes \<Rightarrow> int \<Rightarrow> int \<Rightarrow> build_error + bytes" where
  "build_ucode_write stock v target =
     bind_res (check_field stock 0x08 0x4900 UnexpectedBinSize) (\<lambda>_.
     bind_res (check_field stock 0x10 0x200 UnexpectedDataOffset) (\<lambda>_.
     bind_res (check_field stock 0x14 0x4700 UnexpectedDataSize) (\<lambda>_.
     bind_res (extend_zero stock 0x8E00) (\<lambda>out.
     bind_res (put_u32 out 0x08 0x8E00) (\<lambda>out.
     bind_res (put_u32 out 0x14 0x8C00) (\<lambda>out.
     bind_res (put_words out (initial_words v target)) (\<lambda>out.
       put_words out restore_words)))))))"

definition build_ucode :: "bytes \<Rightarrow> build_error + bytes" where
  "build_ucode stock = build_ucode_write stock 0x00000888 0x00409664"

subsection \<open>The run\<close>

type_synonym artifact = "string \<times> bytes"

text \<open>\<^verbatim>\<open>write_checked\<close> for each artifact in turn; the first failure stops the run.\<close>

fun write_outputs :: "(bytes \<Rightarrow> string) \<Rightarrow> artifact list \<Rightarrow> (string \<times> (build_error + bytes) \<times> string) list
    \<Rightarrow> artifact list \<times> build_error option" where
  "write_outputs digest files [] = (files, None)"
| "write_outputs digest files ((name, built, expected) # rest) =
     (case built of
        Inl e \<Rightarrow> (files, Some e)
      | Inr blob \<Rightarrow>
          if digest blob \<noteq> expected then (files, Some (InternalMismatch name (digest blob) expected))
          else write_outputs digest (files @ [(name, blob)]) rest)"

definition artifacts :: "bytes \<Rightarrow> bytes \<Rightarrow> bytes \<Rightarrow> (string \<times> (build_error + bytes) \<times> string) list" where
  "artifacts fecs bl ucode =
     [(''fecs_sig.candidate-c-504.bin'', build_fecs fecs, CUSTOM_FECS_SHA),
      (''bl.load-candidate-c.bin'', build_bl bl, CUSTOM_BL_SHA),
      (''ucode_load.tensor-success-lsb-restore.bin'', build_ucode ucode, CUSTOM_UCODE_SHA),
      (''ucode_load.pcie-policy-88610-1.bin'', build_ucode_write ucode 0x00000001 0x00088610, PCIE_POLICY_UCODE_SHA),
      (''ucode_load.pcie-vector-8872c-6.bin'', build_ucode_write ucode 0x00000006 0x0008872C, PCIE_VECTOR_UCODE_SHA)]"

definition build_main :: "(bytes \<Rightarrow> string) \<Rightarrow> bytes \<Rightarrow> bytes \<Rightarrow> bytes \<Rightarrow> artifact list \<times> build_error option" where
  "build_main digest fecs bl ucode =
     (case bind_res (checked_read digest fecs STOCK_FECS_SHA 0xC0) (\<lambda>f.
           bind_res (checked_read digest bl STOCK_BL_SHA 0x500) (\<lambda>b.
           bind_res (checked_read digest ucode STOCK_UCODE_SHA 0x4900) (\<lambda>u. Inr (f, b, u)))) of
        Inl e \<Rightarrow> ([], Some e)
      | Inr (f, b, u) \<Rightarrow> write_outputs digest [] (artifacts f b u))"

subsection \<open>The writes of a payload\<close>

definition header_words :: "(nat \<times> int) list" where
  "header_words = [(0x08, 0x8E00), (0x14, 0x8C00)]"

definition all_words :: "int \<Rightarrow> int \<Rightarrow> (nat \<times> int) list" where
  "all_words v target = header_words @ initial_words v target @ restore_words"

lemma all_words_fit: "length out = 0x8E00 \<Longrightarrow> u32_buffer.fits out (all_words v target)"
  by (simp add: u32_buffer.fits_def all_words_def header_words_def initial_words_def restore_words_def)

lemma put_words_fit:
  "u32_buffer.fits out ws \<Longrightarrow> put_words out ws = Inr (u32_buffer.put_all out ws)"
proof (induction ws arbitrary: out)
  case (Cons x ws)
  then have "u32_buffer.fits (store_u32 out (fst x) (snd x)) ws"
    by (simp add: u32_buffer.fits_def store_u32_size)
  with Cons show ?case
    by (cases x) (simp add: u32_buffer.fits_def u32_buffer.put_all_def put_u32_def)
qed (simp add: u32_buffer.put_all_def)

lemma put_words_append:
  "put_words out (ws @ ws') = bind_res (put_words out ws) (\<lambda>out'. put_words out' ws')"
  by (induction out ws rule: put_words.induct) (auto simp: bind_res_def split: sum.splits)

lemma check_field_Inr [simp]: "check_field stock off wanted e = Inr u \<longleftrightarrow> get_u32 stock off = Some wanted"
  by (auto simp: check_field_def unpack_u32_def bind_res_Inr_conv)

text \<open>The headers the builder insists on, and the buffer it starts from.\<close>

definition ucode_header :: "bytes \<Rightarrow> bool" where
  "ucode_header stock \<longleftrightarrow> length stock \<le> 0x8E00 \<and> get_u32 stock 0x08 = Some 0x4900 \<and>
     get_u32 stock 0x10 = Some 0x200 \<and> get_u32 stock 0x14 = Some 0x4700"

definition padded :: "bytes \<Rightarrow> bytes" where
  "padded stock = stock @ replicate (0x8E00 - length stock) 0"

lemma build_ucode_write_Inr:
  "build_ucode_write stock v target = Inr out \<longleftrightarrow>
     ucode_header stock \<and> out = u32_buffer.put_all (padded stock) (all_words v target)"
proof (cases "length stock \<le> 0x8E00")
  case True
  then have len: "length (padded stock) = 0x8E00" by (simp add: padded_def)
  have ext: "extend_zero stock 0x8E00 = Inr (padded stock)" using True by (simp add: extend_zero_def padded_def)
  have words: "bind_res (put_u32 (padded stock) 0x08 0x8E00) (\<lambda>out.
      bind_res (put_u32 out 0x14 0x8C00) (\<lambda>out. bind_res (put_words out (initial_words v target)) (\<lambda>out.
      put_words out restore_words))) = put_words (padded stock) (all_words v target)"
    by (simp add: all_words_def header_words_def put_words_append)
  show ?thesis
    using True by (auto simp: build_ucode_write_def bind_res_Inr_conv [of "check_field _ _ _ _"] ext words
        put_words_fit [OF all_words_fit [OF len]] ucode_header_def)
next
  case False
  then show ?thesis by (auto simp: build_ucode_write_def bind_res_Inr_conv extend_zero_def ucode_header_def)
qed


lemma padded_fits: "ucode_header stock \<Longrightarrow> u32_buffer.fits (padded stock) (all_words v target)"
  by (rule all_words_fit) (simp add: ucode_header_def padded_def)

lemma payload_field:
  assumes "build_ucode_write stock v target = Inr out" and "off mod 4 = 0"
  shows "get_u32 out off = (case map_of (rev (all_words v target)) off of
    Some w \<Rightarrow> Some (w mod 2 ^ 32) | None \<Rightarrow> get_u32 (padded stock) off)"
  using assms u32_buffer.get_put_all [OF padded_fits] by (auto simp: build_ucode_write_Inr)

lemma payload_length: "build_ucode_write stock v target = Inr out \<Longrightarrow> length out = 0x8E00"
  using u32_buffer.size_put_all [OF padded_fits]
  by (auto simp: build_ucode_write_Inr padded_def ucode_header_def)

lemma restore_words_distinct: "distinct (map fst restore_words)"
  by (simp add: restore_words_def)

lemma restore_words_aligned: "list_all (\<lambda>x. fst x mod 4 = 0) restore_words"
  by (simp add: restore_words_def)

lemma restore_words_last:
  assumes "(off, w) \<in> set restore_words"
  shows "map_of (rev (all_words v target)) off = Some w \<and> off mod 4 = 0"
proof -
  have "map_of (rev restore_words) off = Some w"
    using assms restore_words_distinct by (simp add: map_of_eq_Some_iff rev_map [symmetric])
  moreover have "off mod 4 = 0" using assms restore_words_aligned by (auto simp: list_all_iff)
  ultimately show ?thesis by (simp add: all_words_def)
qed

lemma initial_words_last:
  "(off, w) \<in> set (initial_words v target) \<Longrightarrow> off \<noteq> 0x8CC4 \<Longrightarrow>
     map_of (rev (all_words v target)) off = Some w \<and> off mod 4 = 0"
  by (auto simp: restore_words_def all_words_def header_words_def initial_words_def)

text \<open>C9: A payload that is built has exactly the documented layout: 0x8E00 bytes, the two patched header
  words, every restore word, every initial word except the one the restore chain overwrites at
  0x8CC4, the value and the target register truncated to 32 bits, and in every other aligned word
  the stock image extended with zeros.\<close>

theorem build_ucode_layout:
  assumes "build_ucode_write stock v target = Inr out"
  shows "length out = 0x8E00 \<and> get_u32 out 0x08 = Some 0x8E00 \<and> get_u32 out 0x14 = Some 0x8C00 \<and>
    get_u32 out 0x8C8C = Some (v mod 2 ^ 32) \<and> get_u32 out 0x8C90 = Some (target mod 2 ^ 32) \<and>
    (\<forall>(off, w) \<in> set restore_words. get_u32 out off = Some w) \<and>
    (\<forall>(off, w) \<in> set (initial_words v target). off \<noteq> 0x8CC4 \<longrightarrow> get_u32 out off = Some (w mod 2 ^ 32)) \<and>
    (\<forall>off. off mod 4 = 0 \<and> off \<notin> fst ` set (all_words v target) \<longrightarrow>
      get_u32 out off = get_u32 (stock @ replicate (0x8E00 - length stock) 0) off)"
proof -
  note field = payload_field [OF assms]
  have initial: "get_u32 out off = Some (w mod 2 ^ 32)"
    if "(off, w) \<in> set (initial_words v target)" "off \<noteq> 0x8CC4" for off w
    using initial_words_last [OF that] field by simp
  have restore: "get_u32 out off = Some w" if "(off, w) \<in> set restore_words" for off w
  proof -
    have "0 \<le> w \<and> w < 2 ^ 32" using that by (auto simp: restore_words_def)
    then show ?thesis using restore_words_last [OF that, of v target] field by simp
  qed
  have header: "get_u32 out 0x08 = Some 0x8E00" "get_u32 out 0x14 = Some 0x8C00"
    by (simp_all add: field all_words_def header_words_def initial_words_def restore_words_def)
  have other: "get_u32 out off = get_u32 (stock @ replicate (0x8E00 - length stock) 0) off"
    if "off mod 4 = 0" "off \<notin> fst ` set (all_words v target)" for off
  proof -
    have "map_of (rev (all_words v target)) off = None" using that(2) by (simp add: map_of_eq_None_iff)
    then show ?thesis using field [OF that(1)] by (simp add: padded_def)
  qed
  have "(0x8C8C, v) \<in> set (initial_words v target)" "(0x8C90, target) \<in> set (initial_words v target)"
    by (simp_all add: initial_words_def)
  with header initial restore other payload_length [OF assms] show ?thesis by auto
qed

text \<open>Equal words are equal bytes.\<close>

lemma get_u32_bytes:
  assumes "get_u32 xs off = get_u32 ys off" and "off + 4 \<le> length xs" and "off + 4 \<le> length ys"
    and "off \<le> i" and "i < off + 4"
  shows "xs ! i = ys ! i"
proof -
  have "le_value (slice off (off + 4) xs) = le_value (slice off (off + 4) ys)"
    using assms(1-3) by (simp add: get_u32_def get_field_def)
  moreover have "length (slice off (off + 4) xs) = 4" "length (slice off (off + 4) ys) = 4"
    using assms(2,3) by (simp_all add: slice_def)
  ultimately have "slice off (off + 4) xs = slice off (off + 4) ys" by (metis le_bytes_le_value)
  then have "slice off (off + 4) xs ! (i - off) = slice off (off + 4) ys ! (i - off)" by simp
  with assms(2-5) show ?thesis by (simp add: slice_def)
qed

text \<open>The write request is isolated: two payloads built from the same stock image, for whatever
  values and target registers, have the same length and differ in no byte outside the value word at
  0x8C8C and the target word at 0x8C90.\<close>

lemma build_ucode_isolated:
  assumes "build_ucode_write stock v target = Inr out" and "build_ucode_write stock v' target' = Inr out'"
    and "i < 0x8E00" and "i < 0x8C8C \<or> 0x8C94 \<le> i"
  shows "length out = length out' \<and> out ! i = out' ! i"
proof -
  define off where "off = i - i mod 4"
  have al: "off mod 4 = 0" "off \<le> i" "i < off + 4" "off + 4 \<le> 0x8E00" "off < 0x8C8C \<or> 0x8C94 \<le> off"
    using assms(3,4) unfolding off_def by presburger+
  have "map_of (rev (all_words v target)) off = map_of (rev (all_words v' target')) off"
    using al(5) by (auto simp: all_words_def header_words_def initial_words_def restore_words_def)
  then have "get_u32 out off = get_u32 out' off"
    using payload_field [OF assms(1) al(1)] payload_field [OF assms(2) al(1)] by simp
  from get_u32_bytes [OF this _ _ al(2,3)] al(4) payload_length [OF assms(1)] payload_length [OF assms(2)]
  show ?thesis by simp
qed

text \<open>The builder accepts exactly the images it documents: at most 0x8E00 bytes with the expected
  bin size, data offset and data size fields; every other input raises and yields no payload.\<close>

lemma build_ucode_accepts:
  "(\<exists>out. build_ucode_write stock v target = Inr out) \<longleftrightarrow>
     length stock \<le> 0x8E00 \<and> get_u32 stock 0x08 = Some 0x4900 \<and> get_u32 stock 0x10 = Some 0x200 \<and>
     get_u32 stock 0x14 = Some 0x4700"
  by (simp add: build_ucode_write_Inr ucode_header_def)

lemma bl_cave_length [simp]: "length bl_cave = 12"
  by (simp add: bl_cave_def)

text \<open>The two small builders change only what they name. The bootloader keeps its length and every
  byte outside the twelve bytes of the code cave, which were all zero before; the signature keeps
  every byte outside the words at 0x4C and 0x54, which become 1 and 0x504.\<close>

lemma small_patches_local:
  assumes "build_bl bl = Inr bl'" and "0x37C \<le> length bl" and "build_fecs fecs = Inr fecs'"
  shows "length bl' = length bl \<and> slice 0x370 0x37C bl' = bl_cave \<and> slice 0x370 0x37C bl = replicate 12 0 \<and>
      (\<forall>i < length bl. i < 0x370 \<or> 0x37C \<le> i \<longrightarrow> bl' ! i = bl ! i) \<and>
    length fecs' = length fecs \<and> get_u32 fecs' 0x4C = Some 1 \<and> get_u32 fecs' 0x54 = Some 0x504 \<and>
      (\<forall>i < length fecs. i < 0x4C \<or> 0x50 \<le> i \<and> i < 0x54 \<or> 0x58 \<le> i \<longrightarrow> fecs' ! i = fecs ! i)"
proof -
  have bl: "bl' = splice bl 0x370 bl_cave" "\<forall>b \<in> set (slice 0x370 0x37C bl). b = 0"
    using assms(1) by (auto simp: build_bl_def bind_res_Inr_conv list_ex_iff)
  have cave: "slice 0x370 0x37C bl' = bl_cave"
    using slice_splice_same [where off = "0x370" and xs = bl_cave and bs = bl] assms(2) by (simp add: bl(1))
  have zero: "slice 0x370 0x37C bl = replicate 12 0"
    using bl(2) assms(2) by (intro replicate_eqI) (simp_all add: slice_def)
  from assms(3) have f: "0x58 \<le> length fecs" "fecs' = store_u32 (store_u32 fecs 0x4C 1) 0x54 0x504"
    by (auto simp: build_fecs_def bind_res_Inr_conv put_u32_def store_u32_size split: if_splits)
  have "get_u32 fecs' 0x4C = Some 1"
    using f by (simp add: store_u32_other store_u32_same store_u32_size)
  with bl zero cave f assms(2) show ?thesis
    by (auto simp: length_splice splice_nth store_u32_size store_u32_same store_u32_nth)
qed

subsection \<open>Checked output\<close>

text \<open>Every file of the run and its pinned digest.\<close>

definition pinned :: "(string \<times> string) list" where
  "pinned = map (\<lambda>(name, built, expected). (name, expected)) (artifacts [] [] [])"

lemma write_outputs_prefix:
  assumes "write_outputs digest files items = (files', err)"
  shows "\<exists>ws. files' = files @ ws \<and> length ws \<le> length items \<and> (err = None \<longleftrightarrow> length ws = length items) \<and>
    (\<forall>k < length ws. fst (ws ! k) = fst (items ! k) \<and> fst (snd (items ! k)) = Inr (snd (ws ! k)) \<and>
       digest (snd (ws ! k)) = snd (snd (items ! k)))"
  using assms
proof (induction digest files items rule: write_outputs.induct)
  case (1 digest files)
  then show ?case by simp
next
  case (2 digest files name built expected rest)
  show ?case
  proof (cases "\<exists>blob. built = Inr blob \<and> digest blob = expected")
    case False
    with "2.prems" have "files' = files" "err \<noteq> None" by (auto split: sum.splits if_splits)
    then show ?thesis by simp
  next
    case True
    then obtain blob where blob: "built = Inr blob" "digest blob = expected" by blast
    with "2.prems" have "write_outputs digest (files @ [(name, blob)]) rest = (files', err)" by simp
    from "2.IH" [OF blob(1) _ this] blob(2) obtain ws where ws:
      "files' = (files @ [(name, blob)]) @ ws" "length ws \<le> length rest" "(err = None) = (length ws = length rest)"
      "\<forall>k < length ws. fst (ws ! k) = fst (rest ! k) \<and> fst (snd (rest ! k)) = Inr (snd (ws ! k)) \<and>
         digest (snd (ws ! k)) = snd (snd (rest ! k))" by blast
    then show ?thesis
      using blob by (intro exI [of _ "(name, blob) # ws"]) (auto simp: less_Suc_eq_0_disj)
  qed
qed

text \<open>C10: Nothing unverified is ever written. Whatever the digest function, the files on disk after the
  run are a prefix of the five artifacts, each with its pinned digest; the run ends without an
  error exactly when all five are there, and only if the three stock images had their pinned sizes
  and digests.\<close>

theorem build_main_verified:
  assumes "build_main digest fecs bl ucode = (files, err)"
  shows "map (\<lambda>(name, blob). (name, digest blob)) files = take (length files) pinned \<and>
    (err = None \<longleftrightarrow> length files = 5) \<and>
    (files \<noteq> [] \<longrightarrow> length fecs = 0xC0 \<and> length bl = 0x500 \<and> length ucode = 0x4900 \<and>
       digest fecs = STOCK_FECS_SHA \<and> digest bl = STOCK_BL_SHA \<and> digest ucode = STOCK_UCODE_SHA)"
proof -
  let ?in = "bind_res (checked_read digest fecs STOCK_FECS_SHA 0xC0) (\<lambda>f.
    bind_res (checked_read digest bl STOCK_BL_SHA 0x500) (\<lambda>b.
    bind_res (checked_read digest ucode STOCK_UCODE_SHA 0x4900) (\<lambda>u. Inr (f, b, u))))"
  show ?thesis
  proof (cases ?in)
    case (Inl e)
    then show ?thesis using assms by (auto simp: build_main_def)
  next
    case (Inr y)
    then have y: "y = (fecs, bl, ucode)" and stock: "length fecs = 0xC0 \<and> length bl = 0x500 \<and> length ucode = 0x4900 \<and>
        digest fecs = STOCK_FECS_SHA \<and> digest bl = STOCK_BL_SHA \<and> digest ucode = STOCK_UCODE_SHA"
      by (auto simp: bind_res_Inr_conv checked_read_def)
    have "write_outputs digest [] (artifacts fecs bl ucode) = (files, err)"
      using assms Inr y by (simp add: build_main_def)
    from write_outputs_prefix [OF this] have ws: "length files \<le> 5" "(err = None) = (length files = 5)"
      "\<forall>k < length files. fst (files ! k) = fst (artifacts fecs bl ucode ! k) \<and>
         digest (snd (files ! k)) = snd (snd (artifacts fecs bl ucode ! k))"
      by (auto simp: artifacts_def)
    have pins: "pinned = map (\<lambda>x. (fst x, snd (snd x))) (artifacts fecs bl ucode)"
      by (simp add: pinned_def artifacts_def)
    have "length pinned = 5" by (simp add: pinned_def artifacts_def)
    with ws have "map (\<lambda>(name, blob). (name, digest blob)) files = take (length files) pinned"
      by (intro nth_equalityI) (simp_all add: pins case_prod_unfold)
    with stock ws show ?thesis by simp
  qed
qed


subsection \<open>Concrete inputs\<close>

definition sample_ucode :: bytes where
  "sample_ucode = replicate 8 0 @ le_bytes 4 0x4900 @ replicate 4 0 @ le_bytes 4 0x200 @ le_bytes 4 0x4700"

lemma sample_ucode_header: "ucode_header sample_ucode"
  by (simp add: ucode_header_def sample_ucode_def get_u32_def get_field_def slice_def le_value_le_bytes)

lemma sample_ucode_built: "\<exists>out. build_ucode_write sample_ucode v target = Inr out"
  by (simp add: build_ucode_write_Inr sample_ucode_header)

lemma build_ucode_layout_witness:
  "\<exists>out. build_ucode_write sample_ucode 0x888 0x409664 = Inr out \<and> length out = 0x8E00 \<and>
     get_u32 out 0x8C8C = Some 0x888 \<and> get_u32 out 0x8C90 = Some 0x409664"
proof -
  obtain out where out: "build_ucode_write sample_ucode 0x888 0x409664 = Inr out"
    using sample_ucode_built by blast
  from build_ucode_layout [OF out] out show ?thesis by simp
qed

definition sample_bl :: bytes where "sample_bl = replicate 0x500 0"
definition sample_fecs :: bytes where "sample_fecs = replicate 0x48 0 @ le_bytes 4 2 @ replicate 0x74 0"

lemma slice_replicate: "b \<le> n \<Longrightarrow> slice a b (replicate n x) = replicate (b - a) x"
  by (simp add: slice_def)

lemma sample_bl_built: "build_bl sample_bl = Inr (splice sample_bl 0x370 bl_cave)"
  by (simp add: build_bl_def sample_bl_def slice_replicate list_ex_iff)

lemma sample_fecs_built:
  "build_fecs sample_fecs = Inr (store_u32 (store_u32 sample_fecs 0x4C 1) 0x54 0x504)"
proof -
  have "get_u32 sample_fecs 0x48 = Some 2"
    by (simp add: get_u32_def get_field_def slice_def sample_fecs_def le_value_le_bytes)
  then show ?thesis by (simp add: build_fecs_def unpack_u32_def put_u32_def store_u32_size)
      (simp add: sample_fecs_def)
qed

text \<open>A digest that tells the sample images apart, and a bootloader without a free cave.\<close>

definition sample_digest :: "bytes \<Rightarrow> string" where
  "sample_digest blob = (if length blob = 0x500 then STOCK_BL_SHA
     else if length blob = 0x4900 then STOCK_UCODE_SHA
     else if get_u32 blob 0x4C = Some 1 then CUSTOM_FECS_SHA else STOCK_FECS_SHA)"

lemma build_main_verified_witness:
  "\<exists>files err. build_main sample_digest sample_fecs (replicate 0x500 1) (replicate 0x4900 0) = (files, err) \<and>
     files \<noteq> [] \<and> map (\<lambda>(name, blob). (name, sample_digest blob)) files = take (length files) pinned"
proof -
  let ?run = "build_main sample_digest sample_fecs (replicate 0x500 1) (replicate 0x4900 0)"
  let ?f = "store_u32 (store_u32 sample_fecs 0x4C 1) 0x54 0x504"
  have len: "length sample_fecs = 0xC0" by (simp add: sample_fecs_def)
  then have f: "get_u32 ?f 0x4C = Some 1" "length ?f = 0xC0"
    by (simp_all add: store_u32_other store_u32_same store_u32_size)
  have "get_u32 sample_fecs 0x4C = Some 0"
    by (simp add: get_u32_def get_field_def slice_def sample_fecs_def numeral_eq_Suc)
  with len f have "fst ?run \<noteq> []"
    by (simp add: build_main_def checked_read_def sample_digest_def artifacts_def sample_fecs_built
        build_bl_def slice_replicate list_ex_iff)
  moreover obtain files err where run: "?run = (files, err)" by fastforce
  ultimately show ?thesis using build_main_verified [OF run] by simp
qed

end
