(* ===== verification/BitCount.thy ===== *)
theory BitCount
  imports Prelude
begin

text \<open>
  Python's \<^verbatim>\<open>int.bit_count\<close> on the non-negative masks the topology tools use, with the two
  facts their arithmetic rests on: clearing the lowest set bit removes exactly one, and disjoint
  masks add up.
\<close>

function bit_count :: "int \<Rightarrow> int" where
  "bit_count v = (if v \<le> 0 then 0 else v mod 2 + bit_count (v div 2))"
  by auto
termination by (relation "measure nat") auto

declare bit_count.simps [simp del]

lemma bit_count_0 [simp]: "bit_count 0 = 0"
  by (simp add: bit_count.simps)

lemma bit_count_pos: "0 < v \<Longrightarrow> bit_count v = v mod 2 + bit_count (v div 2)"
  by (subst bit_count.simps) simp

lemma bit_count_step: "0 \<le> v \<Longrightarrow> bit_count v = v mod 2 + bit_count (v div 2)"
  by (cases "v = 0") (simp_all add: bit_count_pos)

lemma bit_count_nonneg: "0 \<le> bit_count v"
proof (induction v rule: bit_count.induct)
  case (1 v)
  then show ?case by (cases "v \<le> 0") (simp_all add: bit_count.simps [of v])
qed

lemma and_step: "((a::int) AND b) div 2 = (a div 2) AND (b div 2)" "((a::int) AND b) mod 2 = (a mod 2) * (b mod 2)"
proof -
  have "drop_bit 1 (a AND b) = drop_bit 1 a AND drop_bit 1 b" by (rule drop_bit_and)
  then show "(a AND b) div 2 = (a div 2) AND (b div 2)" by (simp add: drop_bit_eq_div)
  show "(a AND b) mod 2 = (a mod 2) * (b mod 2)"
    by (cases "even a"; cases "even b") (auto simp: even_and_iff mod_2_eq_odd)
qed

lemma or_step: "((a::int) OR b) div 2 = (a div 2) OR (b div 2)"
  "((a::int) OR b) mod 2 = a mod 2 + b mod 2 - (a mod 2) * (b mod 2)"
proof -
  have "drop_bit 1 (a OR b) = drop_bit 1 a OR drop_bit 1 b" by (rule drop_bit_or)
  then show "(a OR b) div 2 = (a div 2) OR (b div 2)" by (simp add: drop_bit_eq_div)
  show "(a OR b) mod 2 = a mod 2 + b mod 2 - (a mod 2) * (b mod 2)"
    by (cases "even a"; cases "even b") (auto simp: even_or_iff mod_2_eq_odd)
qed

text \<open>\<^verbatim>\<open>mask & (mask - 1)\<close>\<close>

lemma clear_lowest_count: "0 < m \<Longrightarrow> bit_count (m AND (m - 1)) = bit_count m - 1"
proof (induction m rule: bit_count.induct)
  case (1 m)
  have "0 \<le> m AND (m - 1)" using "1.prems" by simp
  then have step: "bit_count (m AND (m - 1)) = (m mod 2) * ((m - 1) mod 2) + bit_count (m div 2 AND (m - 1) div 2)"
    by (subst bit_count_step) (simp_all add: and_step)
  show ?case
  proof (cases "even m")
    case True
    then have "(m - 1) div 2 = m div 2 - 1" "0 < m div 2" "m mod 2 = 0" using "1.prems" by presburger+
    with "1.IH" "1.prems" step show ?thesis by (simp add: bit_count_pos)
  next
    case False
    then have "(m - 1) div 2 = m div 2" "m mod 2 = 1" "(m - 1) mod 2 = 0" by presburger+
    with step "1.prems" show ?thesis by (simp add: bit_count_pos)
  qed
qed

lemma bit_count_disjoint:
  "0 \<le> a \<Longrightarrow> 0 \<le> b \<Longrightarrow> a AND b = 0 \<Longrightarrow> bit_count (a OR b) = bit_count a + bit_count b"
proof (induction a arbitrary: b rule: bit_count.induct)
  case (1 a)
  show ?case
  proof (cases "a = 0")
    case False
    then have a: "0 < a" using "1.prems" by simp
    have "0 \<le> b div 2" "0 \<le> a div 2" using "1.prems" by simp_all
    moreover have "(a div 2) AND (b div 2) = 0" "(a mod 2) * (b mod 2) = 0"
      using "1.prems"(3) and_step [of a b] by simp_all
    ultimately have ih: "bit_count (a div 2 OR b div 2) = bit_count (a div 2) + bit_count (b div 2)"
      and m: "(a OR b) mod 2 = a mod 2 + b mod 2"
      using "1.IH" a by (simp_all add: or_step)
    have "0 \<le> a OR b" using "1.prems" by simp
    with ih m "1.prems" show ?thesis
      using bit_count_step [of "a OR b"] bit_count_step [of a] bit_count_step [of b] by (simp add: or_step)
  qed simp
qed

lemma bit_count_and_le: "0 \<le> a \<Longrightarrow> 0 \<le> b \<Longrightarrow> bit_count (a AND b) \<le> bit_count a"
proof (induction a arbitrary: b rule: bit_count.induct)
  case (1 a)
  show ?case
  proof (cases "a = 0")
    case False
    then have "bit_count (a div 2 AND b div 2) \<le> bit_count (a div 2)" using "1" by simp
    moreover have "(a mod 2) * (b mod 2) \<le> a mod 2"
      by (cases "even a"; cases "even b") (auto simp: mod_2_eq_odd)
    moreover have "0 \<le> a AND b" using "1.prems" by simp
    ultimately show ?thesis
      using bit_count_step [of "a AND b"] bit_count_step [of a] "1.prems" by (simp add: and_step)
  qed simp
qed

lemma bit_count_eq_0_iff: "0 \<le> v \<Longrightarrow> bit_count v = 0 \<longleftrightarrow> v = 0"
proof -
  assume v: "0 \<le> v"
  have "v = 0" if "bit_count v = 0"
  proof (rule ccontr)
    assume "v \<noteq> 0"
    with v have "bit_count (v AND (v - 1)) = - 1" using clear_lowest_count [of v] that by simp
    with bit_count_nonneg [of "v AND (v - 1)"] show False by simp
  qed
  then show ?thesis by auto
qed

text \<open>Seven bits, as in every mask of the topology registers.\<close>

lemma bit_count_7: "0 \<le> v \<Longrightarrow> v \<le> 0x7F \<Longrightarrow> bit_count v \<le> 7"
proof -
  assume v: "0 \<le> v" "v \<le> 0x7F"
  have le: "bit_count w \<le> int k" if "0 \<le> w" "w < 2 ^ k" for w :: int and k
    using that
  proof (induction k arbitrary: w)
    case 0
    then show ?case by (simp add: bit_count.simps)
  next
    case (Suc k)
    have "bit_count (w div 2) \<le> int k" using Suc.prems by (intro Suc.IH) auto
    with Suc.prems show ?case using bit_count_step [of w] by simp
  qed
  from le [of v 7] v show "bit_count v \<le> 7" by simp
qed

end
