(* ===== verification/TpcRequest.thy ===== *)
theory TpcRequest
  imports BitCount
begin

text \<open>
  \<^verbatim>\<open>model\<close> of \<^verbatim>\<open>tools/analyze_v100_tpc_request.py\<close>: a request of \<open>count\<close> TPCs
  clears that many bits from the six CTRL masks, each time the lowest set bit of the first mask
  with the most bits left. A \<^verbatim>\<open>ValueError\<close> of \<^verbatim>\<open>require\<close> is \<open>InvalidModelInput\<close>.
\<close>

subsection \<open>The model\<close>

datatype request_error = InvalidModelInput

datatype request_reason = ZeroRequest | ExceedsCtrlBits | GuardZero | ConditionalWriteback

record request_result =
  rq_reason :: request_reason
  rq_selected :: "nat list option"
  rq_writes :: "(int \<times> int) list"

text \<open>\<^verbatim>\<open>max(range(n), key=lambda i: counts[i])\<close>: the first index with the largest count.\<close>

fun first_max_from :: "nat \<Rightarrow> int \<Rightarrow> nat \<Rightarrow> int list \<Rightarrow> nat" where
  "first_max_from best v i [] = best"
| "first_max_from best v i (c # cs) =
     (if v < c then first_max_from i c (Suc i) cs else first_max_from best v (Suc i) cs)"

definition first_max :: "int list \<Rightarrow> nat" where
  "first_max cs = first_max_from 0 (hd cs) 1 (tl cs)"

text \<open>One turn of the loop: masks, counts and the slots selected so far.\<close>

type_synonym request_state = "int list \<times> int list \<times> nat list"

definition select_slot :: "request_state \<Rightarrow> request_state" where
  "select_slot st = (case st of (masks, counts, selected) \<Rightarrow>
     let index = first_max counts in
       (masks[index := (masks ! index) AND (masks ! index - 1)], counts[index := counts ! index - 1],
        selected @ [index]))"

fun select_slots :: "nat \<Rightarrow> request_state \<Rightarrow> request_state" where
  "select_slots 0 st = st"
| "select_slots (Suc n) st = select_slots n (select_slot st)"

definition request_masks :: "int list \<Rightarrow> int list" where
  "request_masks ctrl = map (\<lambda>v. v AND 0x7f) ctrl"

definition tpc_request :: "int list \<Rightarrow> int \<Rightarrow> int \<Rightarrow> int \<Rightarrow> request_error + request_result" where
  "tpc_request ctrl count guard active =
     bind_res (ensure (length ctrl = 6 \<and> 0 \<le> count \<and> count \<le> 255) InvalidModelInput) (\<lambda>_.
       let masks = request_masks ctrl; counts = map bit_count masks in
       if count = 0 then Inr \<lparr>rq_reason = ZeroRequest, rq_selected = None, rq_writes = []\<rparr>
       else if count > sum_list counts
       then Inr \<lparr>rq_reason = ExceedsCtrlBits, rq_selected = None, rq_writes = []\<rparr>
       else (case select_slots (nat count) (masks, counts, []) of (masks', counts', selected) \<Rightarrow>
         if guard AND 0xff = 0
         then Inr \<lparr>rq_reason = GuardZero, rq_selected = Some selected, rq_writes = []\<rparr>
         else Inr \<lparr>rq_reason = ConditionalWriteback, rq_selected = Some selected,
                   rq_writes = map (\<lambda>i. (0x21838 + 4 * int i, masks' ! i))
                     (filter (\<lambda>i. active AND push_bit i 1 \<noteq> 0) [0..<6])\<rparr>))"

subsection \<open>The selection\<close>

lemma first_max_from_bounds:
  assumes "best < i" and "\<forall>k < i. xs ! k \<le> v" and "xs ! best = v" and "drop i xs = cs" and "i \<le> length xs"
    and "\<forall>k < best. xs ! k < v"
  shows "first_max_from best v i cs < length xs \<and>
    (\<forall>k < length xs. xs ! k \<le> xs ! first_max_from best v i cs) \<and>
    (\<forall>k < first_max_from best v i cs. xs ! k < xs ! first_max_from best v i cs)"
  using assms
proof (induction best v i cs rule: first_max_from.induct)
  case (1 best v i)
  then have "length xs = i" by simp
  with 1 show ?case by simp
next
  case (2 best v i c cs)
  from "2.prems"(4) have i: "i < length xs" by (metis drop_all leI list.distinct(1))
  with "2.prems"(4) have c: "xs ! i = c" "drop (Suc i) xs = cs"
    by (metis Cons_nth_drop_Suc list.inject)+
  show ?case
  proof (cases "v < c")
    case True
    have "\<forall>k < Suc i. xs ! k \<le> c" "\<forall>k < i. xs ! k < c"
      using "2.prems"(2) True c by (auto simp: less_Suc_eq intro: order_trans le_less_trans)
    from "2.IH"(1) [OF True lessI this(1) c(1,2) Suc_leI [OF i] this(2)] show ?thesis
      unfolding first_max_from.simps if_P [OF True] .
  next
    case False
    have "\<forall>k < Suc i. xs ! k \<le> v" using "2.prems"(2) False c by (auto simp: less_Suc_eq)
    from "2.IH"(2) [OF False less_SucI [OF "2.prems"(1)] this "2.prems"(3) c(2) Suc_leI [OF i] "2.prems"(6)]
    show ?thesis unfolding first_max_from.simps if_not_P [OF False] .
  qed
qed

lemma first_max_max:
  assumes "xs \<noteq> []"
  shows "first_max xs < length xs" and "k < length xs \<Longrightarrow> xs ! k \<le> xs ! first_max xs"
proof -
  obtain y ys where xs: "xs = y # ys" using assms by (cases xs) auto
  have "first_max xs < length xs \<and> (\<forall>k < length xs. xs ! k \<le> xs ! first_max xs)"
    using first_max_from_bounds [of 0 1 xs y ys] by (simp add: first_max_def xs)
  then show "first_max xs < length xs" and "k < length xs \<Longrightarrow> xs ! k \<le> xs ! first_max xs" by auto
qed

text \<open>What the loop keeps: the counts are those of the masks, no mask gains a bit, each slot has lost
  as many bits as it was selected, and a selected slot stays within one bit of every other.\<close>

definition request_inv :: "int list \<Rightarrow> request_state \<Rightarrow> bool" where
  "request_inv orig st = (case st of (masks, counts, selected) \<Rightarrow>
     length masks = length orig \<and> counts = map bit_count masks \<and>
     (\<forall>i < length orig. 0 \<le> masks ! i \<and> masks ! i AND orig ! i = masks ! i \<and>
        bit_count (masks ! i) + int (count_list selected i) = bit_count (orig ! i)) \<and>
     (\<forall>i \<in> set selected. i < length orig \<and> (\<forall>j < length orig. counts ! j \<le> counts ! i + 1)))"

definition bits_left :: "request_state \<Rightarrow> int" where
  "bits_left st = sum_list (fst (snd st))"

lemma max_positive:
  assumes "0 < sum_list xs"
  shows "0 < xs ! first_max (xs :: int list)"
proof (rule ccontr)
  assume neg: "\<not> 0 < xs ! first_max xs"
  have "x \<le> 0" if "x \<in> set xs" for x
  proof -
    from that obtain k where "k < length xs" "x = xs ! k" by (auto simp: in_set_conv_nth)
    with first_max_max(2) [of xs k] neg that show ?thesis by fastforce
  qed
  then have "sum_list xs \<le> 0" by (rule sum_list_nonpos)
  with assms show False by simp
qed

lemma sum_list_update_int: "k < length xs \<Longrightarrow> sum_list (xs[k := x]) = sum_list xs - xs ! k + (x :: int)"
  by (induction xs arbitrary: k) (auto split: nat.splits)

lemma select_slot_step:
  assumes "request_inv orig st" and "0 < bits_left st"
  shows "request_inv orig (select_slot st)" and "bits_left (select_slot st) = bits_left st - 1"
    and "length (snd (snd (select_slot st))) = length (snd (snd st)) + 1"
proof -
  obtain masks counts selected where st: "st = (masks, counts, selected)" by (cases st)
  let ?i = "first_max counts"
  have inv: "length masks = length orig" "counts = map bit_count masks"
    "\<forall>k < length orig. 0 \<le> masks ! k \<and> masks ! k AND orig ! k = masks ! k \<and>
        bit_count (masks ! k) + int (count_list selected k) = bit_count (orig ! k)"
    "\<forall>k \<in> set selected. k < length orig \<and> (\<forall>j < length orig. counts ! j \<le> counts ! k + 1)"
    using assms(1) unfolding request_inv_def st prod.case by blast+
  have pos: "0 < counts ! ?i" using max_positive assms(2) by (simp add: bits_left_def st)
  have ne: "counts \<noteq> []" using assms(2) by (auto simp: bits_left_def st)
  have i: "?i < length orig" using first_max_max(1) [OF ne] inv(1,2) by simp
  have le: "counts ! j \<le> counts ! ?i" if "j < length orig" for j
    using first_max_max(2) [OF ne] that inv(1,2) by simp
  have mpos: "0 < masks ! ?i"
    using pos i inv bit_count_eq_0_iff [of "masks ! ?i"] by (simp add: order_less_le)
  have cleared: "bit_count (masks ! ?i AND (masks ! ?i - 1)) = counts ! ?i - 1"
    using clear_lowest_count [OF mpos] i inv by simp
  have "masks ! ?i AND (masks ! ?i - 1) AND orig ! ?i = masks ! ?i AND (masks ! ?i - 1)"
    using inv(3) i by (metis and.assoc and.commute)
  then have kept: "0 \<le> masks ! ?i AND (masks ! ?i - 1) \<and>
      (masks ! ?i AND (masks ! ?i - 1)) AND orig ! ?i = masks ! ?i AND (masks ! ?i - 1)"
    using mpos by (simp add: and.assoc)
  have sel: "k < length orig \<and> counts ! j \<le> counts ! k + 1" if "k \<in> set selected" "j < length orig" for k j
    using inv(4) that by blast
  define counts' where "counts' = counts[?i := counts ! ?i - 1]"
  have at: "counts' ! j = (if j = ?i then counts ! j - 1 else counts ! j)" if "j < length orig" for j
    using that i inv(1,2) by (simp add: counts'_def nth_list_update)
  have bal: "k < length orig \<and> (\<forall>j < length orig. counts' ! j \<le> counts' ! k + 1)"
    if "k \<in> set (selected @ [?i])" for k
  proof (cases "k = ?i")
    case True
    with i le show ?thesis by (simp add: at)
  next
    case False
    with that have k: "k \<in> set selected" by simp
    have "counts' ! j \<le> counts' ! k + 1" if "j < length orig" for j
      using sel [OF k that] that False by (auto simp: at)
    with sel [OF k i] show ?thesis by blast
  qed
  have slots: "0 \<le> masks[?i := masks ! ?i AND (masks ! ?i - 1)] ! k \<and>
      masks[?i := masks ! ?i AND (masks ! ?i - 1)] ! k AND orig ! k = masks[?i := masks ! ?i AND (masks ! ?i - 1)] ! k \<and>
      bit_count (masks[?i := masks ! ?i AND (masks ! ?i - 1)] ! k) + int (count_list (selected @ [?i]) k)
        = bit_count (orig ! k)" if "k < length orig" for k
  proof (cases "k = ?i")
    case True
    have "counts ! ?i = bit_count (masks ! ?i)" using i inv(1,2) by simp
    with True kept cleared inv(3) i inv(1) show ?thesis by simp
  next
    case False
    with inv(3) that show ?thesis by simp
  qed
  have "map bit_count (masks[?i := masks ! ?i AND (masks ! ?i - 1)]) = counts'"
    using cleared inv(2) by (simp add: counts'_def map_update)
  with bal slots inv(1) show "request_inv orig (select_slot st)"
    by (auto simp: request_inv_def select_slot_def st Let_def counts'_def)
  show "bits_left (select_slot st) = bits_left st - 1"
    using i inv(1,2) by (simp add: bits_left_def select_slot_def st Let_def sum_list_update_int)
  show "length (snd (snd (select_slot st))) = length (snd (snd st)) + 1"
    by (simp add: select_slot_def st Let_def)
qed

lemma select_slots_inv:
  "request_inv orig st \<Longrightarrow> int n \<le> bits_left st \<Longrightarrow> request_inv orig (select_slots n st) \<and>
     bits_left (select_slots n st) = bits_left st - int n \<and>
     length (snd (snd (select_slots n st))) = length (snd (snd st)) + n"
proof (induction n arbitrary: st)
  case (Suc n)
  with select_slot_step [of orig st] Suc.IH [of "select_slot st"] show ?case by simp
qed simp

lemma request_inv_init:
  "request_inv (request_masks ctrl) (request_masks ctrl, map bit_count (request_masks ctrl), [])"
  by (simp add: request_inv_def request_masks_def)


subsection \<open>Properties of the request model\<close>

lemma tpc_request_slots:
  assumes "tpc_request ctrl count guard active = Inr r" and "rq_selected r = Some sel"
  obtains masks counts where
    "select_slots (nat count) (request_masks ctrl, map bit_count (request_masks ctrl), []) = (masks, counts, sel)"
    "0 < count" "count \<le> sum_list (map bit_count (request_masks ctrl))" "length ctrl = 6"
    "rq_writes r = (if guard AND 0xff = 0 then []
      else map (\<lambda>i. (0x21838 + 4 * int i, masks ! i)) (filter (\<lambda>i. active AND push_bit i 1 \<noteq> 0) [0..<6]))"
  using assms that
  by (auto simp: tpc_request_def bind_res_Inr_conv Let_def split: if_splits prod.splits)

lemma tpc_request_state:
  assumes "0 < count" and "count \<le> sum_list (map bit_count (request_masks ctrl))"
    and "select_slots (nat count) (request_masks ctrl, map bit_count (request_masks ctrl), []) = (masks, counts, sel)"
  shows "request_inv (request_masks ctrl) (masks, counts, sel)" and "length sel = nat count"
  using select_slots_inv [OF request_inv_init, of "nat count" ctrl] assms by (simp_all add: bits_left_def)

text \<open>C25: Whenever the model writes CTRL masks back, the request was positive and within the set bits,
  the guard byte was non-zero, and each written value belongs to an active slot's CTRL register,
  only clears bits of the seven-bit mask that was there, and clears exactly as many as the slot
  was selected; the selections together are as many as requested.\<close>

theorem tpc_request_clears:
  assumes "tpc_request ctrl count guard active = Inr r" and "(reg, v) \<in> set (rq_writes r)"
  shows "\<exists>i < 6. \<exists>sel. rq_selected r = Some sel \<and> reg = 0x21838 + 4 * int i \<and> active AND push_bit i 1 \<noteq> 0 \<and>
    guard AND 0xff \<noteq> 0 \<and> length sel = nat count \<and> 0 < count \<and> set sel \<subseteq> {..<6} \<and>
    v AND (ctrl ! i AND 0x7f) = v \<and> 0 \<le> v \<and>
    bit_count v = bit_count (ctrl ! i AND 0x7f) - int (count_list sel i)"
proof -
  from assms(1,2) obtain sel where sel: "rq_selected r = Some sel"
    by (auto simp: tpc_request_def bind_res_Inr_conv Let_def split: if_splits prod.splits)
  obtain masks counts where st:
    "select_slots (nat count) (request_masks ctrl, map bit_count (request_masks ctrl), []) = (masks, counts, sel)"
    "0 < count" "count \<le> sum_list (map bit_count (request_masks ctrl))" and len: "length ctrl = 6"
    and wr: "rq_writes r = (if guard AND 0xff = 0 then []
      else map (\<lambda>i. (0x21838 + 4 * int i, masks ! i)) (filter (\<lambda>i. active AND push_bit i 1 \<noteq> 0) [0..<6]))"
    by (rule tpc_request_slots [OF assms(1) sel])
  note inv = tpc_request_state [OF st(2,3,1)]
  from assms(2) wr obtain i where i: "i < 6" "reg = 0x21838 + 4 * int i" "v = masks ! i"
      "active AND push_bit i 1 \<noteq> 0" "guard AND 0xff \<noteq> 0"
    by (auto split: if_splits)
  have "request_masks ctrl ! i = ctrl ! i AND 0x7f" using i(1) len by (simp add: request_masks_def)
  moreover have "length (request_masks ctrl) = 6" by (simp add: request_masks_def len)
  ultimately have "v AND (ctrl ! i AND 0x7f) = v" "0 \<le> v"
      "bit_count v = bit_count (ctrl ! i AND 0x7f) - int (count_list sel i)" "set sel \<subseteq> {..<6}"
    using inv(1) i(1,3) by (auto simp: request_inv_def)
  with i sel inv(2) st(2) show ?thesis by (intro exI [of _ i] exI [of _ sel]) simp
qed

text \<open>C26: The selection is balanced: after the loop, a slot that gave up a bit has at most one bit fewer
  than any other slot, so the request never empties one GPC while another keeps two bits more.\<close>

theorem tpc_request_balanced:
  assumes "tpc_request ctrl count guard active = Inr r" and "rq_selected r = Some sel"
    and "i \<in> set sel" and "j < 6"
  shows "bit_count (ctrl ! j AND 0x7f) - int (count_list sel j)
    \<le> bit_count (ctrl ! i AND 0x7f) - int (count_list sel i) + 1"
proof -
  obtain masks counts where st:
    "select_slots (nat count) (request_masks ctrl, map bit_count (request_masks ctrl), []) = (masks, counts, sel)"
    "0 < count" "count \<le> sum_list (map bit_count (request_masks ctrl))" and len: "length ctrl = 6"
    by (rule tpc_request_slots [OF assms(1,2)])
  note inv = tpc_request_state(1) [OF st(2,3,1)]
  have l6: "length (request_masks ctrl) = 6" by (simp add: request_masks_def len)
  have i: "i < 6" "bit_count (masks ! j) \<le> bit_count (masks ! i) + 1"
    using inv assms(3,4) l6 by (auto simp: request_inv_def)
  have "bit_count (masks ! k) = bit_count (ctrl ! k AND 0x7f) - int (count_list sel k)" if "k < 6" for k
  proof -
    have "bit_count (masks ! k) + int (count_list sel k) = bit_count (request_masks ctrl ! k)"
      using inv that l6 by (simp add: request_inv_def)
    then show ?thesis using that len by (simp add: request_masks_def)
  qed
  with i assms(4) show ?thesis by simp
qed

text \<open>Three bits are asked from masks of three, one and no bits; the low guard byte is one.\<close>

lemma tpc_request_sample:
  "tpc_request [7, 1, 0, 0, 0, 0] 3 1 0x3f = Inr \<lparr>rq_reason = ConditionalWriteback,
     rq_selected = Some [0, 0, 0], rq_writes = [(0x21838, 0), (0x2183C, 1), (0x21840, 0), (0x21844, 0),
       (0x21848, 0), (0x2184C, 0)]\<rparr>"
  by code_simp

lemma tpc_request_clears_witness:
  "\<exists>i < 6. (0x2183C :: int) = 0x21838 + 4 * int i \<and> (1 :: int) AND ([7, 1, 0, 0, 0, 0] ! i AND 0x7f) = 1"
proof -
  from tpc_request_clears [OF tpc_request_sample, of "0x2183C" 1] show ?thesis by auto
qed

lemma tpc_request_balanced_witness:
  "bit_count ([7, 1, 0, 0, 0, 0] ! 1 AND 0x7f) - int (count_list [0, 0, 0] 1)
    \<le> bit_count ([7, 1, 0, 0, 0, 0] ! 0 AND 0x7f) - int (count_list [0, 0, 0 :: nat] 0) + 1"
proof -
  have "rq_selected \<lparr>rq_reason = ConditionalWriteback, rq_selected = Some [0, 0, 0],
      rq_writes = [(0x21838, 0), (0x2183C, 1), (0x21840, 0), (0x21844, 0), (0x21848, 0), (0x2184C, 0)]\<rparr>
    = Some [0, 0, 0]" by simp
  from tpc_request_balanced [OF tpc_request_sample this, of 0 1] show ?thesis by simp
qed

end
