(* ===== verification/Topology.thy ===== *)
theory Topology
  imports PyText BitCount
begin

text \<open>
  Physical and logical topology: \<^verbatim>\<open>analyze\<close> and the acceptance test of \<^verbatim>\<open>main\<close> in
  \<^verbatim>\<open>tools/analyze_topology_stages.py\<close>, and \<^verbatim>\<open>summarize\<close> with the GR counts of
  \<^verbatim>\<open>tools/cmp100-sm-topology-readonly.py\<close>. A capture maps register names to the hexadecimal
  text of the JSON file; a missing name, a malformed text and each \<^verbatim>\<open>ValueError\<close> are
  constructors of \<open>topology_error\<close>.
\<close>

subsection \<open>The archived capture\<close>

datatype topology_error =
    MissingRegister int
  | MalformedValue string
  | AllOnesRegister int
  | InvalidGpcCount
  | InvalidTpcCountOrMask
  | NeedSixEntries
  | StagesDisagree

type_synonym capture = "string \<rightharpoonup> string"

definition read_reg :: "capture \<Rightarrow> int \<Rightarrow> topology_error + int" where
  "read_reg regs address =
     bind_res (of_option (MissingRegister address) (regs (py_hex 6 address))) (\<lambda>s.
     bind_res (of_option (MalformedValue s) (py_int16 s)) (\<lambda>v.
     bind_res (ensure (v \<noteq> 0xffffffff) (AllOnesRegister address)) (\<lambda>_. Inr v)))"

record physical_gpc =
  pg_index :: nat
  pg_disabled :: bool
  pg_status :: int
  pg_enabled :: int
  pg_tpcs :: int

record logical_gpc =
  lg_index :: nat
  lg_tpcs :: int
  lg_masks :: "int list"
  lg_union :: int
  lg_disjoint :: bool
  lg_matches :: bool
  lg_contiguous :: bool

definition physical_entry :: "capture \<Rightarrow> int \<Rightarrow> nat \<Rightarrow> topology_error + physical_gpc" where
  "physical_entry regs gpc_disable g =
     bind_res (read_reg regs (0x21c38 + 4 * int g)) (\<lambda>status.
       let disabled = status AND 0x7f;
           off = gpc_disable AND push_bit g 1 \<noteq> 0;
           enabled = (if off then 0 else NOT disabled AND 0x7f)
       in Inr \<lparr>pg_index = g, pg_disabled = off, pg_status = disabled, pg_enabled = enabled,
               pg_tpcs = bit_count enabled\<rparr>)"

definition pairwise_disjoint :: "int list \<Rightarrow> bool" where
  "pairwise_disjoint masks \<longleftrightarrow>
     list_all (\<lambda>a. list_all (\<lambda>b. masks ! a AND masks ! b = 0) [Suc a..<3]) [0..<3]"

definition logical_entry :: "capture \<Rightarrow> nat \<Rightarrow> topology_error + logical_gpc" where
  "logical_entry regs g =
     bind_res (read_reg regs (0x502608 + 0x8000 * int g)) (\<lambda>c.
     let count = c AND 0x1f in
     bind_res (map_res (\<lambda>p. read_reg regs (0x500c30 + 0x8000 * int g + 4 * int p)) [0..<3]) (\<lambda>masks.
     bind_res (ensure (1 \<le> count \<and> count \<le> 7 \<and> list_all (\<lambda>m. m AND NOT 0x7f = 0) masks) InvalidTpcCountOrMask) (\<lambda>_.
       let union = masks ! 0 OR masks ! 1 OR masks ! 2 in
       Inr \<lparr>lg_index = g, lg_tpcs = count, lg_masks = masks, lg_union = union,
            lg_disjoint = pairwise_disjoint masks, lg_matches = (count = bit_count union),
            lg_contiguous = (union = push_bit (nat count) 1 - 1)\<rparr>)))"

record topology_report =
  tr_physical :: "physical_gpc list"
  tr_logical :: "logical_gpc list"
  tr_physical_tpcs :: int
  tr_logical_tpcs :: int
  tr_agree :: bool
  tr_sms :: int
  tr_control :: int

definition analyze_topology :: "capture \<Rightarrow> topology_error + topology_report" where
  "analyze_topology regs =
     bind_res (read_reg regs 0x21c1c) (\<lambda>d.
     bind_res (map_res (physical_entry regs (d AND 0x3f)) [0..<6]) (\<lambda>physical.
     bind_res (read_reg regs 0x409604) (\<lambda>n.
     let gpc_count = n AND 0x1f in
     bind_res (ensure (1 \<le> gpc_count \<and> gpc_count \<le> 6) InvalidGpcCount) (\<lambda>_.
     bind_res (map_res (logical_entry regs) [0..<nat gpc_count]) (\<lambda>logical.
     let physical_total = sum_list (map pg_tpcs physical);
         logical_total = sum_list (map lg_tpcs logical) in
     bind_res (read_reg regs 0x409664) (\<lambda>control.
       Inr \<lparr>tr_physical = physical, tr_logical = logical, tr_physical_tpcs = physical_total,
            tr_logical_tpcs = logical_total, tr_agree = (physical_total = logical_total),
            tr_sms = 2 * logical_total, tr_control = control\<rparr>))))))"

text \<open>The test \<^verbatim>\<open>main\<close> applies to every card before it prints anything.\<close>

definition accept_topology :: "topology_report \<Rightarrow> topology_error + unit" where
  "accept_topology r =
     ensure (tr_agree r \<and> list_all (\<lambda>g. lg_matches g \<and> lg_disjoint g) (tr_logical r)) StagesDisagree"

definition analyze_and_accept :: "capture \<Rightarrow> topology_error + topology_report" where
  "analyze_and_accept regs =
     bind_res (analyze_topology regs) (\<lambda>r. bind_res (accept_topology r) (\<lambda>_. Inr r))"

subsection \<open>The live reader\<close>

record sm_summary =
  sm_masks :: "int list"
  sm_tpcs :: int
  sm_count :: int
  sm_tensor :: int

text \<open>\<^term>\<open>None\<close> stands for the result marked invalid because of an all-ones response.\<close>

definition summarize :: "int \<Rightarrow> int list \<Rightarrow> topology_error + sm_summary option" where
  "summarize gpc_disable tpc_status =
     (if gpc_disable = 0xffffffff \<or> 0xffffffff \<in> set tpc_status then Inr None
      else if length tpc_status \<noteq> 6 then Inl NeedSixEntries
      else let enabled = map (\<lambda>(gpc, v). if gpc_disable AND push_bit gpc 1 = 0 then NOT v AND 0x7f else 0)
                 (enumerate_from 0 tpc_status);
               tpcs = sum_list (map bit_count enabled)
           in Inr (Some \<lparr>sm_masks = enabled, sm_tpcs = tpcs, sm_count = tpcs * 2, sm_tensor = tpcs * 16\<rparr>))"

record gr_summary =
  gs_valid :: bool
  gs_gpcs :: int
  gs_counts :: "int list"
  gs_sms :: "int option"

definition gr_topology :: "int \<Rightarrow> int list \<Rightarrow> gr_summary" where
  "gr_topology word available = (let
     gr_gpcs = word AND 0x1f;
     counts = map (\<lambda>i. available ! i AND 0x1f) [0..<min (nat gr_gpcs) 6];
     ok = 1 \<le> gr_gpcs \<and> gr_gpcs \<le> 6 \<and> list_all (\<lambda>n. 0 < n \<and> n \<le> 7) counts \<and> word \<noteq> 0xffffffff
   in \<lparr>gs_valid = ok, gs_gpcs = gr_gpcs, gs_counts = counts,
       gs_sms = (if ok then Some (2 * sum_list counts) else None)\<rparr>)"

text \<open>The tool's own self test, on the model.\<close>

lemma summarize_self_test:
  "map_res (\<lambda>(d, s). summarize d s) [(0, [0, 0, 0, 0, 0, 0]), (0, [3, 3, 1, 1, 1, 1]), (0, [1, 1, 0, 0, 0, 0]),
     (1, [0, 0, 0, 0, 0, 0])] = Inr rs \<Longrightarrow> map (map_option sm_count) rs = [Some 84, Some 68, Some 80, Some 70]"
proof -
  have "map_res (\<lambda>(d, s). summarize d s) [(0, [0, 0, 0, 0, 0, 0]), (0, [3, 3, 1, 1, 1, 1]), (0, [1, 1, 0, 0, 0, 0]),
     (1, [0, 0, 0, 0, 0, 0])] = Inr [
       Some \<lparr>sm_masks = [127, 127, 127, 127, 127, 127], sm_tpcs = 42, sm_count = 84, sm_tensor = 672\<rparr>,
       Some \<lparr>sm_masks = [124, 124, 126, 126, 126, 126], sm_tpcs = 34, sm_count = 68, sm_tensor = 544\<rparr>,
       Some \<lparr>sm_masks = [126, 126, 127, 127, 127, 127], sm_tpcs = 40, sm_count = 80, sm_tensor = 640\<rparr>,
       Some \<lparr>sm_masks = [0, 127, 127, 127, 127, 127], sm_tpcs = 35, sm_count = 70, sm_tensor = 560\<rparr>]"
    by code_simp
  then show "map_res (\<lambda>(d, s). summarize d s) [(0, [0, 0, 0, 0, 0, 0]), (0, [3, 3, 1, 1, 1, 1]), (0, [1, 1, 0, 0, 0, 0]),
     (1, [0, 0, 0, 0, 0, 0])] = Inr rs \<Longrightarrow> map (map_option sm_count) rs = [Some 84, Some 68, Some 80, Some 70]"
    by auto
qed

subsection \<open>Counting\<close>

lemma mask7: "0 \<le> v AND 0x7F" "v AND 0x7F \<le> (0x7F :: int)"
  by (simp_all add: and_le_mask)

lemma bits_outside_7: "(m :: int) AND NOT 0x7F = 0 \<Longrightarrow> 0 \<le> m \<and> m \<le> 0x7F"
proof -
  assume m: "m AND NOT 0x7F = 0"
  have "m = (m AND 0x7F) OR (m AND NOT 0x7F)" by (simp add: bit_eq_iff bit_simps) blast
  with m have "m = m AND 0x7F" by simp
  with mask7 [of m] show ?thesis by simp
qed

lemma union_count:
  assumes "length masks = 3" and "\<forall>m \<in> set masks. 0 \<le> m" and "pairwise_disjoint masks"
  shows "bit_count (masks ! 0 OR masks ! 1 OR masks ! 2) = sum_list (map bit_count masks)"
proof -
  obtain a b c where m: "masks = [a, b, c]"
    using assms(1) by (auto simp: length_Suc_conv numeral_eq_Suc)
  have d: "a AND b = 0" "a AND c = 0" "b AND c = 0"
    using assms(3) by (simp_all add: pairwise_disjoint_def m upt_rec)
  have "a AND (b OR c) = 0" using d by (simp add: bit.conj_disj_distrib)
  with d assms(2) show ?thesis by (simp add: m bit_count_disjoint)
qed

lemma bit_count_complement: "bit_count (NOT (v AND 0x7F) AND 0x7F) = 7 - bit_count (v AND (0x7F :: int))"
proof -
  let ?d = "v AND 0x7F"
  have "?d AND (NOT ?d AND 0x7F) = 0" by (simp add: bit_eq_iff bit_simps)
  moreover have "?d OR (NOT ?d AND 0x7F) = 0x7F" by (simp add: bit_eq_iff bit_simps) blast
  moreover have "0 \<le> NOT ?d AND 0x7F" by simp
  ultimately have "bit_count 0x7F = bit_count ?d + bit_count (NOT ?d AND 0x7F)"
    using bit_count_disjoint [of ?d "NOT ?d AND 0x7F"] by simp
  moreover have "bit_count 0x7F = 7" by code_simp
  ultimately show ?thesis by simp
qed

text \<open>The enabled mask of a slot, from the two status words.\<close>

definition enabled_mask :: "int \<Rightarrow> int \<Rightarrow> nat \<Rightarrow> int" where
  "enabled_mask gpc_disable status g = (if gpc_disable AND push_bit g 1 = 0 then NOT status AND 0x7F else 0)"

lemma disable_bit: "g < 6 \<Longrightarrow> (d AND 0x3F) AND push_bit g 1 = d AND (push_bit g 1 :: int)"
proof -
  assume "g < 6"
  then have "g \<in> {0, 1, 2, 3, 4, 5}" by auto
  then have "0x3F AND push_bit g 1 = (push_bit g 1 :: int)" by (auto simp: push_bit_eq_mult)
  then show ?thesis by (simp add: and.assoc)
qed

lemma status_mask: "NOT (v AND 0x7F) AND 0x7F = NOT v AND (0x7F :: int)"
  by (simp add: bit_eq_iff bit_simps) blast

lemmas mask_norms = disable_bit [simplified push_bit_eq_mult, simplified] status_mask [simplified]

text \<open>Reading a register by its value.\<close>

definition value_at :: "capture \<Rightarrow> int \<Rightarrow> int" where
  "value_at regs address = the (py_int16 (the (regs (py_hex 6 address))))"

lemma read_reg_Inr: "read_reg regs address = Inr v \<Longrightarrow> v = value_at regs address \<and> v \<noteq> 0xffffffff"
  by (auto simp: read_reg_def bind_res_Inr_conv value_at_def)

lemma map_res_readI: "map_res f xs = Inr ys \<Longrightarrow> (\<And>x y. x \<in> set xs \<Longrightarrow> f x = Inr y \<Longrightarrow> g y = h x) \<Longrightarrow> map g ys = map h xs"
proof -
  assume "map_res f xs = Inr ys" and gh: "\<And>x y. x \<in> set xs \<Longrightarrow> f x = Inr y \<Longrightarrow> g y = h x"
  then have "list_all2 (\<lambda>x y. f x = Inr y) xs ys" by (simp add: map_res_Inr_conv)
  then show "map g ys = map h xs" using gh by (induction rule: list_all2_induct) auto
qed

lemma physical_entry_tpcs:
  assumes "physical_entry regs (value_at regs 0x21c1c AND 0x3f) g = Inr p" and "g < 6"
  shows "pg_tpcs p = bit_count (enabled_mask (value_at regs 0x21c1c) (value_at regs (0x21c38 + 4 * int g)) g)"
    and "value_at regs (0x21c38 + 4 * int g) \<noteq> 0xffffffff"
  using assms
  by (auto simp: physical_entry_def bind_res_Inr_conv Let_def mask_norms enabled_mask_def
      dest!: read_reg_Inr)

definition physical_sum :: "int \<Rightarrow> int list \<Rightarrow> int" where
  "physical_sum gpc_disable status = sum_list (map (\<lambda>g. bit_count (enabled_mask gpc_disable (status ! g) g)) [0..<6])"

definition status_words :: "capture \<Rightarrow> int list" where
  "status_words regs = map (\<lambda>g. value_at regs (0x21c38 + 4 * int g)) [0..<6]"

lemma analyze_topology_Inr:
  assumes "analyze_topology regs = Inr r"
  shows "tr_physical_tpcs r = physical_sum (value_at regs 0x21c1c) (status_words regs)"
    and "0xffffffff \<notin> set (status_words regs)" and "value_at regs 0x21c1c \<noteq> 0xffffffff"
    and "map_res (logical_entry regs) [0..<length (tr_logical r)] = Inr (tr_logical r)"
    and "1 \<le> length (tr_logical r) \<and> length (tr_logical r) \<le> 6"
    and "tr_logical_tpcs r = sum_list (map lg_tpcs (tr_logical r))" and "tr_sms r = 2 * tr_logical_tpcs r"
    and "tr_agree r \<longleftrightarrow> tr_physical_tpcs r = tr_logical_tpcs r"
proof -
  from assms obtain d n control where d: "read_reg regs 0x21c1c = Inr d"
    and phys: "map_res (physical_entry regs (d AND 0x3f)) [0..<6] = Inr (tr_physical r)"
    and n: "1 \<le> n AND 0x1f" "n AND 0x1f \<le> 6"
    and logical: "map_res (logical_entry regs) [0..<nat (n AND 0x1f)] = Inr (tr_logical r)"
    and r: "tr_physical_tpcs r = sum_list (map pg_tpcs (tr_physical r))"
      "tr_logical_tpcs r = sum_list (map lg_tpcs (tr_logical r))" "tr_sms r = 2 * tr_logical_tpcs r"
      "tr_agree r \<longleftrightarrow> tr_physical_tpcs r = tr_logical_tpcs r"
    by (auto simp: analyze_topology_def bind_res_Inr_conv Let_def)
  have d': "d = value_at regs 0x21c1c" "d \<noteq> 0xffffffff" using read_reg_Inr [OF d] by auto
  have "map pg_tpcs (tr_physical r) =
      map (\<lambda>g. bit_count (enabled_mask d (value_at regs (0x21c38 + 4 * int g)) g)) [0..<6]"
    using phys by (rule map_res_readI) (use physical_entry_tpcs(1) d' in auto)
  with r(1) d' show "tr_physical_tpcs r = physical_sum (value_at regs 0x21c1c) (status_words regs)"
    by (simp add: physical_sum_def status_words_def) (intro arg_cong [where f = sum_list] map_cong; simp)
  have "value_at regs (0x21c38 + 4 * int g) \<noteq> 0xffffffff" if "g < 6" for g
    using physical_entry_tpcs(2) [OF _ that] map_res_nth [OF phys, of g] that d' by auto
  then show "0xffffffff \<notin> set (status_words regs)" by (auto simp: status_words_def)
  show "value_at regs 0x21c1c \<noteq> 0xffffffff" using d' by simp
  have len: "length (tr_logical r) = nat (n AND 0x1f)" using map_res_length [OF logical] by simp
  with logical show "map_res (logical_entry regs) [0..<length (tr_logical r)] = Inr (tr_logical r)" by simp
  show "1 \<le> length (tr_logical r) \<and> length (tr_logical r) \<le> 6" using n len by linarith
  show "tr_logical_tpcs r = sum_list (map lg_tpcs (tr_logical r))" "tr_sms r = 2 * tr_logical_tpcs r"
    "tr_agree r \<longleftrightarrow> tr_physical_tpcs r = tr_logical_tpcs r" by (fact r)+
qed

lemma enabled_count:
  "0 \<le> bit_count (enabled_mask d s g) \<and> bit_count (enabled_mask d s g) \<le> 7 \<and>
   bit_count (enabled_mask d s g) = (if d AND push_bit g 1 = 0 then 7 - bit_count (s AND 0x7F) else 0)"
proof -
  have "NOT s AND 0x7F \<le> 0x7F" "0 \<le> NOT s AND (0x7F :: int)" by (simp_all add: and_le_mask)
  then show ?thesis
    using bit_count_complement [of s] bit_count_nonneg bit_count_7 [of "NOT s AND 0x7F"]
    by (simp add: enabled_mask_def mask_norms)
qed

text \<open>The TPCs of a status table: seven less the disabled bits of each slot, none for a disabled slot.\<close>

lemma physical_sum_slots:
  "physical_sum d s = sum_list (map (\<lambda>g. if d AND push_bit g 1 = 0 then 7 - bit_count (s ! g AND 0x7f) else 0) [0..<6])"
  unfolding physical_sum_def using enabled_count by (intro arg_cong [where f = sum_list] map_cong) auto

lemma physical_sum_bounds: "0 \<le> physical_sum d s \<and> physical_sum d s \<le> 42"
proof -
  have "0 * int (length [0..<6]) \<le> physical_sum d s \<and> physical_sum d s \<le> 7 * int (length [0..<6])"
    unfolding physical_sum_def by (rule sum_list_bounds) (use enabled_count in blast)
  then show ?thesis by simp
qed

lemma summarize_valid:
  assumes "length s = 6" and "0xffffffff \<notin> set s" and "d \<noteq> 0xffffffff"
  shows "summarize d s = Inr (Some \<lparr>sm_masks = map (\<lambda>g. enabled_mask d (s ! g) g) [0..<6],
    sm_tpcs = physical_sum d s, sm_count = physical_sum d s * 2, sm_tensor = physical_sum d s * 16\<rparr>)"
proof -
  have "map (\<lambda>(gpc, v). if d AND push_bit gpc 1 = 0 then NOT v AND 0x7f else 0) (enumerate_from 0 s)
      = map (\<lambda>g. enabled_mask d (s ! g) g) [0..<6]"
    by (simp add: enumerate_from_eq enumerate_eq_zip zip_map_fst_snd list_eq_iff_nth_eq enabled_mask_def assms(1))
  then show ?thesis using assms by (simp add: summarize_def physical_sum_def comp_def Let_def)
qed

text \<open>C19: The live reader and the offline analyzer count the same TPCs: whenever the analyzer accepts an
  archived capture's registers, the live summary of the same status words is valid, and its TPC
  count is the physical total, each enabled slot contributing seven less its disabled bits and
  each disabled slot nothing.\<close>

theorem summarize_agrees:
  assumes "analyze_topology regs = Inr r"
  shows "\<exists>s. summarize (value_at regs 0x21c1c) (status_words regs) = Inr (Some s) \<and>
    sm_tpcs s = tr_physical_tpcs r \<and> sm_count s = 2 * tr_physical_tpcs r \<and> sm_tensor s = 8 * sm_count s \<and>
    tr_physical_tpcs r = sum_list (map (\<lambda>g. if value_at regs 0x21c1c AND push_bit g 1 = 0
        then 7 - bit_count (status_words regs ! g AND 0x7f) else 0) [0..<6])"
proof -
  note an = analyze_topology_Inr [OF assms]
  have "length (status_words regs) = 6" by (simp add: status_words_def)
  from summarize_valid [OF this an(2,3)] an(1) physical_sum_slots show ?thesis
    by (intro exI conjI) (assumption, simp_all)
qed

lemma logical_entry_Inr:
  assumes "logical_entry regs g = Inr l"
  shows "length (lg_masks l) = 3" "\<forall>m \<in> set (lg_masks l). 0 \<le> m \<and> m \<le> 0x7F" "1 \<le> lg_tpcs l \<and> lg_tpcs l \<le> 7"
    "lg_matches l \<Longrightarrow> lg_disjoint l \<Longrightarrow> lg_tpcs l = sum_list (map bit_count (lg_masks l))"
proof -
  from assms obtain masks where masks: "map_res (\<lambda>p. read_reg regs (0x500c30 + 0x8000 * int g + 4 * int p)) [0..<3] = Inr masks"
    and l: "lg_masks l = masks" "1 \<le> lg_tpcs l" "lg_tpcs l \<le> 7" "list_all (\<lambda>m. m AND NOT 0x7f = 0) masks"
      "lg_disjoint l = pairwise_disjoint masks"
      "lg_matches l = (lg_tpcs l = bit_count (masks ! 0 OR masks ! 1 OR masks ! 2))"
    by (auto simp: logical_entry_def bind_res_Inr_conv Let_def)
  have len: "length masks = 3" using map_res_length [OF masks] by simp
  have rng: "\<forall>m \<in> set masks. 0 \<le> m \<and> m \<le> 0x7F" using l(4) bits_outside_7 by (auto simp: list_all_iff)
  with len l show "length (lg_masks l) = 3" "\<forall>m \<in> set (lg_masks l). 0 \<le> m \<and> m \<le> 0x7F"
    "1 \<le> lg_tpcs l \<and> lg_tpcs l \<le> 7" by simp_all
  show "lg_matches l \<Longrightarrow> lg_disjoint l \<Longrightarrow> lg_tpcs l = sum_list (map bit_count (lg_masks l))"
    using union_count [OF len _] rng l by simp
qed

text \<open>C18: An accepted capture is consistent across its two views: one to six logical GPCs with one to
  seven TPCs each, every GPC's count is the number of bits in its three PPC masks, and the TPCs
  counted in the logical view are as many as the physical status words leave enabled; the inferred
  SM count is twice that number and at most 84.\<close>

theorem topology_accepted:
  assumes "analyze_and_accept regs = Inr r"
  shows "1 \<le> length (tr_logical r) \<and> length (tr_logical r) \<le> 6 \<and>
    (\<forall>l \<in> set (tr_logical r). 1 \<le> lg_tpcs l \<and> lg_tpcs l \<le> 7 \<and> length (lg_masks l) = 3 \<and>
       lg_tpcs l = sum_list (map bit_count (lg_masks l))) \<and>
    sum_list (map lg_tpcs (tr_logical r)) = physical_sum (value_at regs 0x21c1c) (status_words regs) \<and>
    tr_sms r = 2 * physical_sum (value_at regs 0x21c1c) (status_words regs) \<and> 0 < tr_sms r \<and> tr_sms r \<le> 84"
proof -
  from assms have an: "analyze_topology regs = Inr r" and agree: "tr_agree r"
    and ok: "\<forall>l \<in> set (tr_logical r). lg_matches l \<and> lg_disjoint l"
    by (auto simp: analyze_and_accept_def accept_topology_def bind_res_Inr_conv list_all_iff)
  note f = analyze_topology_Inr [OF an]
  have entry: "\<exists>g. logical_entry regs g = Inr l" if "l \<in> set (tr_logical r)" for l :: logical_gpc
  proof -
    from that obtain g where "g < length (tr_logical r)" "l = tr_logical r ! g" by (auto simp: in_set_conv_nth)
    with map_res_nth [OF f(4), of g] show ?thesis by auto
  qed
  have ls: "1 \<le> lg_tpcs l \<and> lg_tpcs l \<le> 7 \<and> length (lg_masks l) = 3 \<and>
      lg_tpcs l = sum_list (map bit_count (lg_masks l))" if "l \<in> set (tr_logical r)" for l
    using entry [OF that] logical_entry_Inr ok that by blast
  have pos: "0 < sum_list (map lg_tpcs (tr_logical r))"
  proof -
    have "1 * int (length (tr_logical r)) \<le> sum_list (map lg_tpcs (tr_logical r))"
      using sum_list_bounds [of "tr_logical r" 1 lg_tpcs 7] ls by blast
    with f(5) show ?thesis by linarith
  qed
  have eq: "sum_list (map lg_tpcs (tr_logical r)) = physical_sum (value_at regs 0x21c1c) (status_words regs)"
    "tr_sms r = 2 * physical_sum (value_at regs 0x21c1c) (status_words regs)"
    using f(1,6-8) agree by simp_all
  have all: "\<forall>l \<in> set (tr_logical r). 1 \<le> lg_tpcs l \<and> lg_tpcs l \<le> 7 \<and> length (lg_masks l) = 3 \<and>
       lg_tpcs l = sum_list (map bit_count (lg_masks l))" using ls by blast
  show ?thesis
    using f(5) eq pos physical_sum_bounds [of "value_at regs 0x21c1c" "status_words regs"]
    by (intro conjI) (use all in blast | linarith)+
qed

text \<open>One GPC with seven TPCs in disjoint masks; the five others are disabled.\<close>

definition sample_capture :: capture where
  "sample_capture = map_of (map (\<lambda>(a, v). (py_hex 6 a, py_hex 8 v))
     [(0x21c1c, 0x3e), (0x21c38, 0), (0x21c3c, 0), (0x21c40, 0), (0x21c44, 0), (0x21c48, 0), (0x21c4c, 0),
      (0x409604, 1), (0x502608, 7), (0x500c30, 0x07), (0x500c34, 0x18), (0x500c38, 0x60), (0x409664, 0)])"

lemma sample_capture_accepted: "is_ok (analyze_and_accept sample_capture)"
  by code_simp

lemma topology_accepted_witness:
  "\<exists>r. analyze_and_accept sample_capture = Inr r \<and> 0 < tr_sms r \<and> tr_sms r \<le> 84"
proof -
  obtain r where "analyze_and_accept sample_capture = Inr r" using sample_capture_accepted by auto
  with topology_accepted [OF this] show ?thesis by blast
qed

lemma summarize_agrees_witness:
  "\<exists>r s. analyze_topology sample_capture = Inr r \<and>
     summarize (value_at sample_capture 0x21c1c) (status_words sample_capture) = Inr (Some s) \<and>
     sm_tpcs s = tr_physical_tpcs r"
proof -
  obtain r where "analyze_topology sample_capture = Inr r"
    using sample_capture_accepted by (auto simp: analyze_and_accept_def bind_res_Inr_conv)
  with summarize_agrees [OF this] show ?thesis by blast
qed

end
