(* ===== verification/MmioInventory.thy ===== *)
theory MmioInventory
  imports PyText "HOL-Library.Word"
begin

text \<open>
  \<^verbatim>\<open>tools/inventory_gr_mmio_calls.py\<close>: the parser of a Falcon listing and the block-local
  constant propagation that resolves the arguments of the register helpers. The analysis computes
  with Python's unbounded integers; the processor is a parameter of the last part, described by
  the contract the analysis relies on, and works on 32-bit words.
\<close>

subsection \<open>Literals\<close>

text \<open>\<^verbatim>\<open>int(token, 0)\<close>: the prefix selects the base; a decimal may not begin with a zero
  unless it is zero.\<close>

definition oct_digit :: "char \<Rightarrow> int option" where
  "oct_digit c = (case dec_digit c of None \<Rightarrow> None | Some d \<Rightarrow> if d < 8 then Some d else None)"

definition bin_digit :: "char \<Rightarrow> int option" where
  "bin_digit c = (case dec_digit c of None \<Rightarrow> None | Some d \<Rightarrow> if d < 2 then Some d else None)"

definition zero_digit :: "char \<Rightarrow> int option" where
  "zero_digit c = (if c = CHR ''0'' then Some 0 else None)"

definition skip_underscore :: "string \<Rightarrow> string" where
  "skip_underscore s = (case s of u # rest \<Rightarrow> if u = CHR ''_'' then rest else s | [] \<Rightarrow> [])"

definition prefixed :: "string \<Rightarrow> int option" where
  "prefixed body = (case body of
     z # p # rest \<Rightarrow>
       if z \<noteq> CHR ''0'' then digits_body dec_digit 10 True 0 body
       else if p = CHR ''x'' \<or> p = CHR ''X'' then digits_body hex_digit 16 True 0 (skip_underscore rest)
       else if p = CHR ''o'' \<or> p = CHR ''O'' then digits_body oct_digit 8 True 0 (skip_underscore rest)
       else if p = CHR ''b'' \<or> p = CHR ''B'' then digits_body bin_digit 2 True 0 (skip_underscore rest)
       else digits_body zero_digit 10 True 0 body
   | _ \<Rightarrow> digits_body dec_digit 10 True 0 body)"

definition decimal_literal :: "string \<Rightarrow> bool" where
  "decimal_literal body \<longleftrightarrow> list_all (\<lambda>c. is_digit c \<or> c = CHR ''_'') body"

definition py_int0 :: "string \<Rightarrow> int option" where
  "py_int0 s = (let (sg, body) = split_sign (int_strip s) in
     if decimal_literal body \<and> int (length (filter is_digit body)) > max_str_digits then None
     else map_option (\<lambda>n. sg * n) (prefixed body))"

subsection \<open>The listing\<close>

type_synonym instruction = "int \<times> string \<times> string list"

definition HELPERS_fecs :: "int \<rightharpoonup> string" where
  "HELPERS_fecs = map_of [(0x625, ''write''), (0x6ae, ''write''), (0xe02, ''read''), (0xe72, ''read'')]"

definition HELPERS_gpccs :: "int \<rightharpoonup> string" where
  "HELPERS_gpccs = map_of [(0x196, ''write''), (0x20f, ''write''), (0x829, ''read''), (0x88d, ''read'')]"

definition registers :: "string list" where
  "registers = [''$r0'', ''$r1'', ''$r2'', ''$r3'', ''$r4'', ''$r5'', ''$r6'', ''$r7'', ''$r8'', ''$r9'',
     ''$r10'', ''$r11'', ''$r12'', ''$r13'', ''$r14'', ''$r15'']"

definition is_register :: "string \<Rightarrow> bool" where
  "is_register t \<longleftrightarrow> t \<in> set registers"

definition READ_ONLY :: "string list" where
  "READ_ONLY = [''st'', ''iowr'', ''cmp'', ''test'', ''push'', ''nop'', ''sleep'']"

definition lower_hex :: "char \<Rightarrow> bool" where
  "lower_hex c \<longleftrightarrow> is_digit c \<or> (97 \<le> code_point c \<and> code_point c \<le> 102)"

definition lower_letter :: "char \<Rightarrow> bool" where
  "lower_letter c \<longleftrightarrow> 97 \<le> code_point c \<and> code_point c \<le> 122"

text \<open>The remainders after one, two, and more groups of two digits and white space.\<close>

function byte_groups :: "string \<Rightarrow> string list" where
  "byte_groups s = (case s of
     a # b # rest \<Rightarrow>
       if lower_hex a \<and> lower_hex b \<and> rest \<noteq> [] \<and> is_space (hd rest)
       then skip_space rest # byte_groups (skip_space rest) else []
   | _ \<Rightarrow> [])"
  by pat_completeness auto
termination
  by (relation "measure length") (auto simp: skip_space_def intro!: le_imp_less_Suc le_SucI length_dropWhile_le)

declare byte_groups.simps [simp del]

definition skip_labels :: "string \<Rightarrow> string" where
  "skip_labels s = (let rest = dropWhile (\<lambda>c. c = CHR ''B'' \<or> c = CHR ''C'') s in
     if length rest < length s \<and> rest \<noteq> [] \<and> is_space (hd rest) then skip_space rest else s)"

definition match_op :: "string \<Rightarrow> (string \<times> string) option" where
  "match_op s = (let t = skip_labels s in
     if t \<noteq> [] \<and> lower_letter (hd t)
     then Some (takeWhile (\<lambda>c. lower_letter c \<or> is_digit c) t,
                skip_space (dropWhile (\<lambda>c. lower_letter c \<or> is_digit c) t))
     else None)"

fun last_match :: "string list \<Rightarrow> (string \<times> string) option" where
  "last_match [] = None"
| "last_match (s # ss) = (case last_match ss of None \<Rightarrow> match_op s | Some m \<Rightarrow> Some m)"

definition address_prefix :: "string \<Rightarrow> bool" where
  "address_prefix line \<longleftrightarrow> length line > 8 \<and> list_all lower_hex (take 8 line) \<and> line ! 8 = CHR '':''"

definition parse_line :: "string \<Rightarrow> instruction option" where
  "parse_line line =
     (if address_prefix line \<and> drop 9 line \<noteq> [] \<and> is_space (hd (drop 9 line))
      then map_option (\<lambda>(op, rest). (the (py_int16 (take 8 line)), op, words_of rest))
             (last_match (byte_groups (skip_space (drop 9 line))))
      else None)"

datatype listing_error = UnparsedInstruction string | BadTarget string | ListingMismatch

fun parse_lines :: "string list \<Rightarrow> listing_error + instruction list" where
  "parse_lines [] = Inr []"
| "parse_lines (l # ls) =
     (case parse_line l of
        Some i \<Rightarrow> bind_res (parse_lines ls) (\<lambda>is. Inr (i # is))
      | None \<Rightarrow> if address_prefix l then Inl (UnparsedInstruction l) else parse_lines ls)"

definition parse_listing :: "string \<Rightarrow> listing_error + instruction list" where
  "parse_listing text_of_file = parse_lines (splitlines text_of_file)"

subsection \<open>The analysis\<close>

type_synonym constants = "string \<rightharpoonup> int"

record call_record =
  cr_pc :: int
  cr_helper :: int
  cr_operation :: string
  cr_arguments :: "(string \<times> int option) list"

definition is_branch_op :: "string \<Rightarrow> bool" where
  "is_branch_op op \<longleftrightarrow> op \<in> {''bra'', ''lbra'', ''call'', ''lcall''}"

definition is_call_op :: "string \<Rightarrow> bool" where
  "is_call_op op \<longleftrightarrow> op \<in> {''call'', ''lcall''}"

definition ends_block :: "string \<Rightarrow> bool" where
  "ends_block op \<longleftrightarrow> op \<in> {''bra'', ''lbra'', ''ret'', ''exit'', ''iret'', ''mpopret'', ''mpopaddret''}"

fun branch_targets :: "instruction list \<Rightarrow> listing_error + int list" where
  "branch_targets [] = Inr []"
| "branch_targets ((pc, op, args) # is) =
     (if is_branch_op op \<and> args \<noteq> [] \<and> starts_with ''0x'' (last args)
      then bind_res (of_option (BadTarget (last args)) (py_int16 (last args))) (\<lambda>t.
           bind_res (branch_targets is) (\<lambda>ts. Inr (t # ts)))
      else branch_targets is)"

definition token_value :: "constants \<Rightarrow> string \<Rightarrow> int option" where
  "token_value regs t = (if is_register t then regs t else py_int0 t)"

definition plain_args :: "string list \<Rightarrow> string list" where
  "plain_args raw = filter (\<lambda>x. x \<notin> {''b8'', ''b16'', ''b32''}) raw"

definition alu_ops :: "string list" where
  "alu_ops = [''add'', ''sub'', ''and'', ''or'', ''xor'', ''shl'', ''shr'']"

definition alu :: "string \<Rightarrow> int \<Rightarrow> int \<Rightarrow> int option" where
  "alu op a b =
     (if op = ''add'' then Some (a + b)
      else if op = ''sub'' then Some (a - b)
      else if op = ''and'' then Some (a AND b)
      else if op = ''or'' then Some (a OR b)
      else if op = ''xor'' then Some (a XOR b)
      else if op = ''shl'' \<and> 0 \<le> b \<and> b < 32 then Some (push_bit (nat b) a)
      else if op = ''shr'' \<and> 0 \<le> b \<and> b < 32 then Some (drop_bit (nat b) a)
      else None)"

definition alu_option :: "string \<Rightarrow> int option \<Rightarrow> int option \<Rightarrow> int option" where
  "alu_option op a b = Option.bind a (\<lambda>x. Option.bind b (\<lambda>y. alu op x y))"

text \<open>The constant an instruction assigns; \<open>previous\<close> is what the destination held.\<close>

definition assigned :: "constants \<Rightarrow> int option \<Rightarrow> string \<Rightarrow> string \<Rightarrow> string list \<Rightarrow> int option" where
  "assigned regs previous op dest operands = (let val = (\<lambda>t. if t = dest then previous else token_value regs t) in
     if op = ''clear'' then Some 0
     else if op = ''mov'' \<and> length operands = 1 then val (operands ! 0)
     else if op \<in> set alu_ops \<and> length operands = 1 then alu_option op previous (val (operands ! 0))
     else if op \<in> set alu_ops \<and> length operands = 2 then alu_option op (val (operands ! 0)) (val (operands ! 1))
     else None)"

definition assign_regs :: "constants \<Rightarrow> string \<Rightarrow> string list \<Rightarrow> constants" where
  "assign_regs regs op raw = (let args = plain_args raw in
     if op \<in> set READ_ONLY \<or> args = [] \<or> \<not> is_register (hd args) then regs
     else let dest = hd args; previous = regs dest; popped = regs(dest := None) in
       if ''b8'' \<in> set raw \<or> ''b16'' \<in> set raw then popped
       else popped(dest := map_option (\<lambda>v. v AND 0xffffffff) (assigned popped previous op dest (tl args))))"

definition record_call :: "(int \<rightharpoonup> string) \<Rightarrow> constants \<Rightarrow> int \<Rightarrow> string list \<Rightarrow> call_record list" where
  "record_call helpers regs pc raw = (let args = plain_args raw in
     case (if args = [] then None else token_value regs (last args)) of
       None \<Rightarrow> []
     | Some target \<Rightarrow> (case helpers target of
           None \<Rightarrow> []
         | Some operation \<Rightarrow> [\<lparr>cr_pc = pc, cr_helper = target, cr_operation = operation,
             cr_arguments = map (\<lambda>r. (tl r, regs r)) [''$r10'', ''$r11'', ''$r12'', ''$r13'', ''$r14'']\<rparr>]))"

definition enter_block :: "int list \<Rightarrow> constants \<Rightarrow> int \<Rightarrow> constants" where
  "enter_block targets regs pc = (if pc \<in> set targets then Map.empty else regs)"

definition inventory_step :: "int list \<Rightarrow> (int \<rightharpoonup> string) \<Rightarrow> constants \<times> call_record list \<Rightarrow> instruction
    \<Rightarrow> constants \<times> call_record list" where
  "inventory_step targets helpers st i = (case (st, i) of ((regs0, records), (pc, op, raw)) \<Rightarrow>
     let regs = enter_block targets regs0 pc in
     if is_call_op op then (Map.empty, records @ record_call helpers regs pc raw)
     else if ends_block op then (Map.empty, records)
     else (assign_regs regs op raw, records))"

definition mmio_inventory :: "instruction list \<Rightarrow> (int \<rightharpoonup> string) \<Rightarrow> listing_error + call_record list" where
  "mmio_inventory is helpers = bind_res (branch_targets is) (\<lambda>targets.
     Inr (snd (foldl (inventory_step targets helpers) (Map.empty, []) is)))"

text \<open>
  \<^verbatim>\<open>main\<close>: the pinned listing of one engine, with the number of calls whose first argument
  register is known. The listing is its decoded text, SHA-256 the parameter \<open>digest\<close>.
\<close>

datatype engine = Fecs | Gpccs

definition HELPERS :: "engine \<Rightarrow> int \<rightharpoonup> string" where
  "HELPERS e = (case e of Fecs \<Rightarrow> HELPERS_fecs | Gpccs \<Rightarrow> HELPERS_gpccs)"

definition LISTING_HASH :: "engine \<Rightarrow> string" where
  "LISTING_HASH e = (case e of
     Fecs \<Rightarrow> ''4c5cd180f69b5bc4dbd2c1c43567421ac3ea3f95dc0adc09f9448d338a71794c''
   | Gpccs \<Rightarrow> ''ed2fd3615f144bfad8a136e3c2658d9f432ce211c921754b230b621a800528b2'')"

record mmio_report =
  mr_engine :: engine
  mr_instructions :: nat
  mr_calls :: "call_record list"
  mr_resolved :: nat

definition resolved_r10 :: "call_record \<Rightarrow> bool" where
  "resolved_r10 c \<longleftrightarrow> (\<exists>v. map_of (cr_arguments c) ''r10'' = Some (Some v))"

definition mmio_main :: "(string \<Rightarrow> string) \<Rightarrow> engine \<Rightarrow> string \<Rightarrow> listing_error + mmio_report" where
  "mmio_main digest e listing =
     bind_res (ensure (digest listing = LISTING_HASH e) ListingMismatch) (\<lambda>_.
     bind_res (parse_listing listing) (\<lambda>instructions.
     bind_res (mmio_inventory instructions (HELPERS e)) (\<lambda>calls.
     Inr \<lparr>mr_engine = e, mr_instructions = length instructions, mr_calls = calls,
          mr_resolved = length (filter resolved_r10 calls)\<rparr>)))"

text \<open>The tool's own parser test.\<close>

lemma parse_line_example:
  "parse_line ''0000147d: 8a 70 41 40        CB mov $r10 0x404170'' = Some (0x147d, ''mov'', [''$r10'', ''0x404170''])"
  by code_simp

subsection \<open>The processor\<close>

text \<open>
  A machine state gives every register a 32-bit word. The contract of an instruction that does not
  end a block: it changes at most its first operand, and a full-width assignment of the supported
  operations stores the result of the word operation. Nothing is assumed of calls and branches.
\<close>

type_synonym machine = "string \<Rightarrow> 32 word"

definition word_operand :: "machine \<Rightarrow> string \<Rightarrow> 32 word option" where
  "word_operand s t = (if is_register t then Some (s t) else map_option word_of_int (py_int0 t))"

definition word_alu :: "string \<Rightarrow> 32 word \<Rightarrow> 32 word \<Rightarrow> 32 word option" where
  "word_alu op a b =
     (if op = ''add'' then Some (a + b)
      else if op = ''sub'' then Some (a - b)
      else if op = ''and'' then Some (a AND b)
      else if op = ''or'' then Some (a OR b)
      else if op = ''xor'' then Some (a XOR b)
      else if op = ''shl'' \<and> uint b < 32 then Some (push_bit (unat b) a)
      else if op = ''shr'' \<and> uint b < 32 then Some (drop_bit (unat b) a)
      else None)"

definition word_alu_option :: "string \<Rightarrow> 32 word option \<Rightarrow> 32 word option \<Rightarrow> 32 word option" where
  "word_alu_option op a b = Option.bind a (\<lambda>x. Option.bind b (\<lambda>y. word_alu op x y))"

definition word_result :: "machine \<Rightarrow> string \<Rightarrow> string \<Rightarrow> string list \<Rightarrow> 32 word option" where
  "word_result s op dest operands =
     (if op = ''clear'' then Some 0
      else if op = ''mov'' \<and> length operands = 1 then word_operand s (operands ! 0)
      else if op \<in> set alu_ops \<and> length operands = 1 then word_alu_option op (Some (s dest)) (word_operand s (operands ! 0))
      else if op \<in> set alu_ops \<and> length operands = 2
      then word_alu_option op (word_operand s (operands ! 0)) (word_operand s (operands ! 1))
      else None)"

definition conforms :: "instruction \<Rightarrow> machine \<Rightarrow> machine \<Rightarrow> bool" where
  "conforms i s s' = (case i of (pc, op, raw) \<Rightarrow> let args = plain_args raw in
     if op \<in> set READ_ONLY \<or> args = [] \<or> \<not> is_register (hd args)
     then list_all (\<lambda>r. s' r = s r) registers
     else list_all (\<lambda>r. r = hd args \<or> s' r = s r) registers \<and>
       (''b8'' \<in> set raw \<or> ''b16'' \<in> set raw \<or>
        (case word_result s op (hd args) (tl args) of None \<Rightarrow> True | Some w \<Rightarrow> s' (hd args) = w)))"

definition transfers :: "instruction \<Rightarrow> bool" where
  "transfers i = (case i of (pc, op, raw) \<Rightarrow> is_call_op op \<or> ends_block op)"

text \<open>
  The points of an execution: control starts at the first instruction, may arrive at any branch
  target with any register contents, and otherwise goes on to the next instruction (after a call,
  when it returns; after a branch, when it is not taken).
\<close>

inductive reaches :: "instruction list \<Rightarrow> int list \<Rightarrow> (instruction \<Rightarrow> machine \<Rightarrow> machine \<Rightarrow> bool) \<Rightarrow> nat \<Rightarrow> machine \<Rightarrow> bool"
  for P :: "instruction list" and T :: "int list" and E :: "instruction \<Rightarrow> machine \<Rightarrow> machine \<Rightarrow> bool" where
  start: "reaches P T E 0 s"
| target: "k < length P \<Longrightarrow> fst (P ! k) \<in> set T \<Longrightarrow> reaches P T E k s"
| fallthrough: "reaches P T E k s \<Longrightarrow> k < length P \<Longrightarrow> E (P ! k) s s' \<Longrightarrow> reaches P T E (Suc k) s'"

text \<open>A right shift of a literal is only resolved for a literal the processor reads unchanged.\<close>

definition shift_literals_ok :: "instruction list \<Rightarrow> bool" where
  "shift_literals_ok P \<longleftrightarrow> list_all (\<lambda>(pc, op, raw). op = ''shr'' \<longrightarrow>
     list_all (\<lambda>t. case py_int0 t of None \<Rightarrow> True | Some v \<Rightarrow> 0 \<le> v \<and> v < 2 ^ 32) raw) P"

subsection \<open>Soundness of one instruction\<close>

text \<open>The constants describe the machine state.\<close>

definition describes :: "constants \<Rightarrow> machine \<Rightarrow> bool" where
  "describes regs s \<longleftrightarrow> (\<forall>r v. regs r = Some v \<longrightarrow> is_register r \<and> v = uint (s r))"

lemma describes_empty [simp]: "describes Map.empty s"
  by (simp add: describes_def)

lemma describes_pop: "describes regs s \<Longrightarrow> describes (regs(r := None)) s"
  by (simp add: describes_def)

lemma uint_alu_operand: "a = uint (x :: 32 word) \<Longrightarrow> word_of_int a = x"
  by simp

text \<open>Integer and word arithmetic agree modulo \<^term>\<open>2 ^ 32\<close>.\<close>

lemma push_bit_word: "word_of_int (push_bit k a) = (push_bit k (word_of_int a) :: 32 word)"
  by (simp add: push_bit_of_int)

lemma drop_bit_word: "0 \<le> a \<Longrightarrow> a < 2 ^ 32 \<Longrightarrow> word_of_int (drop_bit k a) = (drop_bit k (word_of_int a) :: 32 word)"
proof -
  assume a: "0 \<le> a" "a < 2 ^ 32"
  then have "uint (word_of_int a :: 32 word) = a" by (simp add: uint_word_of_int)
  then have "uint (drop_bit k (word_of_int a :: 32 word)) = drop_bit k a"
    using a by (simp add: unsigned_drop_bit_eq uint_word_of_int take_bit_int_eq_self)
  then show ?thesis by (metis word_of_int_uint)
qed

lemma alu_word:
  assumes "alu op a b = Some v" and "op = ''shr'' \<Longrightarrow> 0 \<le> a \<and> a < 2 ^ 32"
  shows "word_alu op (word_of_int a) (word_of_int b) = Some (word_of_int v)"
proof -
  have small: "uint (word_of_int b :: 32 word) = b" "unat (word_of_int b :: 32 word) = nat b" if "0 \<le> b" "b < 32"
    using that by (simp_all add: uint_word_of_int unat_eq_nat_uint)
  show ?thesis
    using assms small
    by (auto simp: alu_def word_alu_def push_bit_word drop_bit_word of_int_and_eq of_int_or_eq of_int_xor_eq
        split: if_splits)
qed

definition fits_word :: "int \<Rightarrow> bool" where
  "fits_word v \<longleftrightarrow> 0 \<le> v \<and> v < 2 ^ 32"

lemma describes_register:
  "describes regs s \<Longrightarrow> regs r = Some v \<Longrightarrow> word_of_int v = s r \<and> fits_word v"
  unfolding describes_def fits_word_def by (elim allE [of _ r]) (auto intro: uint_bounded [of "s r", simplified])

lemma token_value_word:
  assumes "describes regs s" and "token_value regs t = Some v"
  shows "word_operand s t = Some (word_of_int v)" and "\<not> is_register t \<longrightarrow> py_int0 t = Some v"
    and "is_register t \<Longrightarrow> fits_word v"
  using assms describes_register [of regs s t v]
  by (auto simp: token_value_def word_operand_def split: if_splits)

text \<open>The reading of an operand while the destination is out of the map.\<close>

lemma operand_word:
  assumes "describes regs s" and "is_register dest"
    and "(if t = dest then regs dest else token_value (regs(dest := None)) t) = Some v"
    and "shift \<longrightarrow> (\<forall>u. py_int0 t = Some u \<longrightarrow> fits_word u)"
  shows "word_operand s t = Some (word_of_int v) \<and> (shift \<longrightarrow> fits_word v)"
proof -
  have "token_value regs t = Some v"
    using assms(2,3) by (auto simp: token_value_def split: if_splits)
  from token_value_word [OF assms(1) this] assms(4) show ?thesis by auto
qed

lemma alu_option_word:
  assumes "alu_option op a b = Some v"
    and "\<And>x. a = Some x \<Longrightarrow> wa = Some (word_of_int x) \<and> (op = ''shr'' \<longrightarrow> fits_word x)"
    and "\<And>y. b = Some y \<Longrightarrow> wb = Some (word_of_int y)"
  shows "word_alu_option op wa wb = Some (word_of_int v)"
proof -
  from assms(1) obtain x y where "a = Some x" "b = Some y" "alu op x y = Some v"
    by (auto simp: alu_option_def bind_eq_Some_conv)
  then show ?thesis
    using assms(2) [of x] assms(3) [of y] alu_word [of op x y v]
    by (simp add: word_alu_option_def fits_word_def)
qed

lemma assigned_word:
  assumes d: "describes regs s" and r: "is_register dest"
    and v: "assigned (regs(dest := None)) (regs dest) op dest operands = Some v"
    and lit: "op = ''shr'' \<longrightarrow> list_all (\<lambda>t. \<forall>u. py_int0 t = Some u \<longrightarrow> fits_word u) operands"
  shows "word_result s op dest operands = Some (word_of_int v)"
proof -
  let ?val = "\<lambda>t. if t = dest then regs dest else token_value (regs(dest := None)) t"
  have val: "word_operand s t = Some (word_of_int u) \<and> (op = ''shr'' \<longrightarrow> fits_word u)"
    if "?val t = Some u" "t \<in> set operands" for t u
    using operand_word [OF d r that(1), of "op = ''shr''"] that(2) lit by (auto simp: list_all_iff)
  have prev: "Some (s dest) = Some (word_of_int x) \<and> (op = ''shr'' \<longrightarrow> fits_word x)" if "regs dest = Some x" for x
    using describes_register [OF d that] by simp
  consider "op = ''clear''" | "op = ''mov''" "length operands = 1"
    | "op \<in> set alu_ops" "length operands = 1" | "op \<in> set alu_ops" "length operands = 2"
    using v by (auto simp: assigned_def Let_def split: if_splits)
  then show ?thesis
  proof cases
    case 1
    then show ?thesis using v by (simp add: assigned_def word_result_def)
  next
    case 2
    then have "operands ! 0 \<in> set operands" by (simp add: nth_mem)
    with 2 show ?thesis using v val [of "operands ! 0" v] by (simp add: assigned_def word_result_def Let_def)
  next
    case 3
    then have op: "op \<noteq> ''clear''" "op \<noteq> ''mov''" and mem: "operands ! 0 \<in> set operands"
      by (auto simp: alu_ops_def nth_mem)
    have "alu_option op (regs dest) (?val (operands ! 0)) = Some v"
      using v op 3 by (simp add: assigned_def Let_def)
    then have "word_alu_option op (Some (s dest)) (word_operand s (operands ! 0)) = Some (word_of_int v)"
      by (rule alu_option_word) (use prev val mem in blast)+
    then show ?thesis using op 3 by (simp add: word_result_def)
  next
    case 4
    then have op: "op \<noteq> ''clear''" "op \<noteq> ''mov''"
      and mem: "operands ! 0 \<in> set operands" "operands ! 1 \<in> set operands"
      by (auto simp: alu_ops_def nth_mem)
    have "alu_option op (?val (operands ! 0)) (?val (operands ! 1)) = Some v"
      using v op 4 unfolding assigned_def Let_def by (simp split del: if_split)
    then have "word_alu_option op (word_operand s (operands ! 0)) (word_operand s (operands ! 1)) = Some (word_of_int v)"
      by (rule alu_option_word) (use val mem in blast)+
    then show ?thesis using op 4 by (simp add: word_result_def)
  qed
qed

lemma low_word: "v AND 0xffffffff = uint (word_of_int v :: 32 word)"
proof -
  have "(0xffffffff :: int) = mask 32" by (simp add: mask_eq_exp_minus_1)
  then show ?thesis by (simp only: uint_word_of_int flip: take_bit_eq_mask) (simp add: take_bit_eq_mod)
qed

lemma in_set_tlD: "x \<in> set (tl xs) \<Longrightarrow> x \<in> set xs"
  by (cases xs) auto

lemma describes_frame:
  assumes "describes regs s" and "\<forall>r. is_register r \<longrightarrow> regs r \<noteq> None \<longrightarrow> s' r = s r"
  shows "describes regs s'"
  unfolding describes_def
proof (intro allI impI)
  fix r v assume r: "regs r = Some v"
  with assms(1) have "is_register r" "v = uint (s r)" by (simp_all add: describes_def)
  with assms(2) r show "is_register r \<and> v = uint (s' r)" by simp
qed

lemma assign_regs_describes:
  assumes d: "describes regs s" and c: "conforms (pc, op, raw) s s'"
    and lit: "op = ''shr'' \<longrightarrow> list_all (\<lambda>t. \<forall>u. py_int0 t = Some u \<longrightarrow> fits_word u) raw"
  shows "describes (assign_regs regs op raw) s'"
proof (cases "op \<in> set READ_ONLY \<or> plain_args raw = [] \<or> \<not> is_register (hd (plain_args raw))")
  case True
  then have "\<forall>r \<in> set registers. s' r = s r"
    using c by (simp add: conforms_def Let_def list_all_iff)
  then show ?thesis
    using True describes_frame [OF d, of s'] by (simp add: assign_regs_def Let_def is_register_def)
next
  case False
  define dest operands where "dest = hd (plain_args raw)" and "operands = tl (plain_args raw)"
  have reg: "is_register dest" and frame: "\<forall>r. is_register r \<longrightarrow> r = dest \<or> s' r = s r"
    using False c by (auto simp: conforms_def Let_def list_all_iff is_register_def dest_def)
  have popped: "describes (regs(dest := None)) s'"
    by (rule describes_frame [OF describes_pop [OF d]]) (use frame in auto)
  show ?thesis
  proof (cases "''b8'' \<in> set raw \<or> ''b16'' \<in> set raw \<or> assigned (regs(dest := None)) (regs dest) op dest operands = None")
    case True
    then show ?thesis
      using False popped by (auto simp: assign_regs_def Let_def dest_def operands_def)
  next
    case no_part: False
    then obtain v where v: "assigned (regs(dest := None)) (regs dest) op dest operands = Some v" by blast
    have "set operands \<subseteq> set raw"
      by (auto simp: operands_def plain_args_def dest: in_set_tlD)
    then have "op = ''shr'' \<longrightarrow> list_all (\<lambda>t. \<forall>u. py_int0 t = Some u \<longrightarrow> fits_word u) operands"
      using lit by (auto simp: list_all_iff)
    from assigned_word [OF d reg v this] have "s' dest = word_of_int v"
      using False no_part c by (simp add: conforms_def Let_def dest_def operands_def)
    then have "describes ((regs(dest := None))(dest := Some (v AND 0xffffffff))) s'"
      using popped reg unfolding describes_def low_word by simp
    then show ?thesis
      using False no_part v by (simp add: assign_regs_def Let_def dest_def operands_def)
  qed
qed

subsection \<open>Soundness of the inventory\<close>

definition constants_step :: "int list \<Rightarrow> constants \<Rightarrow> instruction \<Rightarrow> constants" where
  "constants_step targets regs i = (case i of (pc, op, raw) \<Rightarrow>
     if is_call_op op \<or> ends_block op then Map.empty else assign_regs (enter_block targets regs pc) op raw)"

definition constants_at :: "int list \<Rightarrow> instruction list \<Rightarrow> nat \<Rightarrow> constants" where
  "constants_at targets P k = foldl (constants_step targets) Map.empty (take k P)"

definition calls_of :: "int list \<Rightarrow> (int \<rightharpoonup> string) \<Rightarrow> constants \<Rightarrow> instruction \<Rightarrow> call_record list" where
  "calls_of targets helpers regs i = (case i of (pc, op, raw) \<Rightarrow>
     if is_call_op op then record_call helpers (enter_block targets regs pc) pc raw else [])"

lemma inventory_step_split:
  "inventory_step T h (regs, recs) i = (constants_step T regs i, recs @ calls_of T h regs i)"
  by (simp add: inventory_step_def constants_step_def calls_of_def Let_def split: prod.splits)

lemma constants_at_Suc:
  "k < length P \<Longrightarrow> constants_at T P (Suc k) = constants_step T (constants_at T P k) (P ! k)"
  by (simp add: constants_at_def take_Suc_conv_app_nth)

lemma foldl_inventory:
  "foldl (inventory_step T h) (Map.empty, []) P =
   (constants_at T P (length P), concat (map (\<lambda>k. calls_of T h (constants_at T P k) (P ! k)) [0..<length P]))"
proof (induction P rule: rev_induct)
  case (snoc i P)
  have "constants_at T (P @ [i]) k = constants_at T P k" if "k \<le> length P" for k
    using that by (simp add: constants_at_def)
  then have "concat (map (\<lambda>k. calls_of T h (constants_at T (P @ [i]) k) ((P @ [i]) ! k)) [0..<length P]) =
      concat (map (\<lambda>k. calls_of T h (constants_at T P k) (P ! k)) [0..<length P])"
    by (intro arg_cong [of _ _ concat] map_cong) (auto simp: nth_append)
  moreover have "constants_at T (P @ [i]) (length P) = constants_at T P (length P)"
    by (simp add: constants_at_def)
  ultimately show ?case
    using constants_at_Suc [of "length P" "P @ [i]" T] snoc by (simp add: inventory_step_split)
qed (simp add: constants_at_def)

lemma reaches_describes:
  assumes "reaches P T E k s" and "k < length P"
    and "\<And>i s s'. i \<in> set P \<Longrightarrow> \<not> transfers i \<Longrightarrow> E i s s' \<Longrightarrow> conforms i s s'"
    and "shift_literals_ok P"
  shows "describes (enter_block T (constants_at T P k) (fst (P ! k))) s"
  using assms(1,2)
proof (induction rule: reaches.induct)
  case (start s)
  then show ?case by (simp add: constants_at_def enter_block_def)
next
  case (target k s)
  then show ?case by (simp add: enter_block_def)
next
  case (fallthrough k s s')
  obtain pc op raw where i: "P ! k = (pc, op, raw)" by (cases "P ! k")
  have mem: "(pc, op, raw) \<in> set P" using fallthrough.hyps i by (metis nth_mem)
  have "describes (constants_at T P (Suc k)) s'"
  proof (cases "transfers (P ! k)")
    case True
    then show ?thesis
      using fallthrough.hyps i by (simp add: constants_at_Suc constants_step_def transfers_def)
  next
    case False
    have "describes (enter_block T (constants_at T P k) pc) s"
      using fallthrough i by simp
    moreover have "conforms (pc, op, raw) s s'"
      using assms(3) [OF mem] False fallthrough.hyps i by simp
    moreover have "op = ''shr'' \<longrightarrow> list_all (\<lambda>t. \<forall>u. py_int0 t = Some u \<longrightarrow> fits_word u) raw"
      using assms(4) mem by (fastforce simp: shift_literals_ok_def list_all_iff fits_word_def split: option.splits)
    ultimately have "describes (assign_regs (enter_block T (constants_at T P k) pc) op raw) s'"
      by (rule assign_regs_describes)
    then show ?thesis
      using False fallthrough.hyps i by (simp add: constants_at_Suc constants_step_def transfers_def)
  qed
  then show ?case by (simp add: enter_block_def)
qed

lemma inventory_records:
  assumes "mmio_inventory P h = Inr recs" and "branch_targets P = Inr T"
  shows "recs = concat (map (\<lambda>k. calls_of T h (constants_at T P k) (P ! k)) [0..<length P])"
  using assms by (simp add: mmio_inventory_def foldl_inventory bind_res_def)

lemma calls_of_record:
  assumes "rec \<in> set (calls_of T h regs (pc, op, raw))"
  shows "cr_pc rec = pc \<and> is_call_op op \<and> plain_args raw \<noteq> [] \<and>
    token_value (enter_block T regs pc) (last (plain_args raw)) = Some (cr_helper rec) \<and>
    h (cr_helper rec) = Some (cr_operation rec) \<and>
    cr_arguments rec = map (\<lambda>r. (tl r, enter_block T regs pc r)) [''$r10'', ''$r11'', ''$r12'', ''$r13'', ''$r14'']"
  using assms
  by (auto simp: calls_of_def record_call_def Let_def split: if_splits option.splits)

text \<open>
  C5: Every resolved fact of the inventory is true of the processor. Take any execution that enters
  basic blocks only at the listed branch targets or by falling through, whose non-branching
  instructions write what their operation says to their first operand. At each call the inventory
  lists, the called address really is the recorded helper and every resolved argument register
  really holds the recorded value; only arguments printed as unknown are left open.
\<close>

theorem inventory_sound:
  assumes "mmio_inventory P h = Inr recs" and "branch_targets P = Inr T"
    and "\<And>i s s'. i \<in> set P \<Longrightarrow> \<not> transfers i \<Longrightarrow> E i s s' \<Longrightarrow> conforms i s s'"
    and "shift_literals_ok P" and "distinct (map fst P)"
    and "reaches P T E k s" and "k < length P"
    and "rec \<in> set recs" and "cr_pc rec = fst (P ! k)"
  shows "h (cr_helper rec) = Some (cr_operation rec) \<and>
    word_operand s (last (plain_args (snd (snd (P ! k))))) = Some (word_of_int (cr_helper rec)) \<and>
    (\<forall>r v. (r, Some v) \<in> set (cr_arguments rec) \<longrightarrow> v = uint (s (CHR ''$'' # r)))"
proof -
  from assms(8) inventory_records [OF assms(1,2)] obtain j where j: "j < length P"
    "rec \<in> set (calls_of T h (constants_at T P j) (P ! j))" by auto
  obtain pc op raw where i: "P ! j = (pc, op, raw)" by (cases "P ! j")
  note facts = calls_of_record [OF j(2) [unfolded i]]
  have "map fst P ! j = map fst P ! k" using facts i assms(7,9) j(1) by simp
  then have "j = k" using assms(5,7) j(1) using nth_eq_iff_index_eq [of "map fst P" j k] by simp
  then have d: "describes (enter_block T (constants_at T P j) pc) s"
    using reaches_describes [OF assms(6,7,3,4)] i by simp
  have "word_operand s (last (plain_args raw)) = Some (word_of_int (cr_helper rec))"
    using token_value_word(1) [OF d] facts by blast
  moreover have "\<forall>r v. (r, Some v) \<in> set (cr_arguments rec) \<longrightarrow> v = uint (s (CHR ''$'' # r))"
    using facts d by (auto simp: describes_def)
  ultimately show ?thesis using facts i \<open>j = k\<close> by simp
qed

text \<open>A listing of three instructions, run by a processor that does exactly what the contract says.\<close>

definition demo_listing :: "instruction list" where
  "demo_listing = [(0x10, ''mov'', [''$r10'', ''0x21000'']), (0x16, ''add'', [''b32'', ''$r10'', ''$r10'', ''0x760'']),
     (0x1a, ''lcall'', [''0x625''])]"

definition demo_states :: "machine list" where
  "demo_states = [(\<lambda>_. 7), (\<lambda>_. 7)(''$r10'' := 0x21000), (\<lambda>_. 7)(''$r10'' := 0x21760)]"

definition demo_record :: call_record where
  "demo_record = \<lparr>cr_pc = 0x1a, cr_helper = 0x625, cr_operation = ''write'',
     cr_arguments = [(''r10'', Some 0x21760), (''r11'', None), (''r12'', None), (''r13'', None), (''r14'', None)]\<rparr>"

lemma demo_inventory:
  "branch_targets demo_listing = Inr [0x625]"
  "mmio_inventory demo_listing HELPERS_fecs = Inr [demo_record]"
  "shift_literals_ok demo_listing" "distinct (map fst demo_listing)"
  by code_simp+

lemma demo_conforms:
  "conforms (demo_listing ! 0) (demo_states ! 0) (demo_states ! 1)"
  "conforms (demo_listing ! Suc 0) (demo_states ! 1) (demo_states ! 2)"
  by code_simp+

lemma demo_reaches: "reaches demo_listing [0x625] conforms 2 (demo_states ! 2)"
proof -
  have "reaches demo_listing [0x625] conforms 0 (demo_states ! 0)" by (rule reaches.start)
  from reaches.fallthrough [OF this _ demo_conforms(1)]
  have "reaches demo_listing [0x625] conforms (Suc 0) (demo_states ! 1)" by (simp add: demo_listing_def)
  from reaches.fallthrough [OF this _ demo_conforms(2)] show ?thesis by (simp add: demo_listing_def numeral_2_eq_2)
qed

theorem inventory_sound_witness:
  "HELPERS_fecs 0x625 = Some ''write'' \<and> uint ((demo_states ! 2) ''$r10'') = 0x21760"
  using inventory_sound [OF demo_inventory(2,1) _ demo_inventory(3,4) demo_reaches, of demo_record]
  by (simp add: demo_listing_def demo_record_def)

text \<open>
  The inventory misses no direct call of a helper and invents none: a record is a call
  instruction of the listing whose target is a known helper, and each call instruction whose last
  operand is a literal address of a helper has its record.
\<close>

lemma inventory_complete:
  assumes "mmio_inventory P h = Inr recs"
  shows "(\<forall>rec \<in> set recs. h (cr_helper rec) = Some (cr_operation rec) \<and>
      (\<exists>op raw. (cr_pc rec, op, raw) \<in> set P \<and> is_call_op op)) \<and>
    (\<forall>(pc, op, raw) \<in> set P. \<forall>target name. is_call_op op \<and> plain_args raw \<noteq> [] \<and>
      \<not> is_register (last (plain_args raw)) \<and> py_int0 (last (plain_args raw)) = Some target \<and>
      h target = Some name \<longrightarrow>
      (\<exists>rec \<in> set recs. cr_pc rec = pc \<and> cr_helper rec = target \<and> cr_operation rec = name))"
proof -
  from assms obtain T where T: "branch_targets P = Inr T"
    by (cases "branch_targets P") (auto simp: mmio_inventory_def bind_res_def)
  note recs = inventory_records [OF assms T]
  have "h (cr_helper rec) = Some (cr_operation rec) \<and> (\<exists>op raw. (cr_pc rec, op, raw) \<in> set P \<and> is_call_op op)"
    if member: "rec \<in> set recs" for rec
  proof -
    from member recs obtain k where k: "k < length P" "rec \<in> set (calls_of T h (constants_at T P k) (P ! k))" by auto
    obtain pc op raw where i: "P ! k = (pc, op, raw)" by (cases "P ! k")
    with k(1) have "(pc, op, raw) \<in> set P" by (metis nth_mem)
    with calls_of_record [OF k(2) [unfolded i]] show ?thesis by blast
  qed
  moreover have "\<exists>rec \<in> set recs. cr_pc rec = pc \<and> cr_helper rec = target \<and> cr_operation rec = name"
    if "(pc, op, raw) \<in> set P" "is_call_op op" "plain_args raw \<noteq> []" "\<not> is_register (last (plain_args raw))"
      "py_int0 (last (plain_args raw)) = Some target" "h target = Some name" for pc op raw target name
  proof -
    from that(1) obtain k where k: "k < length P" "P ! k = (pc, op, raw)" by (metis in_set_conv_nth)
    have "\<exists>rec \<in> set (calls_of T h (constants_at T P k) (P ! k)).
        cr_pc rec = pc \<and> cr_helper rec = target \<and> cr_operation rec = name"
      using that k(2) by (simp add: calls_of_def record_call_def token_value_def)
    then show ?thesis using k(1) recs by auto
  qed
  ultimately show ?thesis by blast
qed

end
