(* ===== verification/RegPacks.thy ===== *)
theory RegPacks
  imports PyBytes
begin

text \<open>
  \<^verbatim>\<open>tools/analyze_gr_register_packs.py\<close>: the audit of the public register packs for records
  at the addresses of interest, and of the data images for the addresses as raw words. The hash
  is the parameter \<open>digest\<close>; the file names and the fixed texts of the report are left out.
\<close>

subsection \<open>The addresses\<close>

definition GPC_BASE :: int where "GPC_BASE = 0x500000"
definition GPC_STRIDE_packs :: int where "GPC_STRIDE_packs = 0x8000"
definition GPC_COUNT :: nat where "GPC_COUNT = 6"

definition pack_hex32 :: "int \<Rightarrow> string" where
  "pack_hex32 v = py_hex 8 v"

definition gpc_targets :: "int \<Rightarrow> int list" where
  "gpc_targets r = map (\<lambda>i. GPC_BASE + int i * GPC_STRIDE_packs + r) [0..<GPC_COUNT]"

definition slot_targets :: "int \<Rightarrow> int list" where
  "slot_targets r = map (\<lambda>i. r + int i * 4) [0..<GPC_COUNT]"

definition target_sets :: "(string \<times> int list) list" where
  "target_sets =
    [(''gpc_tpc_count_0x2608'', gpc_targets 0x2608),
     (''gpc_ppc0_tpc_mask_0x0c30'', gpc_targets 0x0C30),
     (''gpc_ppc1_tpc_mask_0x0c34'', gpc_targets 0x0C34),
     (''gpc_ppc2_tpc_mask_0x0c38'', gpc_targets 0x0C38),
     (''gr_gpc_count_0x409604'', [0x409604]),
     (''physical_raw_0x021760_stride4_slots0_to5'', slot_targets 0x021760),
     (''physical_status_0x021c38_stride4_slots0_to5'', slot_targets 0x021C38),
     (''physical_ctrl_0x021838_stride4_slots0_to5'', slot_targets 0x021838)]"

text \<open>The dictionary comprehension keeps the last label of an address.\<close>

definition by_address :: "int \<rightharpoonup> string" where
  "by_address = map_of (rev (concat (map (\<lambda>(label, vals). map (\<lambda>a. (a, label)) vals) target_sets)))"

definition no_matches :: "string \<rightharpoonup> 'a list" where
  "no_matches = map_of (map (\<lambda>(label, vals). (label, [])) target_sets)"

subsection \<open>Register packs\<close>

datatype pack_error = UnknownFormat string | NotMultiple nat nat

record pack_match =
  pm_record_index :: nat
  pm_file_offset :: string
  pm_address :: string
  pm_raw_value :: string
  pm_raw_index :: "string option"

record pack_report =
  pr_sha256 :: string
  pr_bytes :: nat
  pr_record_size :: nat
  pr_record_count :: nat
  pr_target_matches :: "string \<rightharpoonup> pack_match list"

definition record_size :: "string \<Rightarrow> pack_error + nat" where
  "record_size fmt = (if fmt = ''av'' then Inr 8 else if fmt = ''aiv'' then Inr 12 else Inl (UnknownFormat fmt))"

text \<open>\<^verbatim>\<open>struct.unpack("<II", chunk)\<close> or \<^verbatim>\<open>"<III"\<close>, as address, ignored index and value.\<close>

definition unpack_record :: "nat \<Rightarrow> bytes \<Rightarrow> int \<times> int option \<times> int" where
  "unpack_record width chunk = (let word = (\<lambda>i. le_value (slice (4 * i) (4 * i + 4) chunk)) in
     if width = 8 then (word 0, None, word 1) else (word 0, Some (word 1), word 2))"

definition pack_step :: "nat \<Rightarrow> bytes \<Rightarrow> (string \<rightharpoonup> pack_match list) \<Rightarrow> nat \<times> nat \<Rightarrow> (string \<rightharpoonup> pack_match list)" where
  "pack_step width data matches x = (case x of (record_index, offset) \<Rightarrow>
     (case unpack_record width (slice offset (offset + width) data) of (addr, ignored_index, val) \<Rightarrow>
       (case by_address addr of
          None \<Rightarrow> matches
        | Some label \<Rightarrow> append_at matches label
            \<lparr>pm_record_index = record_index, pm_file_offset = pack_hex32 (int offset), pm_address = pack_hex32 addr,
             pm_raw_value = pack_hex32 val, pm_raw_index = map_option pack_hex32 ignored_index\<rparr>)))"

definition parse_pack :: "(bytes \<Rightarrow> string) \<Rightarrow> bytes \<Rightarrow> string \<Rightarrow> pack_error + pack_report" where
  "parse_pack digest data fmt =
     bind_res (record_size fmt) (\<lambda>width.
     bind_res (ensure (length data mod width = 0) (NotMultiple (length data) width)) (\<lambda>_.
     Inr \<lparr>pr_sha256 = digest data, pr_bytes = length data, pr_record_size = width,
          pr_record_count = length data div width,
          pr_target_matches = foldl (pack_step width data) no_matches
            (enumerate_from 0 (map (\<lambda>i. i * width) [0..<length data div width]))\<rparr>))"

subsection \<open>Raw words in a data image\<close>

text \<open>\<^verbatim>\<open>data.find(needle, start)\<close>; a nonempty needle.\<close>

function py_find :: "bytes \<Rightarrow> bytes \<Rightarrow> nat \<Rightarrow> nat option" where
  "py_find data needle start =
     (if start + length needle > length data then None
      else if slice start (start + length needle) data = needle then Some start
      else py_find data needle (Suc start))"
  by pat_completeness auto
termination
  by (relation "measure (\<lambda>(data, needle, start). Suc (length data) - start)") auto

declare py_find.simps [simp del]

lemma py_find_bounds:
  "py_find data needle start = Some off \<Longrightarrow> start \<le> off \<and> off + length needle \<le> length data"
proof (induction data needle start rule: py_find.induct)
  case (1 data needle start)
  then show ?case
    using py_find.simps [of data needle start] by (auto split: if_splits)
qed

text \<open>The loop \<^verbatim>\<open>while True\<close> of one value: every occurrence, overlapping ones included.\<close>

function find_loop :: "bytes \<Rightarrow> bytes \<Rightarrow> nat \<Rightarrow> nat list" where
  "find_loop data needle start =
     (case py_find data needle start of None \<Rightarrow> [] | Some offset \<Rightarrow> offset # find_loop data needle (offset + 1))"
  by pat_completeness auto
termination
  by (relation "measure (\<lambda>(data, needle, start). Suc (length data) - start)")
    (auto dest!: py_find_bounds)

declare find_loop.simps [simp del]

record raw_occurrence =
  oc_file_offset :: string
  oc_word :: string
  oc_aligned :: bool

definition raw_occurrences :: "bytes \<Rightarrow> (string \<times> raw_occurrence list) list" where
  "raw_occurrences data = map (\<lambda>(label, vals). (label, concat (map (\<lambda>v.
     map (\<lambda>offset. \<lparr>oc_file_offset = pack_hex32 (int offset), oc_word = pack_hex32 v, oc_aligned = offset mod 4 = 0\<rparr>)
       (find_loop data (le_bytes 4 v) 0)) vals))) target_sets"

text \<open>The report of \<^verbatim>\<open>main\<close> on the four firmware files.\<close>

record pack_audit_report =
  pa_targets :: "(string \<times> string list) list"
  pa_packs :: "pack_report list"
  pa_images :: "(string \<times> nat \<times> (string \<times> raw_occurrence list) list) list"

definition data_image :: "(bytes \<Rightarrow> string) \<Rightarrow> bytes \<Rightarrow> string \<times> nat \<times> (string \<times> raw_occurrence list) list" where
  "data_image digest data = (digest data, length data, raw_occurrences data)"

definition pack_audit :: "(bytes \<Rightarrow> string) \<Rightarrow> bytes \<Rightarrow> bytes \<Rightarrow> bytes \<Rightarrow> bytes \<Rightarrow> pack_error + pack_audit_report" where
  "pack_audit digest nonctx ctx fecs_data gpccs_data =
     bind_res (parse_pack digest nonctx ''av'') (\<lambda>av. bind_res (parse_pack digest ctx ''aiv'') (\<lambda>aiv.
     Inr \<lparr>pa_targets = map (\<lambda>(label, vals). (label, map pack_hex32 vals)) target_sets, pa_packs = [av, aiv],
          pa_images = [data_image digest fecs_data, data_image digest gpccs_data]\<rparr>))"

text \<open>The audit fails exactly when one of the two packs has a partial record.\<close>

lemma pack_audit_accepts:
  "(\<exists>r. pack_audit digest nonctx ctx fecs_data gpccs_data = Inr r) \<longleftrightarrow> length nonctx mod 8 = 0 \<and> length ctx mod 12 = 0"
  by (auto simp: pack_audit_def parse_pack_def record_size_def bind_res_Inr_conv)

lemma py_find_filter:
  "py_find data needle start =
     (case filter (\<lambda>i. slice i (i + length needle) data = needle) [start..<Suc (length data) - length needle] of
        [] \<Rightarrow> None | i # _ \<Rightarrow> Some i)"
proof (induction data needle start rule: py_find.induct)
  case (1 data needle start)
  show ?case
  proof (cases "start + length needle > length data")
    case False
    then have "[start..<Suc (length data) - length needle] = start # [Suc start..<Suc (length data) - length needle]"
      by (intro upt_conv_Cons) auto
    with False 1 show ?thesis by (subst py_find.simps) (simp split: list.splits)
  qed (simp add: py_find.simps)
qed

lemma filter_upt_Cons:
  assumes "filter P [a..<b] = x # xs"
  shows "xs = filter P [Suc x..<b]"
proof -
  from assms obtain us vs where "[a..<b] = us @ x # vs" "\<forall>u \<in> set us. \<not> P u" "xs = filter P vs"
    by (auto simp: filter_eq_Cons_iff)
  then have "vs = drop (Suc (length us)) [a..<b]" "[a..<b] ! length us = x" "length us < length [a..<b]"
    by (simp_all add: nth_append)
  then have "vs = [Suc x..<b]" by simp
  with \<open>xs = filter P vs\<close> show ?thesis by simp
qed

lemma find_loop_filter:
  "find_loop data needle start =
     filter (\<lambda>i. slice i (i + length needle) data = needle) [start..<Suc (length data) - length needle]"
proof (induction data needle start rule: find_loop.induct)
  case (1 data needle start)
  show ?case
  proof (cases "py_find data needle start")
    case None
    then show ?thesis by (subst find_loop.simps) (simp add: py_find_filter split: list.splits)
  next
    case (Some off)
    then show ?thesis
      using 1 [OF Some] by (subst find_loop.simps) (auto simp: py_find_filter dest: filter_upt_Cons split: list.splits)
  qed
qed

subsection \<open>The audit of a pack\<close>

text \<open>A record as the firmware stores it: address, index in the three-word format, value.\<close>

type_synonym pack_record = "int \<times> int option \<times> int"

definition encode_record :: "pack_record \<Rightarrow> bytes" where
  "encode_record r = (case r of (a, k, v) \<Rightarrow>
     le_bytes 4 a @ (case k of None \<Rightarrow> [] | Some k \<Rightarrow> le_bytes 4 k) @ le_bytes 4 v)"

definition word_range :: "int \<Rightarrow> bool" where
  "word_range v \<longleftrightarrow> 0 \<le> v \<and> v < 2 ^ 32"

definition record_fits :: "string \<Rightarrow> pack_record \<Rightarrow> bool" where
  "record_fits fmt r = (case r of (a, k, v) \<Rightarrow> word_range a \<and> word_range v \<and>
     (case k of None \<Rightarrow> fmt = ''av'' | Some k \<Rightarrow> fmt = ''aiv'' \<and> word_range k))"

definition match_of :: "nat \<Rightarrow> nat \<Rightarrow> pack_record \<Rightarrow> pack_match" where
  "match_of width i r = (case r of (a, k, v) \<Rightarrow>
     \<lparr>pm_record_index = i, pm_file_offset = pack_hex32 (int (i * width)), pm_address = pack_hex32 a,
      pm_raw_value = pack_hex32 v, pm_raw_index = map_option pack_hex32 k\<rparr>)"

lemma targets_distinct:
  "distinct (map fst (concat (map (\<lambda>(label, vals). map (\<lambda>a. (a, label)) vals) target_sets)))"
  "distinct (map fst target_sets)"
  by code_simp+

lemma by_address_conv:
  assumes "(label, vals) \<in> set target_sets"
  shows "by_address a = Some label \<longleftrightarrow> a \<in> set vals"
proof -
  have "by_address a = Some label \<longleftrightarrow>
      (a, label) \<in> set (concat (map (\<lambda>(label, vals). map (\<lambda>a. (a, label)) vals) target_sets))"
    unfolding by_address_def using targets_distinct(1) by (subst map_of_eq_Some_iff) (simp_all add: rev_map [symmetric])
  also have "\<dots> \<longleftrightarrow> (\<exists>vals'. (label, vals') \<in> set target_sets \<and> a \<in> set vals')" by auto
  also have "\<dots> \<longleftrightarrow> a \<in> set vals"
    using assms targets_distinct(2) eq_key_imp_eq_value by metis
  finally show ?thesis .
qed

lemma no_matches_lookup: "(label, vals) \<in> set target_sets \<Longrightarrow> no_matches label = Some []"
  by (force simp: no_matches_def map_of_map intro: weak_map_of_SomeI)

lemma le_word_range: "word_range v \<Longrightarrow> le_value (le_bytes 4 v) = v"
  by (simp add: le_value_le_bytes word_range_def)

lemma unpack_encode:
  assumes "record_fits fmt r" and "record_size fmt = Inr width"
  shows "length (encode_record r) = width \<and> unpack_record width (encode_record r) = r"
proof -
  obtain a k v where r: "r = (a, k, v)" by (cases r)
  show ?thesis
    using assms unfolding r
    by (cases k) (auto simp: record_fits_def record_size_def encode_record_def unpack_record_def Let_def
        slice_def le_word_range split: if_splits)
qed

lemma slice_concat:
  assumes "list_all (\<lambda>x. length (f x) = width) xs" and "i < length xs"
  shows "slice (i * width) (i * width + width) (concat (map f xs)) = f (xs ! i)"
  using assms
proof (induction xs arbitrary: i)
  case (Cons x xs)
  then show ?case by (cases i) (simp_all add: slice_def add.commute)
qed simp

lemma foldl_pack_step:
  assumes "(label, vals) \<in> set target_sets" and "m label = Some l"
    and "\<And>i off. (i, off) \<in> set xs \<Longrightarrow> off = i * width \<and> unpack_record width (slice off (off + width) data) = rs ! i"
  shows "foldl (pack_step width data) m xs label =
    Some (l @ map (\<lambda>(i, off). match_of width i (rs ! i)) (filter (\<lambda>(i, off). fst (rs ! i) \<in> set vals) xs))"
  using assms(2,3)
proof (induction xs arbitrary: m l)
  case (Cons x xs)
  obtain i off a k v where x: "x = (i, off)" and r: "rs ! i = (a, k, v)" by (metis prod_cases3 surj_pair)
  have u: "off = i * width" "unpack_record width (slice off (off + width) data) = (a, k, v)"
    using Cons.prems(2) [of i off] x r by auto
  define l' where "l' = (if a \<in> set vals then l @ [match_of width i (a, k, v)] else l)"
  have "pack_step width data m x label = Some l'"
  proof (cases "by_address a")
    case None
    then show ?thesis
      using by_address_conv [OF assms(1), of a] Cons.prems(1) u by (simp add: pack_step_def x l'_def)
  next
    case (Some other)
    then show ?thesis
      using by_address_conv [OF assms(1), of a] Cons.prems(1) u
      by (auto simp: pack_step_def x l'_def append_at_def match_of_def)
  qed
  then show ?case
    using Cons.IH [of "pack_step width data m x" l'] Cons.prems(2) by (simp add: x r l'_def)
qed simp

lemma enumerate_upt: "enumerate_from 0 (map f [0..<n]) = map (\<lambda>i. (i, f i)) [0..<n]"
  by (simp add: enumerate_from_eq enumerate_eq_zip zip_map2 zip_same_conv_map)

text \<open>
  C31: Encoding any list of records and parsing the pack again counts them and reports, for each named
  set of target addresses, exactly the records at those addresses in the order of the pack, each
  with its index, byte offset and value; in the format with and the one without an index word.
\<close>

theorem pack_roundtrip:
  assumes "list_all (record_fits fmt) rs" and "record_size fmt = Inr width"
  shows "\<exists>rep. parse_pack digest (concat (map encode_record rs)) fmt = Inr rep \<and> pr_record_count rep = length rs \<and>
    (\<forall>(label, addresses) \<in> set target_sets. pr_target_matches rep label =
      Some (map (\<lambda>i. match_of width i (rs ! i)) (filter (\<lambda>i. fst (rs ! i) \<in> set addresses) [0..<length rs])))"
proof -
  let ?data = "concat (map encode_record rs)"
  let ?xs = "enumerate_from 0 (map (\<lambda>i. i * width) [0..<length rs])"
  have len: "list_all (\<lambda>r. length (encode_record r) = width) rs"
    using assms unpack_encode by (auto simp: list_all_iff)
  then have "length ?data = length rs * width" by (induction rs) simp_all
  moreover have w: "width > 0" using assms(2) by (auto simp: record_size_def split: if_splits)
  ultimately have size: "length ?data mod width = 0" "length ?data div width = length rs" by simp_all
  have "unpack_record width (slice (i * width) (i * width + width) ?data) = rs ! i" if "i < length rs" for i
    using slice_concat [OF len that] unpack_encode [OF _ assms(2), of "rs ! i"] assms(1) that
    by (simp add: list_all_length)
  then have pos: "\<And>i off. (i, off) \<in> set ?xs \<Longrightarrow>
      off = i * width \<and> unpack_record width (slice off (off + width) ?data) = rs ! i"
    by (auto simp: enumerate_upt)
  have "foldl (pack_step width ?data) no_matches ?xs label =
      Some (map (\<lambda>i. match_of width i (rs ! i)) (filter (\<lambda>i. fst (rs ! i) \<in> set vals) [0..<length rs]))"
    if "(label, vals) \<in> set target_sets" for label vals
    using foldl_pack_step [where m = no_matches and xs = ?xs, OF that no_matches_lookup [OF that] pos] by (simp add: enumerate_upt filter_map comp_def)
  then show ?thesis using assms(2) size by (simp add: parse_pack_def) blast
qed

theorem pack_roundtrip_witness:
  "\<exists>rep. parse_pack (\<lambda>_. ''digest'') (concat (map encode_record [(0x404000, None, 3), (0x409604, None, 6)])) ''av'' = Inr rep \<and>
    pr_target_matches rep ''gr_gpc_count_0x409604'' = Some [match_of 8 1 (0x409604, None, 6)]"
  using pack_roundtrip [of "''av''" "[(0x404000, None, 3), (0x409604, None, 6)]" 8 "\<lambda>_. ''digest''"]
  by (force simp: record_fits_def word_range_def record_size_def target_sets_def)

end
