(* ===== verification/Devinit.thy ===== *)
theory Devinit
  imports PyBytes
begin

text \<open>
  \<^verbatim>\<open>tools/analyze_devinit_tpc_path.py\<close>: the bounded decoder of the DEVINIT scripts around
  the TPC control block, with the reading of ROM bytes that the other ROM tools share. A script is
  decoded into a list of writes; the lemmas show that the decoding loses nothing, since encoding the
  writes again gives the bytes of the ROM. SHA-256 is the parameter \<open>digest\<close>.
\<close>

subsection \<open>Reading a ROM\<close>

text \<open>\<^verbatim>\<open>require\<close> and the explicit raise are \<^verbatim>\<open>ValueError\<close>s, reading one byte past the end an
  \<^verbatim>\<open>IndexError\<close>, unpacking past the end a \<^verbatim>\<open>struct.error\<close>.\<close>

datatype rom_error = Require string | UnexpectedOpcode int nat | IndexError | StructError

definition require :: "bool \<Rightarrow> string \<Rightarrow> rom_error + unit" where
  "require condition message = ensure condition (Require message)"

definition byte_at :: "bytes \<Rightarrow> nat \<Rightarrow> rom_error + int" where
  "byte_at data i = (if i < length data then Inr (uint (data ! i)) else Inl IndexError)"

definition unpack :: "nat \<Rightarrow> bytes \<Rightarrow> nat \<Rightarrow> rom_error + int" where
  "unpack width data offset = of_option StructError (get_field width data offset)"

abbreviation u8 where "u8 \<equiv> unpack 1"
abbreviation u16 where "u16 \<equiv> unpack 2"
abbreviation u32 where "u32 \<equiv> unpack 4"

type_synonym triple = "int \<times> int \<times> int"

text \<open>\<^verbatim>\<open>struct.unpack_from("<III", data, offset)\<close>\<close>

definition unpack_III :: "bytes \<Rightarrow> nat \<Rightarrow> rom_error + triple" where
  "unpack_III data offset = bind_res (u32 data offset) (\<lambda>a. bind_res (u32 data (offset + 4)) (\<lambda>b.
     bind_res (u32 data (offset + 8)) (\<lambda>c. Inr (a, b, c))))"

definition unpack_words :: "bytes \<Rightarrow> nat \<Rightarrow> nat \<Rightarrow> rom_error + int list" where
  "unpack_words data offset n = map_res (\<lambda>i. u32 data (offset + 4 * i)) [0..<n]"

lemma bind_res_cong [fundef_cong]:
  "r = r' \<Longrightarrow> (\<And>x. r' = Inr x \<Longrightarrow> f x = g x) \<Longrightarrow> bind_res r f = bind_res r' g"
  by (cases r') simp_all

lemma require_Inr [simp, result_simps]: "require c msg = Inr u \<longleftrightarrow> c"
  by (simp add: require_def)

lemma require_True [simp, result_simps]: "require True msg = Inr ()"
  by (simp add: require_def)

lemma slice_append: "a \<le> b \<Longrightarrow> b \<le> c \<Longrightarrow> slice a b xs @ slice b c xs = slice a c xs"
  by (auto simp: le_iff_add slice_def take_add add.commute)

lemma length_slice: "b \<le> length xs \<Longrightarrow> length (slice a b xs) = b - a"
  by (simp add: slice_def)

lemma unpack_slice:
  assumes "unpack w data off = Inr v"
  shows "slice off (off + w) data = le_bytes w v \<and> off + w \<le> length data"
proof -
  from assms have v: "off + w \<le> length data" "v = le_value (slice off (off + w) data)"
    by (auto simp: unpack_def get_field_def split: if_splits)
  then have "length (slice off (off + w) data) = w" by (simp add: length_slice)
  with v le_bytes_le_value [of "slice off (off + w) data"] show ?thesis by simp
qed

lemma byte_at_slice:
  "byte_at data i = Inr v \<Longrightarrow> slice i (Suc i) data = [word_of_int v] \<and> i < length data"
  by (auto simp: byte_at_def slice_def Cons_nth_drop_Suc [symmetric] split: if_splits)

lemma unpack_III_slice:
  assumes "unpack_III data off = Inr (a, b, c)"
  shows "slice off (off + 12) data = le_bytes 4 a @ le_bytes 4 b @ le_bytes 4 c \<and> off + 12 \<le> length data"
proof -
  from assms have u: "u32 data off = Inr a" "u32 data (off + 4) = Inr b" "u32 data (off + 8) = Inr c"
    by (auto simp: unpack_III_def bind_res_Inr_conv)
  have "slice off (off + 12) data =
      slice off (off + 4) data @ slice (off + 4) (off + 8) data @ slice (off + 8) (off + 12) data"
    by (simp add: slice_append)
  with u [THEN unpack_slice] show ?thesis by (simp add: add.commute)
qed

lemma unpack_words_slice:
  assumes "unpack_words data off n = Inr vs" and "off \<le> length data"
  shows "length vs = n \<and> slice off (off + 4 * n) data = concat (map (le_bytes 4) vs) \<and> off + 4 * n \<le> length data"
  using assms
proof (induction n arbitrary: vs)
  case 0
  then show ?case by (simp add: unpack_words_def slice_def)
next
  case (Suc n)
  have "list_all2 (\<lambda>i v. u32 data (off + 4 * i) = Inr v) ([0..<n] @ [n]) vs"
    using Suc.prems(1) by (simp add: unpack_words_def map_res_Inr_conv)
  then obtain us u where vs: "vs = us @ [u]" "unpack_words data off n = Inr us" "u32 data (off + 4 * n) = Inr u"
    by (auto simp: list_all2_append1 list_all2_Cons1 unpack_words_def map_res_Inr_conv)
  from Suc.IH [OF vs(2) Suc.prems(2)] unpack_slice [OF vs(3)]
    slice_append [of off "off + 4 * n" "off + 4 * n + 4" data]
  show ?case by (simp add: vs(1) algebra_simps)
qed

subsection \<open>Scripts\<close>

datatype script_write =
  NV_REG int int int
| ZM_REG int int
| ZM_REG_SEQUENCE int "int list"

definition write_size :: "script_write \<Rightarrow> nat" where
  "write_size w = (case w of NV_REG _ _ _ \<Rightarrow> 13 | ZM_REG _ _ \<Rightarrow> 9 | ZM_REG_SEQUENCE _ vs \<Rightarrow> 6 + 4 * length vs)"

text \<open>One turn of the decoding loop; the opcode at \<open>pos\<close> has been read.\<close>

definition decode_write :: "bytes \<Rightarrow> nat \<Rightarrow> int \<Rightarrow> rom_error + script_write" where
  "decode_write data pos op =
     (if op = 0x6E then
        bind_res (unpack_III data (pos + 1)) (\<lambda>(reg, mask, v). Inr (NV_REG reg mask v))
      else if op = 0x7A then
        bind_res (u32 data (pos + 1)) (\<lambda>reg. bind_res (u32 data (pos + 5)) (\<lambda>v. Inr (ZM_REG reg v)))
      else if op = 0x58 then
        bind_res (u32 data (pos + 1)) (\<lambda>reg. bind_res (u8 data (pos + 5)) (\<lambda>n.
        bind_res (unpack_words data (pos + 6) (nat n)) (\<lambda>vs. Inr (ZM_REG_SEQUENCE reg vs))))
      else Inl (UnexpectedOpcode op pos))"

lemma write_size_pos [simp]: "0 < write_size w"
  by (cases w) (simp_all add: write_size_def)

text \<open>The writes of a subscript that starts at \<open>start\<close>, and the position of its terminator.\<close>

function subscript :: "bytes \<Rightarrow> nat \<Rightarrow> nat \<Rightarrow> rom_error + script_write list \<times> nat" where
  "subscript data start pos =
     (if length data \<le> pos then Inl IndexError
      else let op = uint (data ! pos) in
        if op = 0x72 \<or> op = 0x71 then Inr ([], pos)
        else bind_res (decode_write data pos op) (\<lambda>w.
             bind_res (require (pos + write_size w - start < 128) ''Subscript exceeded bounded scope'') (\<lambda>_.
             bind_res (subscript data start (pos + write_size w)) (\<lambda>(ws, stop). Inr (w # ws, stop)))))"
  by pat_completeness auto
termination
  by (relation "measure (\<lambda>(data, start, pos). length data - pos)") (auto intro!: diff_less_mono2)

declare subscript.simps [simp del]

text \<open>The writes inlined in the parent: every one is a read-modify-write.\<close>

function inline_writes :: "bytes \<Rightarrow> nat \<Rightarrow> nat \<Rightarrow> rom_error + triple list \<times> nat" where
  "inline_writes data pos call_start =
     (if call_start \<le> pos then Inr ([], pos)
      else bind_res (byte_at data pos) (\<lambda>op.
           bind_res (require (op = 0x6E) ''Expected parent NV_REG'') (\<lambda>_.
           bind_res (unpack_III data (pos + 1)) (\<lambda>t.
           bind_res (inline_writes data (pos + 13) call_start) (\<lambda>(ts, stop). Inr (t # ts, stop))))))"
  by pat_completeness auto
termination
  by (relation "measure (\<lambda>(data, pos, call_start). call_start - pos)") auto

declare inline_writes.simps [simp del]

record direct_guard =
  dg_file_offset :: nat
  dg_register :: int
  dg_mask :: int
  dg_value :: int

definition direct_condition :: "bytes \<Rightarrow> nat \<Rightarrow> rom_error + direct_guard" where
  "direct_condition data offset =
     bind_res (require (offset + 13 \<le> length data) ''Truncated direct condition'') (\<lambda>_.
     bind_res (byte_at data offset) (\<lambda>op.
     bind_res (require (op = 0xAC) ''Expected NV_REG_CONDITION_DIRECT'') (\<lambda>_.
     bind_res (unpack_III data (offset + 1)) (\<lambda>(register, mask, v).
     Inr \<lparr>dg_file_offset = offset, dg_register = register, dg_mask = mask, dg_value = v\<rparr>))))"

record script_block =
  sb_call_offset :: nat
  sb_guard :: direct_guard
  sb_writes :: "script_write list"
  sb_end_exclusive :: nat

definition family_block :: "bytes \<Rightarrow> nat \<Rightarrow> nat \<Rightarrow> rom_error + script_block" where
  "family_block data call_start i = (let call = call_start + 3 * i in
     bind_res (byte_at data call) (\<lambda>op.
     bind_res (require (op = 0x5B) ''Expected direct CALL'') (\<lambda>_.
     bind_res (u16 data (call + 1)) (\<lambda>p. let start = 0xA00 + nat p in
     bind_res (direct_condition data start) (\<lambda>guard.
     bind_res (subscript data start (start + 13)) (\<lambda>(ws, pos).
     bind_res (require (slice pos (pos + 2) data = [0x72, 0x71]) ''Expected child RESUME/DONE'') (\<lambda>_.
     Inr \<lparr>sb_call_offset = call, sb_guard = guard, sb_writes = ws, sb_end_exclusive = pos + 2\<rparr>)))))))"

record script_family =
  fa_parent_offset :: nat
  fa_condition_index :: int
  fa_inline :: "triple list"
  fa_blocks :: "script_block list"

definition guarded_family_at :: "bytes \<Rightarrow> nat \<Rightarrow> nat \<Rightarrow> nat \<Rightarrow> nat \<Rightarrow> rom_error + script_family" where
  "guarded_family_at data parent call_start n second =
     bind_res (byte_at data parent) (\<lambda>op.
     bind_res (require (op = 0x75) ''Expected parent CONDITION'') (\<lambda>_. let stop = call_start + 3 * n in
     bind_res (require (slice stop (stop + 2) data = [0x72, 0x71]) ''Bad parent boundary'') (\<lambda>_.
     bind_res (inline_writes data (parent + 2) call_start) (\<lambda>(inline, pos).
     bind_res (require (pos = call_start) ''Misaligned parent call boundary'') (\<lambda>_.
     bind_res (map_res (family_block data call_start) [0..<n]) (\<lambda>blocks.
     bind_res (require (list_ex (\<lambda>b. dg_file_offset (sb_guard b) = second) blocks) ''Missing TPC call'') (\<lambda>_.
     bind_res (byte_at data (parent + 1)) (\<lambda>index.
     Inr \<lparr>fa_parent_offset = parent, fa_condition_index = index, fa_inline = inline, fa_blocks = blocks\<rparr>))))))))"

datatype rom_label = CMP | V100

definition guarded_family :: "bytes \<Rightarrow> nat \<Rightarrow> rom_label \<Rightarrow> rom_error + script_family" where
  "guarded_family data second label = (case label of
     CMP \<Rightarrow> guarded_family_at data 0x8C87 0x8C89 5 second
   | V100 \<Rightarrow> guarded_family_at data 0x8C25 0x8C4E 4 second)"

subsection \<open>The whole decoder\<close>

definition ROMS :: "rom_label \<Rightarrow> string \<times> nat \<times> nat" where
  "ROMS label = (case label of
     CMP \<Rightarrow> (''e77a5ca44212927a06004fd9910d5456302750e11a773c84817e8fef5ee8e46b'', 0x80D2, 0x8CD0)
   | V100 \<Rightarrow> (''c45cf4cca3531de82b7b1a587b81f9f31d58e5589fafad0bb431bb95d89d61d8'', 0x807D, 0x8C5C))"

text \<open>A match keeps the incoming condition, a mismatch sets skip.\<close>

definition condition_skip :: "bool \<Rightarrow> int \<Rightarrow> int \<Rightarrow> int \<Rightarrow> bool" where
  "condition_skip incoming_skip register_value and_mask compare \<longleftrightarrow>
     incoming_skip \<or> (register_value AND and_mask) \<noteq> compare"

record tpc_sequence =
  ts_file_offset :: nat
  ts_base :: int
  ts_values :: "int list"

definition tpc_sequence_at :: "bytes \<Rightarrow> nat \<Rightarrow> rom_error + tpc_sequence" where
  "tpc_sequence_at data offset =
     bind_res (byte_at data offset) (\<lambda>op.
     bind_res (require (op = 0x58) ''Expected ZM_REG_SEQUENCE'') (\<lambda>_.
     bind_res (u32 data (offset + 1)) (\<lambda>base. bind_res (u8 data (offset + 5)) (\<lambda>n.
     bind_res (require (base = 0x21838 \<and> n = 6) ''Unexpected TPC sequence shape'') (\<lambda>_.
     bind_res (unpack_words data (offset + 6) 6) (\<lambda>vs.
     Inr \<lparr>ts_file_offset = offset, ts_base = base, ts_values = vs\<rparr>))))))"

record tpc_report =
  tr_condition_offset :: nat
  tr_table_base :: int
  tr_condition_index :: int
  tr_predicate :: triple
  tr_preceding_write :: "int \<times> int"
  tr_sequences :: "tpc_sequence list"
  tr_direct :: direct_guard
  tr_family :: script_family
  tr_skips :: "bool list"

definition decode_tpc :: "(bytes \<Rightarrow> string) \<Rightarrow> rom_label \<Rightarrow> bytes \<Rightarrow> rom_error + tpc_report" where
  "decode_tpc digest label data = (case ROMS label of (sha256, first, second) \<Rightarrow>
     bind_res (require (digest data = sha256) ''SHA-256 mismatch'') (\<lambda>_.
     bind_res (byte_at data first) (\<lambda>op.
     bind_res (require (op = 0x75) ''Expected CONDITION'') (\<lambda>_.
     bind_res (byte_at data (first + 1)) (\<lambda>index.
     bind_res (u16 data (0xC83 + 6)) (\<lambda>p. let condition_base = 0xA00 + p in
     bind_res (unpack_III data (nat (condition_base + 12 * index))) (\<lambda>predicate.
     bind_res (byte_at data (first + 2)) (\<lambda>op.
     bind_res (require (op = 0x7A) ''Expected ZM_REG'') (\<lambda>_.
     bind_res (u32 data (first + 3)) (\<lambda>register. bind_res (u32 data (first + 7)) (\<lambda>v.
     bind_res (require ((register, v) = (0x2181C, 0)) ''Unexpected preceding register write'') (\<lambda>_.
     bind_res (byte_at data second) (\<lambda>op.
     bind_res (require (op = 0xAC) ''Expected direct register condition'') (\<lambda>_.
     bind_res (require (slice (second + 1) (second + 13) data =
         [0x70, 0x24, 0x02, 0x00, 0x01, 0x00, 0x00, 0x00, 0x00, 0x00, 0x00, 0x00]) ''Unexpected 0xac payload'') (\<lambda>_.
     bind_res (require (slice (second + 43) (second + 45) data = [0x72, 0x71]) ''Expected RESUME/DONE boundary'') (\<lambda>_.
     bind_res (tpc_sequence_at data (first + 11)) (\<lambda>seq1. bind_res (tpc_sequence_at data (second + 13)) (\<lambda>seq2.
     bind_res (direct_condition data second) (\<lambda>guard.
     bind_res (guarded_family data second label) (\<lambda>fam.
     Inr \<lparr>tr_condition_offset = first, tr_table_base = condition_base, tr_condition_index = index,
          tr_predicate = predicate, tr_preceding_write = (register, v), tr_sequences = [seq1, seq2],
          tr_direct = guard, tr_family = fam,
          tr_skips = map (\<lambda>x. condition_skip False x 1 0) [0x23, 1]\<rparr>))))))))))))))))))))"

text \<open>
  The frame of the tools that decode both ROMs: an exception of either decoder ends the tool with
  status 1 before anything is printed.
\<close>

definition both_roms :: "(rom_label \<Rightarrow> bytes \<Rightarrow> rom_error + 'a) \<Rightarrow> bytes \<Rightarrow> bytes \<Rightarrow> int \<times> 'a list" where
  "both_roms decoder cmp_rom v100_rom =
     (case map_res (\<lambda>(label, data). decoder label data) [(CMP, cmp_rom), (V100, v100_rom)] of
        Inl _ \<Rightarrow> (1, []) | Inr results \<Rightarrow> (0, results))"

definition devinit_main :: "(bytes \<Rightarrow> string) \<Rightarrow> bytes \<Rightarrow> bytes \<Rightarrow> int \<times> tpc_report list" where
  "devinit_main digest = both_roms (decode_tpc digest)"

lemma both_roms_zero:
  "both_roms decoder a b = (0, rs) \<longleftrightarrow> (\<exists>x y. decoder CMP a = Inr x \<and> decoder V100 b = Inr y \<and> rs = [x, y])"
  by (cases "decoder CMP a"; cases "decoder V100 b") (auto simp: both_roms_def)

subsection \<open>Nothing is lost\<close>

definition encode_write :: "script_write \<Rightarrow> bytes" where
  "encode_write w = (case w of
     NV_REG reg and_mask or_mask \<Rightarrow> 0x6E # le_bytes 4 reg @ le_bytes 4 and_mask @ le_bytes 4 or_mask
   | ZM_REG reg v \<Rightarrow> 0x7A # le_bytes 4 reg @ le_bytes 4 v
   | ZM_REG_SEQUENCE reg vs \<Rightarrow> 0x58 # le_bytes 4 reg @ [of_nat (length vs)] @ concat (map (le_bytes 4) vs))"

definition encode_guard :: "direct_guard \<Rightarrow> bytes" where
  "encode_guard g = 0xAC # le_bytes 4 (dg_register g) @ le_bytes 4 (dg_mask g) @ le_bytes 4 (dg_value g)"

lemma slice_Cons: "pos < length data \<Longrightarrow> pos < b \<Longrightarrow> slice pos b data = data ! pos # slice (Suc pos) b data"
  by (simp add: slice_def Cons_nth_drop_Suc [symmetric] take_Cons')

lemma word_of_uint_eq: "uint (b :: byte) = v \<Longrightarrow> b = word_of_int v"
  by auto

lemma unpack_nonneg: "unpack w data off = Inr n \<Longrightarrow> 0 \<le> n"
  using le_value_bounds [of "slice off (off + w) data"] by (auto simp: unpack_def get_field_def split: if_splits)

lemma unpack_u8_word: "u8 data off = Inr n \<Longrightarrow> slice off (Suc off) data = [word_of_int n] \<and> 0 \<le> n \<and> off < length data"
  using unpack_slice [of 1 data off n] unpack_nonneg [of 1 data off n] by simp

lemma decode_write_slice:
  assumes "decode_write data pos (uint (data ! pos)) = Inr w" and "pos < length data"
  shows "slice pos (pos + write_size w) data = encode_write w \<and> pos + write_size w \<le> length data"
proof -
  let ?op = "uint (data ! pos)"
  consider (nv) reg m v where "?op = 0x6E" "unpack_III data (pos + 1) = Inr (reg, m, v)" "w = NV_REG reg m v"
    | (zm) reg v where "?op = 0x7A" "u32 data (pos + 1) = Inr reg" "u32 data (pos + 5) = Inr v" "w = ZM_REG reg v"
    | (sq) reg n vs where "?op = 0x58" "u32 data (pos + 1) = Inr reg" "u8 data (pos + 5) = Inr n"
        "unpack_words data (pos + 6) (nat n) = Inr vs" "w = ZM_REG_SEQUENCE reg vs"
    using assms(1) by (auto simp: decode_write_def bind_res_Inr_conv split: if_splits)
  then show ?thesis
  proof cases
    case nv
    then show ?thesis
      using unpack_III_slice [OF nv(2)] word_of_uint_eq [OF nv(1)]
      by (simp add: write_size_def encode_write_def slice_Cons assms(2) add.commute)
  next
    case zm
    then show ?thesis
      using unpack_slice [OF zm(2)] unpack_slice [OF zm(3)] word_of_uint_eq [OF zm(1)]
        slice_append [of "pos + 1" "pos + 5" "pos + 9" data]
      by (simp add: write_size_def encode_write_def slice_Cons assms(2) add.commute)
  next
    case sq
    note words = unpack_words_slice [OF sq(4)] and u8 = unpack_u8_word [OF sq(3)]
    have len: "pos + 6 \<le> length data" using u8 by simp
    then have "nat n = length vs" "slice (pos + 6) (pos + 6 + 4 * length vs) data = concat (map (le_bytes 4) vs)"
      "pos + 6 + 4 * length vs \<le> length data"
      using words by auto
    moreover from this have "word_of_int n = (of_nat (length vs) :: byte)"
      using u8 by (metis nat_0_le of_int_of_nat_eq)
    moreover have "slice pos (pos + 6 + 4 * length vs) data =
        slice pos (Suc pos) data @ slice (Suc pos) (pos + 5) data @ slice (pos + 5) (pos + 6) data @
        slice (pos + 6) (pos + 6 + 4 * length vs) data"
      by (simp add: slice_append)
    moreover have "slice pos (Suc pos) data = [0x58]"
      using word_of_uint_eq [OF sq(1)] slice_Cons [OF assms(2), of "Suc pos"] by (simp add: slice_def)
    moreover have "slice (Suc pos) (pos + 5) data = le_bytes 4 reg"
      using unpack_slice [OF sq(2)] by (simp add: add.commute)
    moreover have "slice (pos + 5) (pos + 6) data = [word_of_int n]" using u8 by (simp add: add.commute)
    ultimately show ?thesis
      using sq(5) by (simp add: write_size_def encode_write_def add.assoc)
  qed
qed

lemma subscript_slice:
  assumes "subscript data start pos = Inr (ws, stop)"
  shows "pos \<le> stop \<and> stop < length data \<and> slice pos stop data = concat (map encode_write ws)"
  using assms
proof (induction data start pos arbitrary: ws rule: subscript.induct)
  case (1 data start pos)
  show ?case
  proof (cases "length data \<le> pos \<or> uint (data ! pos) = 0x72 \<or> uint (data ! pos) = 0x71")
    case True
    then show ?thesis using 1(2) by (subst (asm) subscript.simps) (auto simp: slice_def split: if_splits)
  next
    case False
    with 1(2) obtain w ws' where w: "decode_write data pos (uint (data ! pos)) = Inr w"
      "pos + write_size w - start < 128" "subscript data start (pos + write_size w) = Inr (ws', stop)" "ws = w # ws'"
      by (subst (asm) subscript.simps) (auto simp: Let_def bind_res_Inr_conv)
    have IH: "pos + write_size w \<le> stop \<and> stop < length data \<and>
        slice (pos + write_size w) stop data = concat (map encode_write ws')"
      using 1(1) [OF _ refl _ w(1) _ w(3)] False w(2) by simp
    with decode_write_slice [OF w(1)] False slice_append [of pos "pos + write_size w" stop data] w(4)
    show ?thesis by simp
  qed
qed

lemma subscript_bounded:
  "subscript data start pos = Inr (ws, stop) \<Longrightarrow> pos - start < 128 \<Longrightarrow> stop - start < 128"
proof (induction data start pos arbitrary: ws rule: subscript.induct)
  case (1 data start pos)
  show ?case
  proof (cases "length data \<le> pos \<or> uint (data ! pos) = 0x72 \<or> uint (data ! pos) = 0x71")
    case True
    then show ?thesis using 1(2,3) by (subst (asm) subscript.simps) (auto split: if_splits)
  next
    case False
    with 1(2) obtain w ws' where w: "decode_write data pos (uint (data ! pos)) = Inr w"
      "pos + write_size w - start < 128" "subscript data start (pos + write_size w) = Inr (ws', stop)"
      by (subst (asm) subscript.simps) (auto simp: Let_def bind_res_Inr_conv)
    then show ?thesis using 1(1) [OF _ refl _ w(1) _ w(3)] False by simp
  qed
qed

lemma inline_writes_slice:
  assumes "inline_writes data pos call_start = Inr (ts, call_start)" and "pos \<le> call_start"
  shows "slice pos call_start data = concat (map (\<lambda>(reg, m, v). encode_write (NV_REG reg m v)) ts)"
  using assms
proof (induction data pos call_start arbitrary: ts rule: inline_writes.induct)
  case (1 data pos call_start)
  show ?case
  proof (cases "call_start \<le> pos")
    case True
    then show ?thesis using 1(2) by (subst (asm) inline_writes.simps) (auto simp: slice_def)
  next
    case False
    with 1(2) obtain reg m v ts' where t: "byte_at data pos = Inr 0x6E" "unpack_III data (pos + 1) = Inr (reg, m, v)"
      "inline_writes data (pos + 13) call_start = Inr (ts', call_start)" "ts = (reg, m, v) # ts'"
      by (subst (asm) inline_writes.simps) (auto simp: bind_res_Inr_conv)
    have le: "pos + 13 \<le> call_start"
    proof (rule ccontr)
      assume "\<not> pos + 13 \<le> call_start"
      with t(3) show False by (subst (asm) inline_writes.simps) simp
    qed
    have "slice (pos + 13) call_start data = concat (map (\<lambda>(reg, m, v). encode_write (NV_REG reg m v)) ts')"
      using 1(1) [OF False t(1) _ t(2) t(3)] le by simp
    moreover have "slice pos (pos + 13) data = encode_write (NV_REG reg m v)"
      using byte_at_slice [OF t(1)] unpack_III_slice [OF t(2)] slice_append [of pos "Suc pos" "pos + 13" data]
      by (simp add: encode_write_def add.commute)
    ultimately show ?thesis using slice_append [OF _ le, of pos data] t(4) by simp
  qed
qed

lemma direct_condition_slice:
  assumes "direct_condition data start = Inr g"
  shows "slice start (start + 13) data = encode_guard g \<and> dg_file_offset g = start"
proof -
  from assms obtain reg m v where g: "byte_at data start = Inr 0xAC" "unpack_III data (start + 1) = Inr (reg, m, v)"
    "g = \<lparr>dg_file_offset = start, dg_register = reg, dg_mask = m, dg_value = v\<rparr>"
    by (auto simp: direct_condition_def bind_res_Inr_conv)
  then show ?thesis
    using byte_at_slice [OF g(1)] unpack_III_slice [OF g(2)] slice_append [of start "Suc start" "start + 13" data]
    by (simp add: encode_guard_def add.commute)
qed

text \<open>The bytes a decoded block stands for.\<close>

definition block_bytes :: "script_block \<Rightarrow> bytes" where
  "block_bytes b = encode_guard (sb_guard b) @ concat (map encode_write (sb_writes b)) @ [0x72, 0x71]"

lemma family_block_slice:
  assumes "family_block data call_start i = Inr b"
  shows "sb_call_offset b = call_start + 3 * i \<and>
    slice (sb_call_offset b) (sb_call_offset b + 3) data = 0x5B # le_bytes 2 (int (dg_file_offset (sb_guard b)) - 0xA00) \<and>
    slice (dg_file_offset (sb_guard b)) (sb_end_exclusive b) data = block_bytes b \<and>
    sb_end_exclusive b \<le> dg_file_offset (sb_guard b) + 129"
proof -
  define call where "call = call_start + 3 * i"
  from assms obtain p guard ws pos where b: "byte_at data call = Inr 0x5B" "u16 data (call + 1) = Inr p"
    "direct_condition data (0xA00 + nat p) = Inr guard"
    "subscript data (0xA00 + nat p) (0xA00 + nat p + 13) = Inr (ws, pos)" "slice pos (pos + 2) data = [0x72, 0x71]"
    "b = \<lparr>sb_call_offset = call, sb_guard = guard, sb_writes = ws, sb_end_exclusive = pos + 2\<rparr>"
    by (auto simp: family_block_def Let_def bind_res_Inr_conv call_def)
  let ?start = "0xA00 + nat p"
  note guard = direct_condition_slice [OF b(3)] and script = subscript_slice [OF b(4)]
  have "slice ?start (pos + 2) data = slice ?start (?start + 13) data @ slice (?start + 13) pos data @ slice pos (pos + 2) data"
    using script [THEN conjunct1] by (simp add: slice_append)
  moreover have "slice call (call + 3) data = 0x5B # le_bytes 2 p"
    using byte_at_slice [OF b(1)] unpack_slice [OF b(2)] slice_append [of call "Suc call" "call + 3" data]
    by (simp add: numeral_3_eq_3)
  moreover have "pos - ?start < 128" by (rule subscript_bounded [OF b(4)]) simp
  ultimately show ?thesis
    using guard script b(5,6) unpack_nonneg [OF b(2)] by (simp add: block_bytes_def call_def)
qed

text \<open>
  C27: A decoded family of guarded subscripts accounts for every byte: the parent guard and its inline
  writes, the consecutive calls, each called block with its guard and writes and the terminators
  are the bytes of the ROM at the decoded places, with nothing skipped in between; no block extends
  more than 129 bytes and the requested second block is among those called.
\<close>

theorem guarded_family_bytes:
  assumes "guarded_family_at data parent call_start n second = Inr fam" and "parent + 2 \<le> call_start"
  shows "slice parent call_start data = [0x75, word_of_int (fa_condition_index fam)] @
      concat (map (\<lambda>(reg, m, v). encode_write (NV_REG reg m v)) (fa_inline fam)) \<and>
    length (fa_blocks fam) = n \<and>
    (\<forall>i < n. let b = fa_blocks fam ! i; start = dg_file_offset (sb_guard b) in
      slice (call_start + 3 * i) (call_start + 3 * i + 3) data = 0x5B # le_bytes 2 (int start - 0xA00) \<and>
      slice start (sb_end_exclusive b) data = block_bytes b \<and> sb_end_exclusive b \<le> start + 129) \<and>
    slice (call_start + 3 * n) (call_start + 3 * n + 2) data = [0x72, 0x71] \<and>
    (\<exists>b \<in> set (fa_blocks fam). dg_file_offset (sb_guard b) = second)"
proof -
  from assms(1) obtain index ts blocks where f: "byte_at data parent = Inr 0x75"
    "slice (call_start + 3 * n) (call_start + 3 * n + 2) data = [0x72, 0x71]"
    "inline_writes data (parent + 2) call_start = Inr (ts, call_start)"
    "map_res (family_block data call_start) [0..<n] = Inr blocks"
    "list_ex (\<lambda>b. dg_file_offset (sb_guard b) = second) blocks" "byte_at data (parent + 1) = Inr index"
    "fam = \<lparr>fa_parent_offset = parent, fa_condition_index = index, fa_inline = ts, fa_blocks = blocks\<rparr>"
    by (auto simp: guarded_family_at_def Let_def bind_res_Inr_conv)
  have "slice parent call_start data = slice parent (Suc parent) data @ slice (Suc parent) (parent + 2) data @
      slice (parent + 2) call_start data"
    using assms(2) by (simp add: slice_append)
  then have "slice parent call_start data = [0x75, word_of_int index] @
      concat (map (\<lambda>(reg, m, v). encode_write (NV_REG reg m v)) ts)"
    using byte_at_slice [OF f(1)] byte_at_slice [OF f(6)] inline_writes_slice [OF f(3) assms(2)] by simp
  moreover have "length blocks = n" using map_res_length [OF f(4)] by simp
  moreover have "\<forall>i < n. family_block data call_start i = Inr (blocks ! i)"
    using map_res_nth [OF f(4)] by simp
  ultimately show ?thesis
    using f(2,5,7) by (auto simp: Let_def list_ex_iff dest!: family_block_slice)
qed

text \<open>A small image: the parent at 0 with one inlined write and one call, the subscript at \<open>0xA00\<close>.\<close>

definition demo_head :: bytes where
  "demo_head = [0x75, 7] @ encode_write (NV_REG 0x21800 0xFFFFFFFE 1) @ [0x5B, 0, 0, 0x72, 0x71]"

definition demo_tail :: bytes where
  "demo_tail = encode_guard \<lparr>dg_file_offset = 0xA00, dg_register = 0x22470, dg_mask = 1, dg_value = 0\<rparr> @
     encode_write (ZM_REG_SEQUENCE 0x21838 [3, 1]) @ encode_write (ZM_REG 0x2181C 0) @ [0x72, 0x71]"

definition demo_rom :: bytes where
  "demo_rom = (demo_head @ replicate 2540 0) @ demo_tail"

definition demo_family :: script_family where
  "demo_family = \<lparr>fa_parent_offset = 0, fa_condition_index = 7, fa_inline = [(0x21800, 0xFFFFFFFE, 1)],
     fa_blocks = [\<lparr>sb_call_offset = 15,
       sb_guard = \<lparr>dg_file_offset = 0xA00, dg_register = 0x22470, dg_mask = 1, dg_value = 0\<rparr>,
       sb_writes = [ZM_REG_SEQUENCE 0x21838 [3, 1], ZM_REG 0x2181C 0], sb_end_exclusive = 2598\<rparr>]\<rparr>"

lemma byte_at_append:
  "byte_at (xs @ ys) i = (if i < length xs then byte_at xs i else byte_at ys (i - length xs))"
  by (auto simp: byte_at_def nth_append)

lemma slice_append_left: "b \<le> length xs \<Longrightarrow> slice a b (xs @ ys) = slice a b xs"
  by (simp add: slice_def)

lemma slice_append_right: "length xs \<le> a \<Longrightarrow> slice a b (xs @ ys) = slice (a - length xs) (b - length xs) ys"
  by (simp add: slice_def)

lemma unpack_append:
  "off + w \<le> length xs \<Longrightarrow> unpack w (xs @ ys) off = unpack w xs off"
  "length xs \<le> off \<Longrightarrow> unpack w (xs @ ys) off = unpack w ys (off - length xs)"
  by (auto simp: unpack_def get_field_def slice_append_left slice_append_right)

lemma demo_lengths: "length demo_head = 20" "length demo_tail = 38"
  by (simp_all add: demo_head_def demo_tail_def encode_write_def encode_guard_def)

lemma decode_write_pad:
  "decode_write ys p op = Inr w \<Longrightarrow> decode_write (pad @ ys) (length pad + p) op = Inr w"
proof -
  have u: "unpack k (pad @ ys) (length pad + off) = unpack k ys off" for k off
    by (simp add: unpack_append)
  have t: "unpack_III (pad @ ys) (length pad + off) = unpack_III ys off"
    "unpack_words (pad @ ys) (length pad + off) n = unpack_words ys off n" for off n
    by (simp_all add: unpack_III_def unpack_words_def u add.assoc)
  show "decode_write ys p op = Inr w \<Longrightarrow> decode_write (pad @ ys) (length pad + p) op = Inr w"
    using u [of _ "p + 1"] u [of _ "p + 5"] t(1) [of "p + 1"] t(2) [of "p + 6"]
    by (simp only: decode_write_def add.assoc) (auto split: if_splits)
qed

lemma subscript_pad:
  "subscript ys s p = Inr (ws, e) \<Longrightarrow>
   subscript (pad @ ys) (length pad + s) (length pad + p) = Inr (ws, length pad + e)"
proof (induction ys s p arbitrary: ws rule: subscript.induct)
  case (1 ys s p)
  show ?case
  proof (cases "length ys \<le> p \<or> uint (ys ! p) = 0x72 \<or> uint (ys ! p) = 0x71")
    case True
    then show ?thesis using 1(2)
      by (subst (asm) subscript.simps, subst subscript.simps) (auto simp: nth_append split: if_splits)
  next
    case False
    with 1(2) obtain w ws' where w: "decode_write ys p (uint (ys ! p)) = Inr w" "p + write_size w - s < 128"
      "subscript ys s (p + write_size w) = Inr (ws', e)" "ws = w # ws'"
      by (subst (asm) subscript.simps) (auto simp: Let_def bind_res_Inr_conv)
    have "subscript (pad @ ys) (length pad + s) (length pad + (p + write_size w)) = Inr (ws', length pad + e)"
      using 1(1) [OF _ refl _ w(1) _ w(3)] False w(2) by simp
    then show ?thesis
      using False w decode_write_pad [OF w(1), of pad]
      by (subst subscript.simps) (simp add: nth_append Let_def add.assoc)
  qed
qed

lemma demo_parts:
  "subscript demo_tail 0 13 = Inr ([ZM_REG_SEQUENCE 0x21838 [3, 1], ZM_REG 0x2181C 0], 36)"
  "byte_at demo_head 0 = Inr 0x75" "byte_at demo_head 1 = Inr 7" "byte_at demo_head 2 = Inr 0x6E"
  "byte_at demo_head 15 = Inr 0x5B" "byte_at demo_tail 0 = Inr 0xAC" "slice 18 20 demo_head = [0x72, 0x71]"
  "slice 36 38 demo_tail = [0x72, 0x71]"
  "unpack_III demo_head 3 = Inr (0x21800, 0xFFFFFFFE, 1)" "unpack_III demo_tail 1 = Inr (0x22470, 1, 0)"
  "u16 demo_head 16 = Inr 0"
  by code_simp+

lemma demo_block:
  "family_block demo_rom 15 0 = Inr (hd (fa_blocks demo_family))"
proof -
  let ?pad = "demo_head @ replicate 2540 0"
  have len: "length ?pad = 2560" by (simp add: demo_lengths)
  have head: "byte_at demo_rom 15 = Inr 0x5B" "u16 demo_rom 16 = Inr 0"
    using demo_parts unfolding demo_rom_def append_assoc by (simp_all add: byte_at_append unpack_append demo_lengths)
  have tail: "byte_at demo_rom 2560 = Inr 0xAC" "unpack_III demo_rom 2561 = Inr (0x22470, 1, 0)"
    "slice 2596 2598 demo_rom = [0x72, 0x71]" "length demo_rom = 2598"
    using demo_parts unfolding demo_rom_def
    by (simp_all add: byte_at_append unpack_append unpack_III_def slice_append_right demo_lengths)
  have "subscript demo_rom 2560 2573 = Inr ([ZM_REG_SEQUENCE 0x21838 [3, 1], ZM_REG 0x2181C 0], 2596)"
    using subscript_pad [OF demo_parts(1), of ?pad] by (simp add: demo_rom_def demo_lengths)
  with head tail show ?thesis
    by (simp add: family_block_def direct_condition_def demo_family_def Let_def)
qed

lemma demo_decoded: "guarded_family_at demo_rom 0 15 1 0xA00 = Inr demo_family"
proof -
  have head: "byte_at demo_rom 0 = Inr 0x75" "byte_at demo_rom 1 = Inr 7" "byte_at demo_rom 2 = Inr 0x6E"
    "unpack_III demo_rom 3 = Inr (0x21800, 0xFFFFFFFE, 1)" "slice 18 20 demo_rom = [0x72, 0x71]"
    using demo_parts unfolding demo_rom_def append_assoc
    by (simp_all add: byte_at_append unpack_append unpack_III_def slice_append_left demo_lengths)
  have "inline_writes demo_rom 2 15 = Inr ([(0x21800, 0xFFFFFFFE, 1)], 15)"
    using head by (simp add: inline_writes.simps)
  with head demo_block show ?thesis
    by (simp add: guarded_family_at_def demo_family_def Let_def flip: numeral_2_eq_2)
qed

theorem guarded_family_bytes_witness:
  "slice 0 15 demo_rom = [0x75, 7] @ encode_write (NV_REG 0x21800 0xFFFFFFFE 1)"
  using guarded_family_bytes [OF demo_decoded] by (simp add: demo_family_def)

end
