(* ===== verification/DevinitGpc.thy ===== *)
theory DevinitGpc
  imports Devinit RegPacks
begin

text \<open>
  \<^verbatim>\<open>tools/analyze_devinit_gpc_copy.py\<close>: the decoder of the block that copies the GPC
  status, and the search of a ROM for literal words. The decoder pins every byte of the block; the
  search agrees with the one of the register packs.
\<close>

record gpc_rom =
  gr_sha256 :: string
  gr_condition_offset :: nat
  gr_condition_index :: nat
  gr_copy_offset :: nat

definition gpc_ROMS :: "rom_label \<Rightarrow> gpc_rom" where
  "gpc_ROMS label = (case label of
     CMP \<Rightarrow> \<lparr>gr_sha256 = ''e77a5ca44212927a06004fd9910d5456302750e11a773c84817e8fef5ee8e46b'',
       gr_condition_offset = 0x8352, gr_condition_index = 84, gr_copy_offset = 0x8399\<rparr>
   | V100 \<Rightarrow> \<lparr>gr_sha256 = ''c45cf4cca3531de82b7b1a587b81f9f31d58e5589fafad0bb431bb95d89d61d8'',
       gr_condition_offset = 0x82FD, gr_condition_index = 82, gr_copy_offset = 0x8344\<rparr>)"

definition all_u32_offsets :: "bytes \<Rightarrow> int \<Rightarrow> nat list" where
  "all_u32_offsets data v = filter (\<lambda>i. slice i (i + 4) data = le_bytes 4 v) [0..<length data - 3]"

definition target_words :: "int list" where
  "target_words = map (\<lambda>i. 0x21760 + 4 * int i) [0..<6] @ map (\<lambda>i. 0x21C38 + 4 * int i) [0..<6]"

text \<open>The format \<^verbatim>\<open>b\<close> reads a signed byte.\<close>

definition s8 :: "bytes \<Rightarrow> nat \<Rightarrow> rom_error + int" where
  "s8 data offset = bind_res (u8 data offset) (\<lambda>b. Inr (if b < 128 then b else b - 256))"

record gpc_copy =
  gc_source :: int
  gc_shift :: int
  gc_source_and :: int
  gc_source_xor :: int
  gc_destination :: int
  gc_destination_and :: int

definition unpack_copy :: "bytes \<Rightarrow> nat \<Rightarrow> rom_error + gpc_copy" where
  "unpack_copy data off =
     bind_res (u32 data off) (\<lambda>source. bind_res (s8 data (off + 4)) (\<lambda>shift.
     bind_res (u32 data (off + 5)) (\<lambda>source_and. bind_res (u32 data (off + 9)) (\<lambda>source_xor.
     bind_res (u32 data (off + 13)) (\<lambda>destination. bind_res (u32 data (off + 17)) (\<lambda>destination_and.
     Inr \<lparr>gc_source = source, gc_shift = shift, gc_source_and = source_and, gc_source_xor = source_xor,
          gc_destination = destination, gc_destination_and = destination_and\<rparr>))))))"

definition expected_copy :: gpc_copy where
  "expected_copy = \<lparr>gc_source = 0x21C1C, gc_shift = 0, gc_source_and = 0x3F, gc_source_xor = 0x3F,
     gc_destination = 0x206F0, gc_destination_and = 0xFFFFFFC0\<rparr>"

record gpc_report =
  gp_condition_offset :: nat
  gp_condition_index :: nat
  gp_table_base :: int
  gp_condition :: triple
  gp_copy_offset :: nat
  gp_copy :: gpc_copy
  gp_literals :: "(int \<times> nat list) list"

definition decode_gpc :: "(bytes \<Rightarrow> string) \<Rightarrow> rom_label \<Rightarrow> bytes \<Rightarrow> rom_error + gpc_report" where
  "decode_gpc digest label data = (let expected = gpc_ROMS label; cond = gr_condition_offset expected;
     index = gr_condition_index expected; copy = gr_copy_offset expected in
     bind_res (require (digest data = gr_sha256 expected) ''SHA-256 mismatch'') (\<lambda>_.
     bind_res (require (slice cond (cond + 3) data = [0x75, of_nat index, 0x38]) ''expected CONDITION followed by NOT'') (\<lambda>_.
     bind_res (u16 data 0xC89) (\<lambda>p. let condition_base = 0xA00 + p in
     bind_res (unpack_III data (nat condition_base + 12 * index)) (\<lambda>condition.
     bind_res (require (condition = (0x213EC, 1, 0)) ''unexpected condition-table row'') (\<lambda>_.
     bind_res (byte_at data copy) (\<lambda>op.
     bind_res (require (op = 0x5F) ''expected INIT_NV_COPY'') (\<lambda>_.
     bind_res (unpack_copy data (copy + 1)) (\<lambda>fields.
     bind_res (require (fields = expected_copy) ''unexpected INIT_NV_COPY fields'') (\<lambda>_.
     bind_res (byte_at data (copy + 22)) (\<lambda>op.
     bind_res (require (op = 0x72) ''expected RESUME after copy'') (\<lambda>_.
     Inr \<lparr>gp_condition_offset = cond, gp_condition_index = index, gp_table_base = condition_base,
          gp_condition = condition, gp_copy_offset = copy, gp_copy = fields,
          gp_literals = map (\<lambda>w. (w, all_u32_offsets data w)) target_words\<rparr>))))))))))))"

definition gpc_main :: "(bytes \<Rightarrow> string) \<Rightarrow> bytes \<Rightarrow> bytes \<Rightarrow> int \<times> gpc_report list" where
  "gpc_main digest = both_roms (decode_gpc digest)"

subsection \<open>Reading is comparing bytes\<close>

lemma unpack_iff:
  assumes "0 < w" and "0 \<le> v" and "v < 256 ^ w" and stop: "stop = off + w"
  shows "unpack w data off = Inr v \<longleftrightarrow> slice off stop data = le_bytes w v"
  unfolding stop
proof
  assume eq: "slice off (off + w) data = le_bytes w v"
  then have "length (slice off (off + w) data) = w" by simp
  then have "off + w \<le> length data" using assms(1) by (simp add: slice_def split: if_splits)
  then show "unpack w data off = Inr v"
    using assms eq by (simp add: unpack_def get_field_def le_value_le_bytes)
qed (use unpack_slice in blast)

lemma byte_at_iff:
  assumes "0 \<le> v" and "v < 256" and stop: "stop = i + 1"
  shows "byte_at data i = Inr v \<longleftrightarrow> slice i stop data = [word_of_int v]"
  unfolding stop
proof
  assume v: "slice i (i + 1) data = [word_of_int v]"
  then have "i < length data" by (auto simp: slice_def intro: ccontr)
  with v assms show "byte_at data i = Inr v"
    by (simp add: byte_at_def slice_def Cons_nth_drop_Suc [symmetric] uint_word_of_int)
qed (use byte_at_slice in fastforce)

lemma slice_split_eq:
  assumes "mid = off + length ys" and "ys \<noteq> []" and "mid \<le> stop"
  shows "slice off stop data = ys @ zs \<longleftrightarrow> slice off mid data = ys \<and> slice mid stop data = zs"
proof -
  have split: "slice off stop data = slice off mid data @ slice mid stop data"
    using assms by (simp add: slice_append)
  show ?thesis
  proof (cases "mid \<le> length data")
    case True
    then have "length (slice off mid data) = length ys" using assms by (simp add: slice_def)
    then show ?thesis unfolding split by simp
  next
    case False
    then have "slice mid stop data = []" "length (slice off mid data) < length ys"
      using assms by (cases "off \<le> length data"; auto simp: slice_def)+
    then show ?thesis unfolding split by (auto dest: arg_cong [where f = length])
  qed
qed

lemma s8_iff:
  assumes v: "0 \<le> v" "v < 128" and stop: "stop = off + 1"
  shows "s8 data off = Inr v \<longleftrightarrow> slice off stop data = [word_of_int v]"
proof -
  have "s8 data off = Inr v \<longleftrightarrow> u8 data off = Inr v"
  proof (cases "u8 data off")
    case (Inr b)
    then have "0 \<le> b" "b < 256"
      using le_value_bounds [of "slice off (off + 1) data"]
      by (auto simp: unpack_def get_field_def length_slice split: if_splits)
    with Inr v show ?thesis by (auto simp: s8_def)
  qed (simp add: s8_def)
  also have "\<dots> \<longleftrightarrow> slice off stop data = [word_of_int v]"
    using unpack_iff [of 1 v stop off data] v stop by simp
  finally show ?thesis .
qed

text \<open>The bytes of the copy instruction and its terminator.\<close>

definition copy_bytes :: bytes where
  "copy_bytes = [0x5F] @ le_bytes 4 0x21C1C @ [0] @ le_bytes 4 0x3F @ le_bytes 4 0x3F @ le_bytes 4 0x206F0 @
     le_bytes 4 0xFFFFFFC0 @ [0x72]"

lemma le_bytes_not_Nil: "0 < n \<Longrightarrow> le_bytes n v \<noteq> []"
  by (metis length_le_bytes length_0_conv less_numeral_extra(3))

lemma copy_fields:
  "unpack_copy data (off + 1) = Inr expected_copy \<longleftrightarrow>
   slice (off + 1) (off + 5) data = le_bytes 4 0x21C1C \<and> slice (off + 5) (off + 6) data = [0] \<and>
   slice (off + 6) (off + 10) data = le_bytes 4 0x3F \<and> slice (off + 10) (off + 14) data = le_bytes 4 0x3F \<and>
   slice (off + 14) (off + 18) data = le_bytes 4 0x206F0 \<and> slice (off + 18) (off + 22) data = le_bytes 4 0xFFFFFFC0"
proof -
  have reads: "unpack_copy data (off + 1) = Inr expected_copy \<longleftrightarrow>
      u32 data (off + 1) = Inr 0x21C1C \<and> s8 data (off + 1 + 4) = Inr 0 \<and> u32 data (off + 1 + 5) = Inr 0x3F \<and>
      u32 data (off + 1 + 9) = Inr 0x3F \<and> u32 data (off + 1 + 13) = Inr 0x206F0 \<and>
      u32 data (off + 1 + 17) = Inr 0xFFFFFFC0"
    by (auto simp: unpack_copy_def expected_copy_def bind_res_Inr_conv)
  have u: "u32 data (off + 1) = Inr 0x21C1C \<longleftrightarrow> slice (off + 1) (off + 5) data = le_bytes 4 0x21C1C"
    "u32 data (off + 1 + 5) = Inr 0x3F \<longleftrightarrow> slice (off + 1 + 5) (off + 10) data = le_bytes 4 0x3F"
    "u32 data (off + 1 + 9) = Inr 0x3F \<longleftrightarrow> slice (off + 1 + 9) (off + 14) data = le_bytes 4 0x3F"
    "u32 data (off + 1 + 13) = Inr 0x206F0 \<longleftrightarrow> slice (off + 1 + 13) (off + 18) data = le_bytes 4 0x206F0"
    "u32 data (off + 1 + 17) = Inr 0xFFFFFFC0 \<longleftrightarrow> slice (off + 1 + 17) (off + 22) data = le_bytes 4 0xFFFFFFC0"
    by (rule unpack_iff; simp)+
  have s: "s8 data (off + 1 + 4) = Inr 0 \<longleftrightarrow> slice (off + 1 + 4) (off + 6) data = [0]"
    using s8_iff [of 0 "off + 6" "off + 1 + 4" data] by simp
  have offs: "off + 1 + 4 = off + 5" "off + 1 + 5 = off + 6" "off + 1 + 9 = off + 10" "off + 1 + 13 = off + 14"
    "off + 1 + 17 = off + 18" by simp_all
  show ?thesis unfolding reads u s unfolding offs ..
qed

lemma copy_iff:
  "byte_at data off = Inr 0x5F \<and> unpack_copy data (off + 1) = Inr expected_copy \<and> byte_at data (off + 22) = Inr 0x72 \<longleftrightarrow>
   slice off (off + 23) data = copy_bytes"
proof -
  have b: "byte_at data off = Inr 0x5F \<longleftrightarrow> slice off (off + 1) data = [0x5F]"
    "byte_at data (off + 22) = Inr 0x72 \<longleftrightarrow> slice (off + 22) (off + 23) data = [0x72]"
    using byte_at_iff [of "0x5F" "off + 1" off data] byte_at_iff [of "0x72" "off + 23" "off + 22" data] by simp_all
  have cut: "slice off (off + 23) data = [0x5F] @ zs \<longleftrightarrow>
      slice off (off + 1) data = [0x5F] \<and> slice (off + 1) (off + 23) data = zs"
    "slice (off + 1) (off + 23) data = le_bytes 4 0x21C1C @ zs \<longleftrightarrow>
      slice (off + 1) (off + 5) data = le_bytes 4 0x21C1C \<and> slice (off + 5) (off + 23) data = zs"
    "slice (off + 5) (off + 23) data = [0] @ zs \<longleftrightarrow>
      slice (off + 5) (off + 6) data = [0] \<and> slice (off + 6) (off + 23) data = zs"
    "slice (off + 6) (off + 23) data = le_bytes 4 0x3F @ zs \<longleftrightarrow>
      slice (off + 6) (off + 10) data = le_bytes 4 0x3F \<and> slice (off + 10) (off + 23) data = zs"
    "slice (off + 10) (off + 23) data = le_bytes 4 0x3F @ zs \<longleftrightarrow>
      slice (off + 10) (off + 14) data = le_bytes 4 0x3F \<and> slice (off + 14) (off + 23) data = zs"
    "slice (off + 14) (off + 23) data = le_bytes 4 0x206F0 @ zs \<longleftrightarrow>
      slice (off + 14) (off + 18) data = le_bytes 4 0x206F0 \<and> slice (off + 18) (off + 23) data = zs"
    "slice (off + 18) (off + 23) data = le_bytes 4 0xFFFFFFC0 @ zs \<longleftrightarrow>
      slice (off + 18) (off + 22) data = le_bytes 4 0xFFFFFFC0 \<and> slice (off + 22) (off + 23) data = zs" for zs
    by (rule slice_split_eq; simp add: le_bytes_not_Nil)+
  show ?thesis unfolding copy_bytes_def cut b copy_fields by blast
qed

lemma row_iff:
  "unpack_III data off = Inr (0x213EC, 1, 0) \<longleftrightarrow>
   slice off (off + 12) data = le_bytes 4 0x213EC @ le_bytes 4 1 @ le_bytes 4 0"
proof -
  have u: "u32 data off = Inr 0x213EC \<longleftrightarrow> slice off (off + 4) data = le_bytes 4 0x213EC"
    "u32 data (off + 4) = Inr 1 \<longleftrightarrow> slice (off + 4) (off + 8) data = le_bytes 4 1"
    "u32 data (off + 8) = Inr 0 \<longleftrightarrow> slice (off + 8) (off + 12) data = le_bytes 4 0"
    by (rule unpack_iff; simp)+
  have cut: "slice off (off + 12) data = le_bytes 4 0x213EC @ zs \<longleftrightarrow>
      slice off (off + 4) data = le_bytes 4 0x213EC \<and> slice (off + 4) (off + 12) data = zs"
    "slice (off + 4) (off + 12) data = le_bytes 4 1 @ zs \<longleftrightarrow>
      slice (off + 4) (off + 8) data = le_bytes 4 1 \<and> slice (off + 8) (off + 12) data = zs" for zs
    by (rule slice_split_eq; simp add: le_bytes_not_Nil)+
  show ?thesis unfolding cut u [symmetric] by (auto simp: unpack_III_def bind_res_Inr_conv)
qed

text \<open>
  C28: The GPC-copy decoder accepts a ROM exactly when its digest is the pinned one, the guard is
  CONDITION of the expected index followed by NOT, the row of that index tests bit 0 of 0x213EC,
  and the 23 bytes of the copy block are the expected instructions. No other ROM passes.
\<close>

theorem gpc_copy_accepts:
  "(\<exists>r. decode_gpc digest label data = Inr r) \<longleftrightarrow>
   (let expected = gpc_ROMS label; cond = gr_condition_offset expected; index = gr_condition_index expected;
        copy = gr_copy_offset expected in
    digest data = gr_sha256 expected \<and> slice cond (cond + 3) data = [0x75, of_nat index, 0x38] \<and>
    (\<exists>p. get_u16 data 0xC89 = Some p \<and> (let row = 0xA00 + nat p + 12 * index in
      slice row (row + 12) data = le_bytes 4 0x213EC @ le_bytes 4 1 @ le_bytes 4 0)) \<and>
    slice copy (copy + 23) data = copy_bytes)"
proof -
  have table: "nat (0xA00 + p) = 0xA00 + nat p" if "u16 data 0xC89 = Inr p" for p
    using unpack_nonneg [OF that] by (simp add: nat_add_distrib)
  have u16: "u16 data 0xC89 = Inr p \<longleftrightarrow> get_u16 data 0xC89 = Some p" for p
    by (simp add: unpack_def get_u16_def)
  show ?thesis
    unfolding decode_gpc_def Let_def copy_iff [symmetric] row_iff [symmetric] u16 [symmetric]
    by (auto simp: bind_res_Inr_conv table)
qed

text \<open>
  The literal search of the GPC tool (a comparison at every offset) and the repeated find of the
  register-pack tool list the same offsets: in order, all those where the little-endian word is
  stored, overlapping ones included.
\<close>

lemma occurrences_agree:
  "all_u32_offsets data v = find_loop data (le_bytes 4 v) 0 \<and>
   set (all_u32_offsets data v) = {i. get_u32 data i = Some (v mod 2 ^ 32)} \<and> sorted (all_u32_offsets data v)"
proof -
  have read: "get_u32 data i = Some (v mod 2 ^ 32) \<longleftrightarrow> slice i (i + 4) data = le_bytes 4 v \<and> i < length data - 3" for i
  proof -
    have "get_u32 data i = Some (v mod 2 ^ 32) \<longleftrightarrow> unpack 4 data i = Inr (v mod 2 ^ 32)"
      unfolding unpack_def get_u32_def of_option_Inr ..
    also have "\<dots> \<longleftrightarrow> slice i (i + 4) data = le_bytes 4 (v mod 2 ^ 32)" by (rule unpack_iff) simp_all
    also have "le_bytes 4 (v mod 2 ^ 32) = le_bytes 4 v" by (rule le_bytes_cong) simp
    also have "slice i (i + 4) data = le_bytes 4 v \<longleftrightarrow> slice i (i + 4) data = le_bytes 4 v \<and> i < length data - 3"
      by (auto simp: slice_def dest: arg_cong [where f = length])
    finally show ?thesis .
  qed
  have "find_loop data (le_bytes 4 v) 0 = all_u32_offsets data v"
  proof -
    have "Suc (length data) - length (le_bytes 4 v) = length data - 3" by simp
    then show ?thesis unfolding find_loop_filter all_u32_offsets_def by simp
  qed
  moreover have "set (all_u32_offsets data v) = {i. get_u32 data i = Some (v mod 2 ^ 32)}"
    unfolding read by (auto simp: all_u32_offsets_def)
  moreover have "sorted (all_u32_offsets data v)"
    unfolding all_u32_offsets_def by (rule sorted_wrt_filter) simp
  ultimately show ?thesis by simp
qed

end
