(* ===== verification/DevinitWidth.thy ===== *)
theory DevinitWidth
  imports Devinit
begin

text \<open>
  \<^verbatim>\<open>tools/analyze_devinit_width_path.py\<close>: the decoder of the PCIe translation (XLAT)
  instruction, its guard and the register write that follows it, and the comparison of two ROMs.
  The checks that print a message and exit are \<^term>\<open>Require\<close>.
\<close>

record width_rom =
  wr_sha256 :: string
  wr_xlat :: nat
  wr_follow :: nat

definition width_ROMS :: "rom_label \<Rightarrow> width_rom" where
  "width_ROMS label = (case label of
     CMP \<Rightarrow> \<lparr>wr_sha256 = ''e77a5ca44212927a06004fd9910d5456302750e11a773c84817e8fef5ee8e46b'',
       wr_xlat = 0xD9C8, wr_follow = 0xD9E0\<rparr>
   | V100 \<Rightarrow> \<lparr>wr_sha256 = ''c45cf4cca3531de82b7b1a587b81f9f31d58e5589fafad0bb431bb95d89d61d8'',
       wr_xlat = 0xC583, wr_follow = 0xC59B\<rparr>)"

definition OPTION_ROM_BASE :: int where "OPTION_ROM_BASE = 0xA00"
definition BIT_I_DATA :: nat where "BIT_I_DATA = 0xC83"

definition load_rom :: "(bytes \<Rightarrow> string) \<Rightarrow> rom_label \<Rightarrow> bytes \<Rightarrow> rom_error + bytes" where
  "load_rom digest label data =
     bind_res (require (digest data = wr_sha256 (width_ROMS label)) ''SHA-256 mismatch'') (\<lambda>_. Inr data)"

record xlat_item =
  xi_condition :: int
  xi_condition_base :: int
  xi_condition_predicate :: triple
  xi_raw :: bytes
  xi_source :: int
  xi_left :: bool
  xi_source_shift :: int
  xi_source_mask :: int
  xi_xlat_index :: int
  xi_xlat_pointer_table :: int
  xi_xlat_data :: int
  xi_translation :: bytes
  xi_destination :: int
  xi_and_mask :: int
  xi_destination_shift :: int
  xi_follow_condition :: int
  xi_follow_predicate :: triple
  xi_follow_address :: int
  xi_follow_and :: int
  xi_follow_or :: int

definition decode_xlat_at :: "nat \<Rightarrow> nat \<Rightarrow> bytes \<Rightarrow> rom_error + xlat_item" where
  "decode_xlat_at off follow data = (let raw = slice off (off + 17) data in
     bind_res (require (length raw = 17 \<and> raw ! 0 = 0x96) ''expected XLAT opcode 0x96'') (\<lambda>_.
     bind_res (byte_at data (off - 3)) (\<lambda>cond_op. bind_res (byte_at data (off - 1)) (\<lambda>not_op.
     bind_res (require (cond_op = 0x75 \<and> not_op = 0x38) ''expected CONDITION,index,NOT before XLAT'') (\<lambda>_.
     bind_res (byte_at data follow) (\<lambda>follow_op.
     bind_res (require (follow_op = 0x6E) ''expected NV_REG opcode 0x6e'') (\<lambda>_.
     let shift_raw = uint (raw ! 5); left = (shift_raw AND 0x80) \<noteq> 0;
         shift = (if left then 0x100 - shift_raw else shift_raw) in
     bind_res (u16 data (BIT_I_DATA + 6)) (\<lambda>p. let condition_base = OPTION_ROM_BASE + p in
     bind_res (u16 data (BIT_I_DATA + 16)) (\<lambda>p. let xlat_pointer_table = OPTION_ROM_BASE + p in
     bind_res (u16 data (nat (xlat_pointer_table + 2 * uint (raw ! 7)))) (\<lambda>p. let xlat_data = OPTION_ROM_BASE + p;
         input_entries = unat (raw ! 6) + 1;
         translation = slice (nat xlat_data) (nat xlat_data + input_entries) data in
     bind_res (require (length translation = input_entries) ''truncated X table'') (\<lambda>_.
     bind_res (byte_at data (off - 2)) (\<lambda>condition. bind_res (byte_at data (follow - 2)) (\<lambda>follow_condition.
     bind_res (unpack_III data (nat (condition_base + 12 * condition))) (\<lambda>predicate.
     bind_res (unpack_III data (nat (condition_base + 12 * follow_condition))) (\<lambda>follow_predicate.
     bind_res (u32 raw 1) (\<lambda>source. bind_res (u32 raw 8) (\<lambda>destination. bind_res (u32 raw 12) (\<lambda>and_mask.
     bind_res (u32 data (follow + 1)) (\<lambda>follow_address. bind_res (u32 data (follow + 5)) (\<lambda>follow_and.
     bind_res (u32 data (follow + 9)) (\<lambda>follow_or.
     Inr \<lparr>xi_condition = condition, xi_condition_base = condition_base, xi_condition_predicate = predicate,
          xi_raw = raw, xi_source = source, xi_left = left, xi_source_shift = shift, xi_source_mask = uint (raw ! 6),
          xi_xlat_index = uint (raw ! 7), xi_xlat_pointer_table = xlat_pointer_table, xi_xlat_data = xlat_data,
          xi_translation = translation, xi_destination = destination, xi_and_mask = and_mask,
          xi_destination_shift = uint (raw ! 16), xi_follow_condition = follow_condition,
          xi_follow_predicate = follow_predicate, xi_follow_address = follow_address,
          xi_follow_and = follow_and, xi_follow_or = follow_or\<rparr>)))))))))))))))))))))"

definition decode_xlat :: "rom_label \<Rightarrow> bytes \<Rightarrow> rom_error + xlat_item" where
  "decode_xlat label data = decode_xlat_at (wr_xlat (width_ROMS label)) (wr_follow (width_ROMS label)) data"

text \<open>The verdict of \<^verbatim>\<open>main\<close>: exit status 0 when both ROMs do the same under other indices.\<close>

definition compare_items :: "xlat_item \<Rightarrow> xlat_item \<Rightarrow> int" where
  "compare_items cmp v100 = (let
     same_xlat = (xi_raw cmp = xi_raw v100);
     different_guards = ((xi_condition cmp, xi_follow_condition cmp) \<noteq> (xi_condition v100, xi_follow_condition v100));
     same_predicates = (xi_condition_predicate cmp = xi_condition_predicate v100 \<and>
       xi_follow_predicate cmp = xi_follow_predicate v100);
     same_translation = (xi_translation cmp = xi_translation v100) in
     if same_xlat \<and> different_guards \<and> same_predicates \<and> same_translation then 0 else 1)"

definition width_main :: "(bytes \<Rightarrow> string) \<Rightarrow> bytes \<Rightarrow> bytes \<Rightarrow> rom_error + int" where
  "width_main digest cmp_rom v100_rom =
     bind_res (load_rom digest CMP cmp_rom) (\<lambda>cmp_data. bind_res (decode_xlat CMP cmp_data) (\<lambda>cmp_item.
     bind_res (load_rom digest V100 v100_rom) (\<lambda>v100_data. bind_res (decode_xlat V100 v100_data) (\<lambda>v100_item.
     Inr (compare_items cmp_item v100_item)))))"

subsection \<open>What a decoded item means\<close>

text \<open>The printed expression: the register read, shifted, masked and translated.\<close>

definition xlat_input :: "xlat_item \<Rightarrow> int \<Rightarrow> int" where
  "xlat_input item v = (let k = nat (xi_source_shift item) in
     (if xi_left item then push_bit k v else drop_bit k v) AND xi_source_mask item)"

definition encode_xlat :: "xlat_item \<Rightarrow> bytes" where
  "encode_xlat item = 0x96 # le_bytes 4 (xi_source item) @
     [word_of_int (if xi_left item then 0x100 - xi_source_shift item else xi_source_shift item),
      word_of_int (xi_source_mask item), word_of_int (xi_xlat_index item)] @
     le_bytes 4 (xi_destination item) @ le_bytes 4 (xi_and_mask item) @ [word_of_int (xi_destination_shift item)]"

lemma list_of_17:
  assumes "length (raw :: bytes) = 17"
  shows "raw = [raw ! 0] @ slice 1 5 raw @ [raw ! 5, raw ! 6, raw ! 7] @ slice 8 12 raw @ slice 12 16 raw @ [raw ! 16]"
proof -
  obtain a0 a1 a2 a3 a4 a5 a6 a7 a8 a9 a10 a11 a12 a13 a14 a15 a16 where
    "raw = [a0, a1, a2, a3, a4, a5, a6, a7, a8, a9, a10, a11, a12, a13, a14, a15, a16]"
    using assms by (auto simp: numeral_eq_Suc length_Suc_conv)
  then show ?thesis by (simp add: slice_def)
qed

lemma unpack_value: "unpack w data off = Inr v \<Longrightarrow> slice off (off + w) data = le_bytes w v"
  by (simp add: unpack_slice)

lemma decode_xlat_fields:
  assumes "decode_xlat_at off follow data = Inr item"
  shows "xi_raw item = slice off (off + 17) data \<and> length (xi_raw item) = 17 \<and> xi_raw item ! 0 = 0x96 \<and>
    xi_left item = ((uint (xi_raw item ! 5) AND 0x80) \<noteq> 0) \<and>
    xi_source_shift item = (if xi_left item then 0x100 - uint (xi_raw item ! 5) else uint (xi_raw item ! 5)) \<and>
    xi_source_mask item = uint (xi_raw item ! 6) \<and> xi_xlat_index item = uint (xi_raw item ! 7) \<and>
    xi_destination_shift item = uint (xi_raw item ! 16) \<and>
    length (xi_translation item) = unat (xi_raw item ! 6) + 1 \<and>
    u32 (xi_raw item) 1 = Inr (xi_source item) \<and> u32 (xi_raw item) 8 = Inr (xi_destination item) \<and>
    u32 (xi_raw item) 12 = Inr (xi_and_mask item)"
proof -
  define raw where "raw = slice off (off + 17) data"
  have "length raw = 17 \<and> raw ! 0 = 0x96 \<and> xi_raw item = raw \<and> xi_left item = ((uint (raw ! 5) AND 0x80) \<noteq> 0) \<and>
    xi_source_shift item = (if (uint (raw ! 5) AND 0x80) \<noteq> 0 then 0x100 - uint (raw ! 5) else uint (raw ! 5)) \<and>
    xi_source_mask item = uint (raw ! 6) \<and> xi_xlat_index item = uint (raw ! 7) \<and>
    xi_destination_shift item = uint (raw ! 16) \<and> length (xi_translation item) = unat (raw ! 6) + 1 \<and>
    u32 raw 1 = Inr (xi_source item) \<and> u32 raw 8 = Inr (xi_destination item) \<and> u32 raw 12 = Inr (xi_and_mask item)"
    using assms unfolding decode_xlat_at_def Let_def raw_def [symmetric]
    by (elim bind_res_InrE) clarsimp
  then show ?thesis by (simp add: raw_def)
qed

lemma sign_bit_byte: "(uint (b :: byte) AND 0x80 \<noteq> 0) \<longleftrightarrow> 128 \<le> uint b"
proof -
  have "uint b AND 128 = 0 \<longleftrightarrow> \<not> bit (uint b) 7"
    using and_power_eq_0_iff [of "uint b" 7] by simp
  moreover have "0 \<le> x \<Longrightarrow> x < 256 \<Longrightarrow> odd (x div 128) \<longleftrightarrow> 128 \<le> x" for x :: int
  proof -
    assume x: "0 \<le> x" "x < 256"
    have "x div 128 = (if x < 128 then 0 else 1)" using x by (simp add: div_pos_geq)
    then show ?thesis by simp
  qed
  then have "bit (uint b) 7 \<longleftrightarrow> 128 \<le> uint b"
    using uint_byte_bounds [of b] by (simp add: bit_iff_odd)
  ultimately show ?thesis by simp
qed

text \<open>
  C33: A decoded XLAT instruction encodes back to the seventeen bytes it was read from, its source
  shift lies in the range of its direction, and the masked table index computed from any source
  value selects an entry of the translation table that was read.
\<close>

theorem xlat_decoded:
  assumes "decode_xlat_at off follow data = Inr item"
  shows "slice off (off + 17) data = encode_xlat item \<and>
    (if xi_left item then 1 \<le> xi_source_shift item \<and> xi_source_shift item \<le> 128
     else 0 \<le> xi_source_shift item \<and> xi_source_shift item < 128) \<and>
    0 \<le> xlat_input item v \<and> xlat_input item v < int (length (xi_translation item))"
proof -
  note f = decode_xlat_fields [OF assms]
  let ?raw = "xi_raw item" and ?b = "uint (xi_raw item ! 5)"
  have u: "u32 ?raw 1 = Inr (xi_source item)" "u32 ?raw 8 = Inr (xi_destination item)"
    "u32 ?raw 12 = Inr (xi_and_mask item)"
    using f by blast+
  have reads: "slice 1 5 ?raw = le_bytes 4 (xi_source item)" "slice 8 12 ?raw = le_bytes 4 (xi_destination item)"
    "slice 12 16 ?raw = le_bytes 4 (xi_and_mask item)"
    using u [THEN unpack_value] by simp_all
  have fields: "length ?raw = 17" "?raw ! 0 = 0x96" "xi_source_mask item = uint (?raw ! 6)"
    "xi_xlat_index item = uint (?raw ! 7)" "xi_destination_shift item = uint (?raw ! 16)"
    "xi_source_shift item = (if xi_left item then 0x100 - ?b else ?b)"
    using f by blast+
  have "?raw = [?raw ! 0] @ slice 1 5 ?raw @ [?raw ! 5, ?raw ! 6, ?raw ! 7] @ slice 8 12 ?raw @ slice 12 16 ?raw @ [?raw ! 16]"
    by (rule list_of_17 [OF fields(1)])
  also have "\<dots> = encode_xlat item"
    unfolding reads using fields(2-) by (simp add: encode_xlat_def)
  finally have "slice off (off + 17) data = encode_xlat item" using f by argo
  moreover have "0 \<le> xlat_input item v \<and> xlat_input item v < int (length (xi_translation item))"
  proof -
    have "length (xi_translation item) = unat (?raw ! 6) + 1" using f by blast
    then have "int (length (xi_translation item)) = xi_source_mask item + 1"
      using fields(3) uint_byte_bounds [of "?raw ! 6"] by (simp only: unat_eq_nat_uint) simp
    moreover have "0 \<le> xlat_input item v \<and> xlat_input item v \<le> xi_source_mask item"
      unfolding xlat_input_def Let_def fields(3) by (simp add: AND_upper2)
    ultimately show ?thesis by simp
  qed
  moreover have "if xi_left item then 1 \<le> xi_source_shift item \<and> xi_source_shift item \<le> 128
      else 0 \<le> xi_source_shift item \<and> xi_source_shift item < 128"
  proof -
    define b where "b = ?b"
    have "xi_left item = (128 \<le> b)" using f sign_bit_byte b_def by blast
    moreover have "xi_source_shift item = (if xi_left item then 0x100 - b else b)" using fields(6) b_def by blast
    moreover have "0 \<le> b \<and> b < 256" using uint_byte_bounds b_def by blast
    ultimately show ?thesis by simp
  qed
  ultimately show ?thesis by argo
qed

text \<open>
  An image with the instruction at 3, the write at 23 and the tables after \<open>0xC89\<close>: a condition row at
  3231, the pointer table at 3243 and a table of two entries at 3245.
\<close>

definition demo_item :: xlat_item where
  "demo_item = \<lparr>xi_condition = 0, xi_condition_base = 3231, xi_condition_predicate = (0x213EC, 1, 0),
     xi_raw = [0x96, 0x10, 0x10, 0x02, 0, 0x82, 1, 0, 0x20, 0x20, 0x02, 0, 0xFE, 0xFF, 0xFF, 0xFF, 3],
     xi_source = 0x21010, xi_left = True, xi_source_shift = 126, xi_source_mask = 1, xi_xlat_index = 0,
     xi_xlat_pointer_table = 3243, xi_xlat_data = 3245, xi_translation = [5, 9], xi_destination = 0x22020,
     xi_and_mask = 0xFFFFFFFE, xi_destination_shift = 3, xi_follow_condition = 0,
     xi_follow_predicate = (0x213EC, 1, 0), xi_follow_address = 0x8C040, xi_follow_and = 0xFFFFFFF0, xi_follow_or = 2\<rparr>"

definition xlat_head :: bytes where
  "xlat_head = [0x75, 0, 0x38] @ xi_raw demo_item @ [0x75, 0, 0x38, 0x6E] @ le_bytes 4 0x8C040 @ le_bytes 4 0xFFFFFFF0 @ le_bytes 4 2"

definition xlat_tail :: bytes where
  "xlat_tail = [0x9F, 0x02, 0, 0, 0, 0, 0, 0, 0, 0, 0xAB, 0x02, 0, 0, 0, 0, 0, 0, 0, 0, 0, 0] @
     le_bytes 4 0x213EC @ le_bytes 4 1 @ le_bytes 4 0 @ [0xAD, 0x02, 5, 9]"

definition xlat_rom :: bytes where
  "xlat_rom = (xlat_head @ replicate 3173 0) @ xlat_tail"

lemma xlat_lengths: "length xlat_head = 36" "length xlat_tail = 38"
  by (simp_all add: xlat_head_def xlat_tail_def demo_item_def)

lemma xlat_head_parts:
  "slice 3 20 xlat_head = xi_raw demo_item" "byte_at xlat_head 0 = Inr 0x75" "byte_at xlat_head 1 = Inr 0"
  "byte_at xlat_head 2 = Inr 0x38" "byte_at xlat_head 21 = Inr 0" "byte_at xlat_head 23 = Inr 0x6E"
  "u32 xlat_head 24 = Inr 0x8C040" "u32 xlat_head 28 = Inr 0xFFFFFFF0" "u32 xlat_head 32 = Inr 2"
  by code_simp+

lemma xlat_tail_parts:
  "u16 xlat_tail 0 = Inr 671" "u16 xlat_tail 10 = Inr 683" "u16 xlat_tail 34 = Inr 685"
  "slice 36 38 xlat_tail = [5, 9]" "u32 xlat_tail 22 = Inr 0x213EC" "u32 xlat_tail 26 = Inr 1" "u32 xlat_tail 30 = Inr 0"
  by code_simp+

lemma xlat_raw_parts:
  "u32 (xi_raw demo_item) 1 = Inr 0x21010" "u32 (xi_raw demo_item) 8 = Inr 0x22020"
  "u32 (xi_raw demo_item) 12 = Inr 0xFFFFFFFE"
  by code_simp+

lemma xlat_rom_parts:
  "slice 3 20 xlat_rom = xi_raw demo_item" "byte_at xlat_rom 0 = Inr 0x75" "byte_at xlat_rom 1 = Inr 0"
  "byte_at xlat_rom 2 = Inr 0x38" "byte_at xlat_rom 21 = Inr 0" "byte_at xlat_rom 23 = Inr 0x6E"
  "u32 xlat_rom 24 = Inr 0x8C040" "u32 xlat_rom 28 = Inr 0xFFFFFFF0" "u32 xlat_rom 32 = Inr 2"
  using xlat_head_parts unfolding xlat_rom_def append_assoc
  by (simp_all add: byte_at_append unpack_append slice_append_left xlat_lengths)

lemma xlat_rom_tables:
  "u16 xlat_rom 3209 = Inr 671" "u16 xlat_rom 3219 = Inr 683" "u16 xlat_rom 3243 = Inr 685"
  "slice 3245 3247 xlat_rom = [5, 9]" "unpack_III xlat_rom 3231 = Inr (0x213EC, 1, 0)"
  using xlat_tail_parts unfolding xlat_rom_def
  by (simp_all add: unpack_append unpack_III_def slice_append_right xlat_lengths)

lemma demo_xlat: "decode_xlat_at 3 23 xlat_rom = Inr demo_item"
proof -
  let ?raw = "xi_raw demo_item"
  have raw: "length ?raw = 17" "?raw ! 0 = 0x96" "uint (?raw ! 5) = 130" "uint (?raw ! 6) = 1" "unat (?raw ! 6) = 1"
    "uint (?raw ! 7) = 0" "uint (?raw ! 16) = 3" "(130 :: int) AND 128 = 128"
    by (simp_all add: demo_item_def)
  have "decode_xlat_at 3 23 xlat_rom = Inr \<lparr>xi_condition = 0, xi_condition_base = 3231,
     xi_condition_predicate = (0x213EC, 1, 0), xi_raw = ?raw, xi_source = 0x21010, xi_left = True,
     xi_source_shift = 126, xi_source_mask = 1, xi_xlat_index = 0, xi_xlat_pointer_table = 3243, xi_xlat_data = 3245,
     xi_translation = [5, 9], xi_destination = 0x22020, xi_and_mask = 0xFFFFFFFE, xi_destination_shift = 3,
     xi_follow_condition = 0, xi_follow_predicate = (0x213EC, 1, 0), xi_follow_address = 0x8C040,
     xi_follow_and = 0xFFFFFFF0, xi_follow_or = 2\<rparr>"
    unfolding decode_xlat_at_def Let_def OPTION_ROM_BASE_def BIT_I_DATA_def
    using raw xlat_raw_parts xlat_rom_parts xlat_rom_tables by simp
  then show ?thesis by (simp add: demo_item_def)
qed

theorem xlat_decoded_witness:
  "slice 3 20 xlat_rom = encode_xlat demo_item \<and> xlat_input demo_item 7 < 2"
  using xlat_decoded [OF demo_xlat, of 7] by (simp add: demo_item_def)

end
