(* ===== verification/FirmwareInventory.thy ===== *)
theory FirmwareInventory
  imports Devinit
begin

text \<open>
  \<^verbatim>\<open>tools/compare_gv100_init_firmware.py\<close>: the inventory of the PRE_OS and DEVINIT
  firmware in a ROM. The segments of an accepted application lie one after the other behind its
  descriptor, cover the stored payload and stay inside the ROM.
\<close>

record segment =
  sg_name :: string
  sg_file_offset :: int
  sg_bytes :: int
  sg_sha256 :: string

record application =
  ap_id :: int
  ap_name :: string
  ap_target :: int
  ap_descriptor_offset :: int
  ap_entry_point :: int
  ap_segments :: "segment list"

record firmware_report =
  fr_rom_bytes :: nat
  fr_table_offset :: int
  fr_applications :: "application list"

text \<open>A pointer of the firmware address space, as an offset in the ROM.\<close>

definition mapped :: "int \<Rightarrow> bytes \<Rightarrow> int \<Rightarrow> rom_error + int" where
  "mapped fw_base data pointer =
     bind_res (require (pointer \<ge> 0xE400) ''Expected FwSec-space pointer'') (\<lambda>_.
     let offset = fw_base + pointer - 0xE400 in
     bind_res (require (offset < int (length data)) ''Pointer outside ROM'') (\<lambda>_. Inr offset))"

definition segment_at :: "(bytes \<Rightarrow> string) \<Rightarrow> bytes \<Rightarrow> string \<times> int \<times> int \<Rightarrow> segment" where
  "segment_at digest data x = (case x of (name, start, len) \<Rightarrow>
     \<lparr>sg_name = name, sg_file_offset = start, sg_bytes = len,
      sg_sha256 = digest (slice (nat start) (nat (start + len)) data)\<rparr>)"

definition application_at :: "(bytes \<Rightarrow> string) \<Rightarrow> int \<Rightarrow> bytes \<Rightarrow> int \<Rightarrow> nat \<Rightarrow> rom_error + application" where
  "application_at digest fw_base data table index = (let entry_at = nat (table + 6 + int index * 6) in
     bind_res (u8 data entry_at) (\<lambda>app. bind_res (u8 data (entry_at + 1)) (\<lambda>target.
     bind_res (u32 data (entry_at + 2)) (\<lambda>ptr.
     bind_res (require ((app, target) = (if index = 0 then (1, 1) else (4, 1))) ''Unexpected application'') (\<lambda>_.
     bind_res (mapped fw_base data ptr) (\<lambda>offset.
     bind_res (unpack_words data (nat offset) 12) (\<lambda>desc.
     let stored = desc ! 0; unpacked = desc ! 1; entry = desc ! 2; imem = desc ! 5; secsize = desc ! 8;
         dmoff = desc ! 9; dmsize = desc ! 11 in
     bind_res (require (stored AND 1 = 0) ''Expected v1 descriptor'') (\<lambda>_.
     bind_res (require (stored = unpacked \<and> imem \<ge> secsize) ''Unsupported compression or IMEM sizes'') (\<lambda>_.
     let boot = imem - secsize in
     bind_res (require (dmoff = imem \<and> stored = imem + dmsize) ''Non-packed descriptor'') (\<lambda>_.
     bind_res (require (offset + 0x30 + stored \<le> int (length data)) ''Payload outside ROM'') (\<lambda>_.
     Inr \<lparr>ap_id = app, ap_name = (if app = 1 then ''PRE_OS'' else ''DEVINIT''), ap_target = target,
          ap_descriptor_offset = offset, ap_entry_point = entry,
          ap_segments = map (segment_at digest data)
            [(''bootloader'', offset + 0x30, boot), (''secure_imem'', offset + 0x30 + boot, secsize),
             (''dmem'', offset + 0x30 + dmoff, dmsize)]\<rparr>)))))))))))"

definition inventory_at :: "(bytes \<Rightarrow> string) \<Rightarrow> int \<Rightarrow> bytes \<Rightarrow> rom_error + firmware_report" where
  "inventory_at digest fw_base data =
     bind_res (u32 data 0xD8D) (\<lambda>pointer.
     bind_res (mapped fw_base data pointer) (\<lambda>table.
     bind_res (require (slice (nat table) (nat table + 6) data = [1, 6, 6, 5, 1, 0x30]) ''Unexpected table layout'') (\<lambda>_.
     bind_res (map_res (application_at digest fw_base data table) [0, 3]) (\<lambda>apps.
     Inr \<lparr>fr_rom_bytes = length data, fr_table_offset = table, fr_applications = apps\<rparr>))))"

definition firmware_inventory :: "(bytes \<Rightarrow> string) \<Rightarrow> rom_label \<Rightarrow> bytes \<Rightarrow> rom_error + firmware_report" where
  "firmware_inventory digest label data =
     bind_res (require (digest data = fst (ROMS label)) ''ROM hash mismatch'') (\<lambda>_.
     inventory_at digest (case label of CMP \<Rightarrow> 0x20A00 | V100 \<Rightarrow> 0x1FC00) data)"

definition firmware_main :: "(bytes \<Rightarrow> string) \<Rightarrow> bytes \<Rightarrow> bytes \<Rightarrow> int \<times> firmware_report list" where
  "firmware_main digest = both_roms (firmware_inventory digest)"

text \<open>Segments that tile the bytes from \<open>start\<close> on.\<close>

fun tiles :: "int \<Rightarrow> segment list \<Rightarrow> int \<Rightarrow> bool" where
  "tiles start [] stop \<longleftrightarrow> start = stop"
| "tiles start (s # ss) stop \<longleftrightarrow> sg_file_offset s = start \<and> 0 \<le> sg_bytes s \<and> tiles (start + sg_bytes s) ss stop"

lemma unpack_words_nonneg:
  assumes "unpack_words data off n = Inr vs" and "i < n"
  shows "0 \<le> vs ! i"
  using assms map_res_nth [of "\<lambda>i. u32 data (off + 4 * i)" "[0..<n]" vs i] unpack_nonneg
  by (simp add: unpack_words_def)

lemma application_tiles:
  assumes "application_at digest fw_base data table index = Inr app"
  shows "ap_id app = (if index = 0 then 1 else 4) \<and> (\<exists>stop \<le> int (length data). tiles (ap_descriptor_offset app + 0x30) (ap_segments app) stop) \<and>
    map sg_name (ap_segments app) = [''bootloader'', ''secure_imem'', ''dmem''] \<and>
    (\<forall>s \<in> set (ap_segments app). sg_sha256 s =
      digest (slice (nat (sg_file_offset s)) (nat (sg_file_offset s + sg_bytes s)) data))"
proof -
  from assms obtain a t offset desc where d: "unpack_words data (nat offset) 12 = Inr desc"
    "(a, t) = (if index = 0 then (1, 1) else (4, 1 :: int))" "desc ! 5 \<ge> desc ! 8"
    "desc ! 9 = desc ! 5" "desc ! 0 = desc ! 5 + desc ! 11" "offset + 0x30 + desc ! 0 \<le> int (length data)"
    "app = \<lparr>ap_id = a, ap_name = (if a = 1 then ''PRE_OS'' else ''DEVINIT''), ap_target = t,
       ap_descriptor_offset = offset, ap_entry_point = desc ! 2, ap_segments = map (segment_at digest data)
         [(''bootloader'', offset + 0x30, desc ! 5 - desc ! 8), (''secure_imem'', offset + 0x30 + (desc ! 5 - desc ! 8), desc ! 8),
          (''dmem'', offset + 0x30 + desc ! 9, desc ! 11)]\<rparr>"
    unfolding application_at_def Let_def
    by (elim bind_res_InrE) (simp only: require_Inr, blast)
  have "0 \<le> desc ! 8" "0 \<le> desc ! 11" using unpack_words_nonneg [OF d(1)] by simp_all
  then have "tiles (offset + 0x30) (ap_segments app) (offset + 0x30 + desc ! 0)"
    using d by (simp add: segment_at_def)
  then show ?thesis
    using d by (auto simp: segment_at_def split: if_splits)
qed

text \<open>
  An accepted inventory describes applications 1 and 4, in this order. The boot loader, the secure
  code and the data of each lie one behind the other from the end of its descriptor header on,
  inside the ROM, without gap or overlap, and each carries the digest of exactly these bytes.
\<close>

lemma firmware_segments:
  assumes "inventory_at digest fw_base data = Inr report"
  shows "map ap_id (fr_applications report) = [1, 4] \<and>
    (\<forall>app \<in> set (fr_applications report).
      (\<exists>stop \<le> int (length data). tiles (ap_descriptor_offset app + 0x30) (ap_segments app) stop) \<and>
      map sg_name (ap_segments app) = [''bootloader'', ''secure_imem'', ''dmem''] \<and>
      (\<forall>s \<in> set (ap_segments app). sg_sha256 s =
        digest (slice (nat (sg_file_offset s)) (nat (sg_file_offset s + sg_bytes s)) data)))"
proof -
  from assms obtain table a b where "application_at digest fw_base data table 0 = Inr a"
    "application_at digest fw_base data table 3 = Inr b" "fr_applications report = [a, b]"
    by (auto simp: inventory_at_def bind_res_Inr_conv)
  then show ?thesis
    using application_tiles [of digest fw_base data table 0 a] application_tiles [of digest fw_base data table 3 b]
    by simp
qed

text \<open>A ROM whose firmware space starts right behind the table pointer.\<close>

definition fw_descriptor :: bytes where
  "fw_descriptor = concat (map (le_bytes 4) [6, 6, 0x100, 0, 0, 4, 0, 0, 2, 4, 0, 2]) @ [11, 12, 13, 14, 15, 16]"

definition fw_tail :: bytes where
  "fw_tail = le_bytes 4 0xE400 @ [1, 6, 6, 5, 1, 0x30] @ [1, 1] @ le_bytes 4 0xE41E @ replicate 12 0 @
     [4, 1] @ le_bytes 4 0xE454 @ fw_descriptor @ fw_descriptor"

definition fw_rom :: bytes where
  "fw_rom = replicate 0xD8D 0 @ fw_tail"

lemma unpack_words_right:
  assumes "length xs \<le> off"
  shows "unpack_words (xs @ ys) off n = unpack_words ys (off - length xs) n"
proof -
  have "u32 (xs @ ys) (off + 4 * i) = u32 ys (off - length xs + 4 * i)" for i
    using assms by (simp add: unpack_append)
  then show ?thesis by (simp add: unpack_words_def)
qed

lemma fw_parts:
  "u32 fw_tail 0 = Inr 0xE400" "slice 4 10 fw_tail = [1, 6, 6, 5, 1, 0x30]"
  "u8 fw_tail 10 = Inr 1" "u8 fw_tail 11 = Inr 1" "u32 fw_tail 12 = Inr 0xE41E"
  "u8 fw_tail 28 = Inr 4" "u8 fw_tail 29 = Inr 1" "u32 fw_tail 30 = Inr 0xE454"
  "unpack_words fw_tail 34 12 = Inr [6, 6, 0x100, 0, 0, 4, 0, 0, 2, 4, 0, 2]"
  "unpack_words fw_tail 88 12 = Inr [6, 6, 0x100, 0, 0, 4, 0, 0, 2, 4, 0, 2]" "length fw_tail = 142"
  by code_simp+

lemma fw_rom_parts:
  "u32 fw_rom 3469 = Inr 0xE400" "slice 3473 3479 fw_rom = [1, 6, 6, 5, 1, 0x30]"
  "u8 fw_rom 3479 = Inr 1" "u8 fw_rom 3480 = Inr 1" "u32 fw_rom 3481 = Inr 0xE41E"
  "u8 fw_rom 3497 = Inr 4" "u8 fw_rom 3498 = Inr 1" "u32 fw_rom 3499 = Inr 0xE454"
  "unpack_words fw_rom 3503 12 = Inr [6, 6, 0x100, 0, 0, 4, 0, 0, 2, 4, 0, 2]"
  "unpack_words fw_rom 3557 12 = Inr [6, 6, 0x100, 0, 0, 4, 0, 0, 2, 4, 0, 2]" "length fw_rom = 3611"
  using fw_parts unfolding fw_rom_def
  by (simp_all add: unpack_append unpack_words_right slice_append_right)

lemma fw_inventory: "\<exists>r. inventory_at digest 3473 fw_rom = Inr r"
  using fw_rom_parts
  by (simp add: inventory_at_def application_at_def mapped_def Let_def)

end
