(* ===== verification/Csv.thy ===== *)
theory Csv
  imports PyText
begin

text \<open>
  Python's \<^verbatim>\<open>csv\<close> with its default dialect: the rows \<^verbatim>\<open>writer\<close> writes, the state
  machine of \<^verbatim>\<open>reader\<close> over a file opened with \<^verbatim>\<open>newline=""\<close>, and the rows
  of \<^verbatim>\<open>DictReader\<close>. Reading what was written gives the rows back.
\<close>

subsection \<open>Writing\<close>

definition LF :: char where "LF = CHR 0x0A"
definition CR :: char where "CR = CHR 0x0D"
definition QUOTE :: char where "QUOTE = CHR 0x22"

lemma csv_chars [simp]:
  "LF \<noteq> CR" "CR \<noteq> LF" "LF \<noteq> QUOTE" "QUOTE \<noteq> LF" "CR \<noteq> QUOTE" "QUOTE \<noteq> CR"
  "LF \<noteq> CHR '',''" "CHR '','' \<noteq> LF" "CR \<noteq> CHR '',''" "CHR '','' \<noteq> CR" "QUOTE \<noteq> CHR '',''" "CHR '','' \<noteq> QUOTE"
  by (simp_all add: LF_def CR_def QUOTE_def)

definition needs_quotes :: "char \<Rightarrow> bool" where
  "needs_quotes c \<longleftrightarrow> c = CHR '','' \<or> c = QUOTE \<or> c = CR \<or> c = LF"

definition quoted :: "string \<Rightarrow> string" where
  "quoted s = QUOTE # concat (map (\<lambda>c. if c = QUOTE then [QUOTE, QUOTE] else [c]) s) @ [QUOTE]"

text \<open>The only field of a row is quoted when it is empty.\<close>

definition csv_field :: "bool \<Rightarrow> string \<Rightarrow> string" where
  "csv_field single s = (if (single \<and> s = []) \<or> list_ex needs_quotes s then quoted s else s)"

definition csv_row :: "string list \<Rightarrow> string" where
  "csv_row fields = join '','' (map (csv_field (length fields = 1)) fields) @ [CR, LF]"

subsection \<open>Reading\<close>

datatype csv_state = StartRecord | StartField | InField | InQuoted | QuoteInQuoted | AfterCr

text \<open>The state, the current field, the fields before it, and the text.\<close>

fun csv_scan :: "csv_state \<Rightarrow> string \<Rightarrow> string list \<Rightarrow> string \<Rightarrow> string list list" where
  "csv_scan st f fs [] = (if st = StartRecord \<or> st = AfterCr then [] else [fs @ [f]])"
| "csv_scan st f fs (c # cs) =
     (if st = InQuoted then (if c = QUOTE then csv_scan QuoteInQuoted f fs cs else csv_scan InQuoted (f @ [c]) fs cs)
      else if st = QuoteInQuoted \<and> c = QUOTE then csv_scan InQuoted (f @ [c]) fs cs
      else if st = AfterCr \<and> c = LF then csv_scan StartRecord [] [] cs
      else if c = LF \<or> c = CR then
        (if st = StartRecord \<or> st = AfterCr then [] else fs @ [f]) #
          csv_scan (if c = CR then AfterCr else StartRecord) [] [] cs
      else if c = CHR '','' then csv_scan StartField [] (fs @ [f]) cs
      else if c = QUOTE \<and> st \<noteq> InField then csv_scan InQuoted f fs cs
      else csv_scan InField (f @ [c]) fs cs)"

definition field_size_limit :: int where "field_size_limit = 131072"

definition csv_rows :: "string \<Rightarrow> string list list option" where
  "csv_rows file = (let rows = csv_scan StartRecord [] [] file in
     if list_all (list_all (\<lambda>f. int (length f) \<le> field_size_limit)) rows then Some rows else None)"

text \<open>
  A row of \<^verbatim>\<open>DictReader\<close>: of equal names the last counts; a row that is too short has
  \<^verbatim>\<open>None\<close> under the remaining names. Empty rows are skipped after the header.
\<close>

type_synonym dict_row = "string \<rightharpoonup> string option"

definition dict_row :: "string list \<Rightarrow> string list \<Rightarrow> dict_row" where
  "dict_row names row = map_of (rev (zip names (map Some row @ replicate (length names - length row) None)))"

definition dict_rows :: "string \<Rightarrow> dict_row list option" where
  "dict_rows file = map_option (\<lambda>rows. case rows of [] \<Rightarrow> []
     | names # rest \<Rightarrow> map (dict_row names) (filter (\<lambda>row. row \<noteq> []) rest)) (csv_rows file)"

subsection \<open>Reading what was written\<close>

lemma scan_plain: "\<not> list_ex needs_quotes s \<Longrightarrow> csv_scan InField f fs (s @ rest) = csv_scan InField (f @ s) fs rest"
  by (induction s arbitrary: f) (auto simp: needs_quotes_def)

lemma scan_plain_start:
  assumes "\<not> list_ex needs_quotes s" and "s \<noteq> []" and "st = StartField \<or> st = StartRecord"
  shows "csv_scan st [] fs (s @ rest) = csv_scan InField s fs rest"
  using assms scan_plain [of "tl s" "[hd s]" fs rest] by (cases s) (auto simp: needs_quotes_def)

lemma scan_quoted_body:
  "csv_scan InQuoted f fs (concat (map (\<lambda>c. if c = QUOTE then [QUOTE, QUOTE] else [c]) s) @ QUOTE # rest) =
   csv_scan QuoteInQuoted (f @ s) fs rest"
  by (induction s arbitrary: f) auto

lemma scan_quoted:
  "st = StartField \<or> st = StartRecord \<Longrightarrow> csv_scan st [] fs (quoted s @ rest) = csv_scan QuoteInQuoted s fs rest"
  using scan_quoted_body [of "[]" fs s rest] by (auto simp: quoted_def)

lemma scan_field:
  assumes "st = StartField \<or> st = StartRecord"
  shows "csv_scan st [] fs (csv_field single s @ CHR '','' # rest) = csv_scan StartField [] (fs @ [s]) rest"
    and "st = StartField \<or> single \<or> s \<noteq> [] \<Longrightarrow>
      csv_scan st [] fs (csv_field single s @ CR # LF # rest) = (fs @ [s]) # csv_scan StartRecord [] [] rest"
  using assms scan_quoted [OF assms, of fs s] scan_plain_start [of s st fs]
  by (cases "s = []"; auto simp: csv_field_def)+

lemma scan_fields:
  assumes "fields \<noteq> []" and "st = StartField \<or> st = StartRecord" and "st = StartField \<or> single \<or> fields \<noteq> [[]]"
  shows "csv_scan st [] fs (join '','' (map (csv_field single) fields) @ CR # LF # rest) =
    (fs @ fields) # csv_scan StartRecord [] [] rest"
  using assms
proof (induction fields arbitrary: st fs)
  case (Cons f fields)
  show ?case
  proof (cases fields)
    case Nil
    with Cons.prems show ?thesis using scan_field(2) [OF Cons.prems(2), of single f fs rest] by auto
  next
    case more: (Cons g gs)
    have "csv_scan StartField [] (fs @ [f]) (join '','' (map (csv_field single) fields) @ CR # LF # rest) =
        ((fs @ [f]) @ fields) # csv_scan StartRecord [] [] rest"
      using more by (intro Cons.IH) simp_all
    then show ?thesis using scan_field(1) [OF Cons.prems(2), of fs single f] more by simp
  qed
qed simp

lemma scan_row: "csv_scan StartRecord [] [] (csv_row fields @ rest) = fields # csv_scan StartRecord [] [] rest"
proof (cases "fields = []")
  case True
  then show ?thesis by (simp add: csv_row_def)
next
  case False
  have "csv_scan StartRecord [] [] (join '','' (map (csv_field (length fields = 1)) fields) @ CR # LF # rest) =
      ([] @ fields) # csv_scan StartRecord [] [] rest"
    using False by (intro scan_fields) auto
  then show ?thesis by (simp add: csv_row_def)
qed

lemma csv_rows_written:
  assumes "\<forall>row \<in> set rows. \<forall>f \<in> set row. int (length f) \<le> field_size_limit"
  shows "csv_rows (concat (map csv_row rows)) = Some rows"
proof -
  have "csv_scan StartRecord [] [] (concat (map csv_row rows)) = rows"
    by (induction rows) (simp_all add: scan_row)
  with assms show ?thesis by (simp add: csv_rows_def list_all_iff)
qed

text \<open>There are at most as many rows as characters, and one more.\<close>

lemma csv_scan_length: "length (csv_scan st f fs s) \<le> Suc (length s)"
  by (induction st f fs s rule: csv_scan.induct) (simp_all, auto intro: le_SucI)

lemma dict_rows_length:
  assumes "dict_rows file = Some rows"
  shows "length rows \<le> Suc (length file)"
proof (cases "csv_scan StartRecord [] [] file")
  case Nil
  then show ?thesis using assms by (simp add: dict_rows_def csv_rows_def)
next
  case (Cons names rest)
  then have "length rows \<le> length rest"
    using assms by (auto simp: dict_rows_def csv_rows_def split: if_splits)
  then show ?thesis using csv_scan_length [of StartRecord "[]" "[]" "file"] Cons by simp
qed

interpretation csv_text: codec "\<lambda>rows. concat (map csv_row rows)" csv_rows
  "\<lambda>rows. \<forall>row \<in> set rows. \<forall>f \<in> set row. int (length f) \<le> field_size_limit"
  by unfold_locales (rule csv_rows_written)

end
