(* ===== verification/Json.thy ===== *)
theory Json
  imports PyText "HOL-Library.Char_ord" "HOL-Library.List_Lexorder" "HOL-Library.AList"
begin

text \<open>
  Python's \<^verbatim>\<open>json\<close> on text of code points below 256: \<^verbatim>\<open>dumps\<close> with and without
  \<^verbatim>\<open>indent\<close> and \<^verbatim>\<open>sort_keys\<close>, and \<^verbatim>\<open>loads\<close>. A number with a fraction
  or an exponent is kept as its text, so a float is its \<^verbatim>\<open>repr\<close>. Reading what was written gives the value
  back; the parser has fuel, and the fuel \<^verbatim>\<open>loads\<close> takes is always enough.
\<close>

datatype json =
    JNull
  | JBool bool
  | JInt int
  | JFloat string
  | JString string
  | JArray "json list"
  | JObject "(string \<times> json) list"

subsection \<open>Decimal output\<close>

function dec_nat :: "int \<Rightarrow> string" where
  "dec_nat n = (if n < 10 then [hex_char n] else dec_nat (n div 10) @ [hex_char (n mod 10)])"
  by pat_completeness auto
termination
  by (relation "measure nat") auto

declare dec_nat.simps [simp del]

definition py_str :: "int \<Rightarrow> string" where
  "py_str v = (if v < 0 then CHR ''-'' # dec_nat (- v) else dec_nat v)"

lemma is_digit_hex_char: "0 \<le> d \<Longrightarrow> d < 10 \<Longrightarrow> is_digit (hex_char d) \<and> dec_digit (hex_char d) = Some d"
  by (simp add: dec_digit_def is_digit_def hex_char_def)

lemma dec_nat_neq_Nil [simp]: "dec_nat n \<noteq> []"
  by (subst dec_nat.simps) simp

lemma dec_nat_digits: "0 \<le> n \<Longrightarrow> list_all is_digit (dec_nat n)"
proof (induction n rule: dec_nat.induct)
  case (1 n)
  then show ?case by (subst dec_nat.simps) (simp add: is_digit_hex_char)
qed

lemma dec_nat_value: "0 \<le> n \<Longrightarrow> digits_body dec_digit 10 need 0 (dec_nat n) = Some n"
proof (induction n arbitrary: need rule: dec_nat.induct)
  case (1 n)
  show ?case
  proof (cases "n < 10")
    case True
    with 1(2) show ?thesis by (subst dec_nat.simps) (simp add: is_digit_hex_char)
  next
    case False
    have "digits_body dec_digit 10 need 0 (dec_nat (n div 10)) = Some (n div 10)" using 1 False by simp
    then have "digits_body dec_digit 10 need 0 (dec_nat (n div 10) @ [hex_char (n mod 10)])
        = digits_body dec_digit 10 False (n div 10) [hex_char (n mod 10)]"
      by (rule digits_body_append) simp
    with False 1(2) show ?thesis by (subst dec_nat.simps) (simp add: is_digit_hex_char)
  qed
qed

text \<open>The first digit is zero only for zero itself.\<close>

lemma hex_char_zero: "hex_char 0 = CHR ''0''"
  by code_simp

lemma dec_nat_first: "0 \<le> n \<Longrightarrow> hd (dec_nat n) = CHR ''0'' \<longleftrightarrow> n = 0"
proof (induction n rule: dec_nat.induct)
  case (1 n)
  show ?case
  proof (cases "n < 10")
    case True
    have "hex_char n = hex_char 0 \<longleftrightarrow> n = 0"
      using is_digit_hex_char [of n] is_digit_hex_char [of 0] True 1(2) by force
    then show ?thesis using True by (subst dec_nat.simps) (simp add: hex_char_zero)
  next
    case False
    then show ?thesis using 1 by (subst dec_nat.simps) simp
  qed
qed

lemma dec_nat_zero: "dec_nat 0 = ''0''"
  by (subst dec_nat.simps) (simp add: hex_char_zero)

lemma digit_not_space: "is_digit c \<Longrightarrow> \<not> int_space c \<and> c \<noteq> CHR ''-'' \<and> c \<noteq> CHR ''+''"
  by (auto simp: is_digit_def int_space_def code_point_def Let_def)

lemma int_strip_id: "s \<noteq> [] \<Longrightarrow> \<not> int_space (hd s) \<Longrightarrow> \<not> int_space (last s) \<Longrightarrow> int_strip s = s"
proof -
  assume s: "s \<noteq> []" "\<not> int_space (hd s)" "\<not> int_space (last s)"
  then have "dropWhile int_space s = s" by (cases s) simp_all
  moreover have "dropWhile int_space (rev s) = rev s" using s by (cases "rev s") (auto simp flip: hd_rev)
  ultimately show "int_strip s = s" by (simp add: int_strip_def)
qed

lemma split_sign_dec: "0 \<le> n \<Longrightarrow> split_sign (dec_nat n) = (1, dec_nat n)"
  using dec_nat_digits [of n] by (cases "dec_nat n") (auto dest: digit_not_space)

lemma py_int10_py_str:
  assumes "int (length (dec_nat \<bar>v\<bar>)) \<le> max_str_digits"
  shows "py_int10 (py_str v) = Some v"
proof -
  have ds: "list_all is_digit (dec_nat \<bar>v\<bar>)" by (rule dec_nat_digits) simp
  then have "is_digit (last (dec_nat \<bar>v\<bar>))" by (simp add: list_all_iff)
  moreover have "is_digit (hd (dec_nat \<bar>v\<bar>))" using ds by (simp add: list_all_iff)
  moreover have "\<not> int_space (CHR ''-'')" by (simp add: int_space_def code_point_def)
  ultimately have "int_strip (py_str v) = py_str v"
    by (intro int_strip_id) (auto simp: py_str_def dest: digit_not_space)
  moreover have "split_sign (py_str v) = (if v < 0 then -1 else 1, dec_nat \<bar>v\<bar>)"
    using split_sign_dec [of v] by (auto simp: py_str_def)
  moreover have "filter is_digit (dec_nat \<bar>v\<bar>) = dec_nat \<bar>v\<bar>" using ds by (simp add: list_all_iff)
  ultimately show ?thesis using assms dec_nat_value [of "\<bar>v\<bar>" True] by (simp add: py_int10_def)
qed

subsection \<open>Strings\<close>

definition escape_char :: "char \<Rightarrow> string" where
  "escape_char c = (let n = code_point c in
     if n = 0x22 then [CHR 0x5C, CHR 0x22] else if n = 0x5C then [CHR 0x5C, CHR 0x5C]
     else if n = 8 then [CHR 0x5C, CHR ''b''] else if n = 12 then [CHR 0x5C, CHR ''f'']
     else if n = 10 then [CHR 0x5C, CHR ''n''] else if n = 13 then [CHR 0x5C, CHR ''r'']
     else if n = 9 then [CHR 0x5C, CHR ''t'']
     else if 0x20 \<le> n \<and> n \<le> 0x7E then [c]
     else [CHR 0x5C, CHR ''u'', CHR ''0'', CHR ''0'', hex_char (n div 16), hex_char (n mod 16)])"

definition dump_string :: "string \<Rightarrow> string" where
  "dump_string s = CHR 0x22 # concat (map escape_char s) @ [CHR 0x22]"

text \<open>The character of a one-letter escape.\<close>

definition short_escape :: "char \<Rightarrow> char option" where
  "short_escape e = map_of [(CHR 0x22, CHR 0x22), (CHR 0x5C, CHR 0x5C), (CHR ''/'', CHR ''/''), (CHR ''b'', CHR 0x08),
     (CHR ''f'', CHR 0x0C), (CHR ''n'', CHR 0x0A), (CHR ''r'', CHR 0x0D), (CHR ''t'', CHR 0x09)] e"

definition unicode_escape :: "string \<Rightarrow> char option" where
  "unicode_escape ds = (if length ds = 4 \<and> list_all is_hex_char ds
     then case digits_body hex_digit 16 True 0 ds of
         Some n \<Rightarrow> if n < 256 then Some (char_of n) else None
       | None \<Rightarrow> None
     else None)"

text \<open>
  The rest of a string after its opening quote, up to the closing one. Control characters are
  errors. An escaped code point above 255 is not a text of this model; it is \<^term>\<open>None\<close> as well.
\<close>

function scan_string :: "string \<Rightarrow> (string \<times> string) option" where
  "scan_string [] = None"
| "scan_string (c # cs) =
     (if c = CHR 0x22 then Some ([], cs)
      else if c = CHR 0x5C then
        (if cs = [] then None
         else if hd cs = CHR ''u'' then
           (case unicode_escape (take 4 (tl cs)) of None \<Rightarrow> None
            | Some d \<Rightarrow> map_option (apfst (Cons d)) (scan_string (drop 5 cs)))
         else (case short_escape (hd cs) of None \<Rightarrow> None
            | Some d \<Rightarrow> map_option (apfst (Cons d)) (scan_string (tl cs))))
      else if code_point c < 0x20 then None
      else map_option (apfst (Cons c)) (scan_string cs))"
  by pat_completeness auto
termination
  by (relation "measure length") auto

lemma code_point_inject: "code_point c = code_point d \<longleftrightarrow> c = d"
  by (simp add: code_point_def)

lemma code_point_range: "0 \<le> code_point c \<and> code_point c < 256"
  by (simp add: code_point_def of_char_def)

lemma unicode_escape_char:
  "unicode_escape [CHR ''0'', CHR ''0'', hex_char (code_point c div 16), hex_char (code_point c mod 16)] = Some c"
proof -
  have d: "hex_digit (hex_char (code_point c div 16)) = Some (code_point c div 16)"
      "hex_digit (hex_char (code_point c mod 16)) = Some (code_point c mod 16)"
      "hex_digit (CHR ''0'') = Some 0"
    using code_point_range [of c] hex_digit_hex_char [of 0]
    by (auto simp: hex_char_zero pos_imp_zdiv_nonneg_iff intro!: hex_digit_hex_char)
  have "char_of (code_point c) = c" by (simp add: code_point_def)
  then show ?thesis using code_point_range [of c] by (simp add: unicode_escape_def is_hex_char_def d)
qed

lemma escape_char_special:
  "code_point (CHR 0x22) = 0x22" "code_point (CHR 0x5C) = 0x5C" "code_point (CHR 0x08) = 8" "code_point (CHR 0x0C) = 12"
  "code_point (CHR 0x0A) = 10" "code_point (CHR 0x0D) = 13" "code_point (CHR 0x09) = 9"
  by (simp_all add: code_point_def)

lemma escape_char_scan:
  "scan_string (escape_char c @ rest) = map_option (apfst (Cons c)) (scan_string rest)"
proof -
  let ?n = "code_point c"
  consider "?n \<in> {0x22, 0x5C, 8, 12, 10, 13, 9}" | "?n \<notin> {0x22, 0x5C, 8, 12, 10, 13, 9}" "0x20 \<le> ?n" "?n \<le> 0x7E"
    | "?n \<notin> {0x22, 0x5C, 8, 12, 10, 13, 9}" "\<not> (0x20 \<le> ?n \<and> ?n \<le> 0x7E)" by blast
  then show ?thesis
  proof cases
    case 1
    then have "c \<in> {CHR 0x22, CHR 0x5C, CHR 0x08, CHR 0x0C, CHR 0x0A, CHR 0x0D, CHR 0x09}"
      using code_point_inject [of c] escape_char_special by (metis insert_iff empty_iff)
    then show ?thesis
      by (elim insertE emptyE) (simp_all add: escape_char_def escape_char_special short_escape_def)
  next
    case 2
    then have "escape_char c = [c]" by (simp add: escape_char_def)
    moreover have "c \<noteq> CHR 0x22" "c \<noteq> CHR 0x5C" using 2(1) escape_char_special by auto
    ultimately show ?thesis using 2 by simp
  next
    case 3
    then have "escape_char c = [CHR 0x5C, CHR ''u'', CHR ''0'', CHR ''0'', hex_char (?n div 16), hex_char (?n mod 16)]"
      by (simp add: escape_char_def Let_def)
    then show ?thesis by (simp add: unicode_escape_char)
  qed
qed

lemma dump_string_scan: "scan_string (concat (map escape_char s) @ CHR 0x22 # rest) = Some (s, rest)"
  by (induction s) (simp_all add: escape_char_scan)

lemma scan_string_shorter: "scan_string s = Some (t, r) \<Longrightarrow> length r < length s"
proof (induction s arbitrary: t rule: scan_string.induct)
  case (2 c cs)
  show ?case
  proof (cases "c = CHR 0x22 \<or> c = CHR 0x5C")
    case False
    then show ?thesis using 2 by (fastforce split: if_splits)
  next
    case True
    show ?thesis
    proof (cases "c = CHR 0x22")
      case False
      with True 2(4) have c: "c = CHR 0x5C" "cs \<noteq> []" by (auto split: if_splits)
      have "\<exists>k t'. scan_string (drop k cs) = Some (t', r) \<and>
          (hd cs = CHR ''u'' \<and> (\<exists>d. unicode_escape (take 4 (tl cs)) = Some d) \<and> k = 5 \<or>
           hd cs \<noteq> CHR ''u'' \<and> (\<exists>d. short_escape (hd cs) = Some d) \<and> k = 1)"
        using 2(4) c by (auto simp: drop_Suc split: if_splits option.splits)
      then show ?thesis using 2(1,2) c by (fastforce simp: drop_Suc)
    qed (use 2(4) in simp)
  qed
qed simp

subsection \<open>Numbers\<close>

definition digits_prefix :: "string \<Rightarrow> string \<times> string" where
  "digits_prefix s = (takeWhile is_digit s, dropWhile is_digit s)"

definition take_integer :: "string \<Rightarrow> (string \<times> string) option" where
  "take_integer s = (case s of [] \<Rightarrow> None
     | c # r \<Rightarrow> if c = CHR ''0'' then Some ([c], r) else if is_digit c then Some (digits_prefix s) else None)"

definition take_fraction :: "string \<Rightarrow> string \<times> string" where
  "take_fraction s = (case s of [] \<Rightarrow> ([], s)
     | c # r \<Rightarrow> (case digits_prefix r of (ds, r') \<Rightarrow>
         if c = CHR ''.'' \<and> ds \<noteq> [] then (c # ds, r') else ([], s)))"

definition take_exponent :: "string \<Rightarrow> string \<times> string" where
  "take_exponent s = (case s of [] \<Rightarrow> ([], s)
     | c # r \<Rightarrow>
         let (sg, r1) = (case r of [] \<Rightarrow> ([], r) | d # r' \<Rightarrow> if d = CHR ''+'' \<or> d = CHR ''-'' then ([d], r') else ([], r));
             (ds, r2) = digits_prefix r1 in
         if (c = CHR ''e'' \<or> c = CHR ''E'') \<and> ds \<noteq> [] then (c # sg @ ds, r2) else ([], s))"

text \<open>An integer of more digits than the interpreter converts is an error.\<close>

definition scan_number :: "string \<Rightarrow> (json \<times> string) option" where
  "scan_number s =
     (let (sg, r0) = (case s of [] \<Rightarrow> ([], s) | c # r \<Rightarrow> if c = CHR ''-'' then ([c], r) else ([], s)) in
      case take_integer r0 of None \<Rightarrow> None
      | Some (ds, r1) \<Rightarrow>
          let (fr, r2) = take_fraction r1; (ex, r3) = take_exponent r2 in
          if fr = [] \<and> ex = [] then map_option (\<lambda>v. (JInt v, r3)) (py_int10 (sg @ ds))
          else Some (JFloat (sg @ ds @ fr @ ex), r3))"

definition CONSTANTS :: "(string \<times> json) list" where
  "CONSTANTS = [(''null'', JNull), (''true'', JBool True), (''false'', JBool False), (''NaN'', JFloat ''NaN''),
     (''Infinity'', JFloat ''Infinity''), (''-Infinity'', JFloat ''-Infinity'')]"

definition scan_literal :: "string \<Rightarrow> (json \<times> string) option" where
  "scan_literal s = (case find (\<lambda>(name, v). starts_with name s) CONSTANTS of
     Some (name, v) \<Rightarrow> Some (v, drop (length name) s)
   | None \<Rightarrow> scan_number s)"

text \<open>What may follow a number that was written.\<close>

definition ends_number :: "string \<Rightarrow> bool" where
  "ends_number rest \<longleftrightarrow> rest = [] \<or> (\<not> is_digit (hd rest) \<and> hd rest \<notin> set ''.eE+-'')"

lemma digits_prefix_append:
  "list_all is_digit ds \<Longrightarrow> rest = [] \<or> \<not> is_digit (hd rest) \<Longrightarrow> digits_prefix (ds @ rest) = (ds, rest)"
  by (cases rest) (auto simp: digits_prefix_def list_all_iff takeWhile_append dropWhile_append)

lemma ends_number_tails: "ends_number rest \<Longrightarrow> take_fraction rest = ([], rest) \<and> take_exponent rest = ([], rest)"
  by (cases rest) (auto simp: ends_number_def take_fraction_def take_exponent_def split: prod.splits list.splits)

lemma take_integer_dec:
  assumes "0 \<le> n" and "ends_number rest"
  shows "take_integer (dec_nat n @ rest) = Some (dec_nat n, rest)"
proof (cases "n = 0")
  case True
  then show ?thesis by (simp add: take_integer_def dec_nat_zero)
next
  case False
  obtain c cs where c: "dec_nat n = c # cs" by (cases "dec_nat n") simp_all
  have "digits_prefix (dec_nat n @ rest) = (dec_nat n, rest)"
    using assms dec_nat_digits by (intro digits_prefix_append) (auto simp: ends_number_def)
  then show ?thesis using c dec_nat_first [OF assms(1)] dec_nat_digits [OF assms(1)] False by (simp add: take_integer_def)
qed

lemma scan_number_int:
  assumes "int (length (dec_nat \<bar>v\<bar>)) \<le> max_str_digits" and "ends_number rest"
  shows "scan_number (py_str v @ rest) = Some (JInt v, rest)"
proof -
  obtain c cs where c: "dec_nat \<bar>v\<bar> = c # cs" by (cases "dec_nat \<bar>v\<bar>") simp_all
  have "c \<noteq> CHR ''-''" using c dec_nat_digits [of "\<bar>v\<bar>"] digit_not_space by auto
  then show ?thesis
    using c ends_number_tails [OF assms(2)] take_integer_dec [OF _ assms(2), of "\<bar>v\<bar>"] py_int10_py_str [OF assms(1)]
    by (auto simp: scan_number_def py_str_def)
qed

text \<open>The text of a float: a constant, or a number that is not an integer.\<close>

definition float_text :: "string \<Rightarrow> bool" where
  "float_text t \<longleftrightarrow> t \<in> {''NaN'', ''Infinity'', ''-Infinity''} \<or> scan_number t = Some (JFloat t, [])"

lemma digits_prefix_extend:
  assumes "digits_prefix s = (ds, r)" and "ends_number rest"
  shows "digits_prefix (s @ rest) = (ds, r @ rest)"
proof -
  have "rest = [] \<or> \<not> is_digit (hd rest)" using assms(2) by (auto simp: ends_number_def)
  then have "takeWhile is_digit (s @ rest) = takeWhile is_digit s" "dropWhile is_digit (s @ rest) = dropWhile is_digit s @ rest"
    by (induction s; cases rest; auto)+
  then show ?thesis using assms(1) by (simp add: digits_prefix_def)
qed

lemma take_integer_extend:
  "take_integer s = Some (ds, r) \<Longrightarrow> ends_number rest \<Longrightarrow> take_integer (s @ rest) = Some (ds, r @ rest)"
  using digits_prefix_extend [of s ds r rest]
  by (cases s) (auto simp: take_integer_def split: if_splits)

lemma take_fraction_extend:
  "take_fraction s = (fr, r) \<Longrightarrow> ends_number rest \<Longrightarrow> take_fraction (s @ rest) = (fr, r @ rest)"
proof (cases s)
  case (Cons c cs)
  obtain ds r' where "digits_prefix cs = (ds, r')" by fastforce
  moreover assume "take_fraction s = (fr, r)" "ends_number rest"
  ultimately show ?thesis using digits_prefix_extend [of cs ds r' rest] Cons
    by (auto simp: take_fraction_def split: if_splits)
qed (auto simp: take_fraction_def [of "[]"] ends_number_tails)

lemma take_exponent_extend:
  "take_exponent s = (ex, r) \<Longrightarrow> ends_number rest \<Longrightarrow> take_exponent (s @ rest) = (ex, r @ rest)"
proof (cases s)
  case (Cons c cs)
  assume s: "take_exponent s = (ex, r)" and e: "ends_number rest"
  define sg r1 where "sg = (case cs of [] \<Rightarrow> [] | d # r' \<Rightarrow> if d = CHR ''+'' \<or> d = CHR ''-'' then [d] else [])"
    and "r1 = (case cs of [] \<Rightarrow> [] | d # r' \<Rightarrow> if d = CHR ''+'' \<or> d = CHR ''-'' then r' else cs)"
  have signs: "(case cs of [] \<Rightarrow> ([], cs) | d # r' \<Rightarrow> if d = CHR ''+'' \<or> d = CHR ''-'' then ([d], r') else ([], cs)) = (sg, r1)"
      "(case cs @ rest of [] \<Rightarrow> ([], cs @ rest) | d # r' \<Rightarrow> if d = CHR ''+'' \<or> d = CHR ''-'' then ([d], r') else ([], cs @ rest)) = (sg, r1 @ rest)"
    using e by (cases cs; cases rest; auto simp: sg_def r1_def ends_number_def)+
  obtain ds r' where ds: "digits_prefix r1 = (ds, r')" by fastforce
  show ?thesis using s Cons signs ds digits_prefix_extend [OF ds e]
    by (auto simp: take_exponent_def split: if_splits)
qed (auto simp: take_exponent_def [of "[]"] ends_number_tails)

lemma scan_number_float:
  assumes "scan_number t = Some (JFloat t, [])" and "ends_number rest"
  shows "scan_number (t @ rest) = Some (JFloat t, rest)"
proof -
  define sg r0 where "sg = (case t of [] \<Rightarrow> [] | c # r \<Rightarrow> if c = CHR ''-'' then [c] else [])"
    and "r0 = (case t of [] \<Rightarrow> [] | c # r \<Rightarrow> if c = CHR ''-'' then r else t)"
  have t: "t \<noteq> []" using assms(1) by (auto simp: scan_number_def take_integer_def)
  have signs: "(case t of [] \<Rightarrow> ([], t) | c # r \<Rightarrow> if c = CHR ''-'' then ([c], r) else ([], t)) = (sg, r0)"
      "(case t @ rest of [] \<Rightarrow> ([], t @ rest) | c # r \<Rightarrow> if c = CHR ''-'' then ([c], r) else ([], t @ rest)) = (sg, r0 @ rest)"
    using t by (cases t; auto simp: sg_def r0_def)+
  obtain ds r1 where ds: "take_integer r0 = Some (ds, r1)"
    using assms(1) signs(1) by (auto simp: scan_number_def split: option.splits)
  obtain fr r2 ex r3 where tails: "take_fraction r1 = (fr, r2)" "take_exponent r2 = (ex, r3)" by fastforce
  have float: "\<not> (fr = [] \<and> ex = [])" "sg @ ds @ fr @ ex = t" "r3 = []"
    using assms(1) signs(1) ds tails by (auto simp: scan_number_def split: if_splits)
  show ?thesis
    using signs(2) take_integer_extend [OF ds assms(2)] take_fraction_extend [OF tails(1) assms(2)]
      take_exponent_extend [OF tails(2) assms(2)] float
    by (auto simp: scan_number_def)
qed

lemma scan_number_start:
  "scan_number s \<noteq> None \<Longrightarrow> s \<noteq> [] \<and> (is_digit (hd s) \<or> (\<exists>d r. s = CHR ''-'' # d # r \<and> is_digit d))"
  by (cases s; cases "tl s") (auto simp: scan_number_def take_integer_def is_digit_def code_point_def split: if_splits option.splits)

text \<open>A text that is a number is none of the constants, whatever follows.\<close>

lemma scan_literal_number:
  assumes "scan_number s \<noteq> None"
  shows "scan_literal s = scan_number s"
proof -
  have "\<not> starts_with name s" if "(name, v) \<in> set CONSTANTS" for name v
    using scan_number_start [OF assms] that
    by (auto simp: CONSTANTS_def is_digit_def code_point_def neq_Nil_conv)
  then have "find (\<lambda>(name, v). starts_with name s) CONSTANTS = None" by (auto simp: find_None_iff)
  then show ?thesis by (simp add: scan_literal_def)
qed

subsection \<open>Writing\<close>

definition line_start :: "nat option \<Rightarrow> nat \<Rightarrow> string" where
  "line_start indent level = (case indent of None \<Rightarrow> [] | Some n \<Rightarrow> CHR 0x0A # replicate (n * level) (CHR '' ''))"

definition item_end :: "nat option \<Rightarrow> string" where
  "item_end indent = (case indent of None \<Rightarrow> '', '' | Some n \<Rightarrow> '','')"

definition bracketed :: "nat option \<Rightarrow> nat \<Rightarrow> char \<Rightarrow> char \<Rightarrow> string list \<Rightarrow> string" where
  "bracketed indent level opening closing items =
     (if items = [] then [opening, closing]
      else opening # line_start indent (Suc level) @ join (item_end indent @ line_start indent (Suc level)) items @
        line_start indent level @ [closing])"

fun dump_at :: "nat option \<Rightarrow> nat \<Rightarrow> json \<Rightarrow> string" where
  "dump_at indent level JNull = ''null''"
| "dump_at indent level (JBool b) = (if b then ''true'' else ''false'')"
| "dump_at indent level (JInt v) = py_str v"
| "dump_at indent level (JFloat t) = t"
| "dump_at indent level (JString s) = dump_string s"
| "dump_at indent level (JArray xs) =
     bracketed indent level (CHR ''['') (CHR '']'') (map (dump_at indent (Suc level)) xs)"
| "dump_at indent level (JObject kvs) =
     bracketed indent level (CHR ''{'') (CHR ''}'') (map (\<lambda>(k, v). dump_string k @ '': '' @ dump_at indent (Suc level) v) kvs)"

fun key_sorted :: "json \<Rightarrow> json" where
  "key_sorted (JArray xs) = JArray (map key_sorted xs)"
| "key_sorted (JObject kvs) = JObject (sort_key fst (map (\<lambda>(k, v). (k, key_sorted v)) kvs))"
| "key_sorted v = v"

definition dumps :: "nat option \<Rightarrow> bool \<Rightarrow> json \<Rightarrow> string" where
  "dumps indent sort_keys v = dump_at indent 0 (if sort_keys then key_sorted v else v)"

subsection \<open>Reading\<close>

definition is_ws :: "char \<Rightarrow> bool" where
  "is_ws c \<longleftrightarrow> c \<in> {CHR '' '', CHR 0x09, CHR 0x0A, CHR 0x0D}"

definition skip_ws :: "string \<Rightarrow> string" where
  "skip_ws s = dropWhile is_ws s"

text \<open>Storing a member: a key that is there keeps its place and gets the new value.\<close>

definition put_member :: "string \<Rightarrow> json \<Rightarrow> (string \<times> json) list \<Rightarrow> (string \<times> json) list" where
  "put_member k v kvs = AList.update k v kvs"

definition next_char :: "string \<Rightarrow> (char \<times> string) option" where
  "next_char s = (case skip_ws s of [] \<Rightarrow> None | c # r \<Rightarrow> Some (c, r))"

fun parse_value :: "nat \<Rightarrow> string \<Rightarrow> (json \<times> string) option"
  and parse_elements :: "nat \<Rightarrow> json list \<Rightarrow> string \<Rightarrow> (json \<times> string) option"
  and parse_members :: "nat \<Rightarrow> (string \<times> json) list \<Rightarrow> string \<Rightarrow> (json \<times> string) option" where
  "parse_value 0 s = None"
| "parse_value (Suc fuel) s = (case s of [] \<Rightarrow> None
     | c # r \<Rightarrow>
         if c = CHR 0x22 then map_option (apfst JString) (scan_string r)
         else if c = CHR ''['' then Option.bind (next_char r) (\<lambda>(d, r').
           if d = CHR '']'' then Some (JArray [], r') else parse_elements fuel [] (d # r'))
         else if c = CHR ''{'' then Option.bind (next_char r) (\<lambda>(d, r').
           if d = CHR ''}'' then Some (JObject [], r') else parse_members fuel [] (d # r'))
         else scan_literal s)"
| "parse_elements 0 acc s = None"
| "parse_elements (Suc fuel) acc s =
     Option.bind (parse_value fuel s) (\<lambda>(v, r). Option.bind (next_char r) (\<lambda>(d, r').
       if d = CHR '']'' then Some (JArray (acc @ [v]), r')
       else if d = CHR '','' then parse_elements fuel (acc @ [v]) (skip_ws r') else None))"
| "parse_members 0 acc s = None"
| "parse_members (Suc fuel) acc s = (case s of [] \<Rightarrow> None
     | c # r \<Rightarrow> if c \<noteq> CHR 0x22 then None
         else Option.bind (scan_string r) (\<lambda>(k, r1). Option.bind (next_char r1) (\<lambda>(d, r2).
           if d \<noteq> CHR '':'' then None
           else Option.bind (parse_value fuel (skip_ws r2)) (\<lambda>(v, r3). Option.bind (next_char r3) (\<lambda>(e, r4).
             if e = CHR ''}'' then Some (JObject (put_member k v acc), r4)
             else if e = CHR '','' then parse_members fuel (put_member k v acc) (skip_ws r4) else None)))))"

definition fuel_for :: "string \<Rightarrow> nat" where
  "fuel_for s = 2 * length s + 1"

definition loads :: "string \<Rightarrow> json option" where
  "loads s = (case parse_value (fuel_for s) (skip_ws s) of
     Some (v, r) \<Rightarrow> if skip_ws r = [] then Some v else None | None \<Rightarrow> None)"

subsection \<open>Enough fuel\<close>

lemma skip_ws_length [simp]: "length (skip_ws s) \<le> length s"
  by (simp add: skip_ws_def length_dropWhile_le)

lemma digits_prefix_length: "digits_prefix s = (ds, r) \<Longrightarrow> length ds + length r = length s"
  by (auto simp: digits_prefix_def simp flip: length_append)

lemma take_fraction_length: "take_fraction s = (fr, r) \<Longrightarrow> length r \<le> length s"
  by (auto simp: take_fraction_def split: list.splits prod.splits if_splits dest!: digits_prefix_length)

lemma take_exponent_length: "take_exponent s = (ex, r) \<Longrightarrow> length r \<le> length s"
  by (auto simp: take_exponent_def split: list.splits prod.splits if_splits dest!: digits_prefix_length)

lemma take_integer_length: "take_integer s = Some (ds, r) \<Longrightarrow> length r < length s"
  by (auto simp: take_integer_def digits_prefix_def split: list.splits if_splits intro: le_imp_less_Suc length_dropWhile_le)

lemma scan_number_shorter: "scan_number s = Some (v, r) \<Longrightarrow> length r < length s"
proof -
  assume s: "scan_number s = Some (v, r)"
  obtain sg r0 where sg: "(case s of [] \<Rightarrow> ([], s) | c # r \<Rightarrow> if c = CHR ''-'' then ([c], r) else ([], s)) = (sg, r0)" by fastforce
  then have "length r0 \<le> length s" by (auto split: list.splits if_splits)
  moreover obtain ds r1 where "take_integer r0 = Some (ds, r1)"
    using s sg by (auto simp: scan_number_def split: option.splits)
  moreover obtain fr r2 ex r3 where "take_fraction r1 = (fr, r2)" "take_exponent r2 = (ex, r3)" by fastforce
  ultimately show ?thesis using s sg take_integer_length [of r0 ds r1] take_fraction_length [of r1 fr r2]
      take_exponent_length [of r2 ex r3] by (auto simp: scan_number_def split: if_splits)
qed

lemma constant_names: "(name, v) \<in> set CONSTANTS \<Longrightarrow> name \<noteq> []"
  by (auto simp: CONSTANTS_def)

lemma starts_with_length: "starts_with p s \<Longrightarrow> length p \<le> length s"
  by (induction p s rule: starts_with.induct) auto

lemma scan_literal_shorter: "scan_literal s = Some (v, r) \<Longrightarrow> length r < length s"
proof (cases "find (\<lambda>(name, v). starts_with name s) CONSTANTS")
  case None
  assume "scan_literal s = Some (v, r)"
  with None show ?thesis by (auto simp: scan_literal_def intro: scan_number_shorter)
next
  case (Some nv)
  obtain name w where nv: "nv = (name, w)" by fastforce
  then have "(name, w) \<in> set CONSTANTS \<and> starts_with name s"
    using Some by (force simp: find_Some_iff set_conv_nth)
  moreover assume "scan_literal s = Some (v, r)"
  ultimately show ?thesis using Some nv constant_names [of name w] starts_with_length [of name s]
    by (cases name) (auto simp: scan_literal_def)
qed

lemma next_char_length: "next_char s = Some (c, r) \<Longrightarrow> length r < length s"
  using skip_ws_length [of s] by (auto simp: next_char_def simp del: skip_ws_length split: list.splits)

lemma parse_shorter:
  "(\<forall>s v r. parse_value f s = Some (v, r) \<longrightarrow> length r < length s) \<and>
   (\<forall>acc s v r. parse_elements f acc s = Some (v, r) \<longrightarrow> length r < length s) \<and>
   (\<forall>kvs s v r. parse_members f kvs s = Some (v, r) \<longrightarrow> length r < length s)"
proof (induction f)
  case (Suc f)
  then have IH: "parse_value f s = Some (v, r) \<Longrightarrow> length r < length s"
    "parse_elements f acc s = Some (v, r) \<Longrightarrow> length r < length s"
    "parse_members f kvs s = Some (v, r) \<Longrightarrow> length r < length s" for s v r acc kvs by blast+
  have IHws: "parse_value f (skip_ws s) = Some (v, r) \<Longrightarrow> length r < length s"
    "parse_elements f acc (skip_ws s) = Some (v, r) \<Longrightarrow> length r < length s"
    "parse_members f kvs (skip_ws s) = Some (v, r) \<Longrightarrow> length r < length s" for s v r acc kvs
    using IH less_le_trans [OF _ skip_ws_length] by blast+
  have "length r < length s" if "parse_value (Suc f) s = Some (v, r)" for s v r
    using that
    by (auto simp: Option.bind_eq_Some_conv split: list.splits if_splits
      dest!: scan_string_shorter next_char_length IH(2,3) scan_literal_shorter)
  moreover have "length r < length s" if "parse_elements (Suc f) acc s = Some (v, r)" for acc s v r
    using that
    by (auto simp: Option.bind_eq_Some_conv split: if_splits dest!: next_char_length IH(1) IHws(2))
  moreover have "length r < length s" if "parse_members (Suc f) kvs s = Some (v, r)" for kvs s v r
    using that
    by (auto simp: Option.bind_eq_Some_conv split: list.splits if_splits
      dest!: scan_string_shorter next_char_length IHws(1,3))
  ultimately show ?case by blast
qed simp

text \<open>More fuel than the length of the text asks for never changes the outcome.\<close>

lemma parse_fuel:
  "(\<forall>s g. 2 * length s + 1 \<le> f \<longrightarrow> f \<le> g \<longrightarrow> parse_value g s = parse_value f s) \<and>
   (\<forall>acc s g. 2 * length s + 2 \<le> f \<longrightarrow> f \<le> g \<longrightarrow> parse_elements g acc s = parse_elements f acc s) \<and>
   (\<forall>kvs s g. 2 * length s + 2 \<le> f \<longrightarrow> f \<le> g \<longrightarrow> parse_members g kvs s = parse_members f kvs s)"
proof (induction f)
  case (Suc f)
  then have IH: "2 * length s + 1 \<le> f \<Longrightarrow> f \<le> g \<Longrightarrow> parse_value g s = parse_value f s"
    "2 * length s + 2 \<le> f \<Longrightarrow> f \<le> g \<Longrightarrow> parse_elements g acc s = parse_elements f acc s"
    "2 * length s + 2 \<le> f \<Longrightarrow> f \<le> g \<Longrightarrow> parse_members g kvs s = parse_members f kvs s" for s g acc kvs by blast+
  have ws: "length (skip_ws t) \<le> length t" for t by simp
  note shorter = parse_shorter [of f]
  have "parse_value g s = parse_value (Suc f) s" if "2 * length s + 1 \<le> Suc f" "Suc f \<le> g" for s g
  proof -
    obtain g' where g: "g = Suc g'" "f \<le> g'" using \<open>Suc f \<le> g\<close> by (cases g) auto
    show ?thesis
    proof (cases s)
      case (Cons c r)
      have "parse_elements g' [] (d # r') = parse_elements f [] (d # r') \<and> parse_members g' [] (d # r') = parse_members f [] (d # r')"
        if "next_char r = Some (d, r')" for d r'
        using next_char_length [OF that] Cons \<open>2 * length s + 1 \<le> Suc f\<close> g(2) by (auto intro!: IH)
      then show ?thesis unfolding g(1) Cons
        by (cases "next_char r") (simp_all cong: if_cong split: prod.split)
    qed (simp add: g(1))
  qed
  moreover have "parse_elements g acc s = parse_elements (Suc f) acc s"
    if "2 * length s + 2 \<le> Suc f" "Suc f \<le> g" for acc s g
  proof -
    obtain g' where g: "g = Suc g'" "f \<le> g'" using \<open>Suc f \<le> g\<close> by (cases g) auto
    have v: "parse_value g' s = parse_value f s" using that(1) g(2) by (intro IH) simp_all
    have "parse_elements g' acc' (skip_ws r') = parse_elements f acc' (skip_ws r')"
      if "parse_value f s = Some (v, r)" "next_char r = Some (d, r')" for v r d r' acc'
    proof -
      have "length r < length s" using shorter that(1) by blast
      then show ?thesis
        using next_char_length [OF that(2)] ws [of r'] \<open>2 * length s + 2 \<le> Suc f\<close> g(2) by (intro IH) linarith+
    qed
    then show ?thesis unfolding g(1) by (auto simp: v intro!: Option.bind_cong)
  qed
  moreover have "parse_members g kvs s = parse_members (Suc f) kvs s"
    if "2 * length s + 2 \<le> Suc f" "Suc f \<le> g" for kvs s g
  proof -
    obtain g' where g: "g = Suc g'" "f \<le> g'" using \<open>Suc f \<le> g\<close> by (cases g) auto
    have "parse_value g' (skip_ws r2) = parse_value f (skip_ws r2)"
      if "s = c # r" "scan_string r = Some (k, r1)" "next_char r1 = Some (d, r2)" for c r k r1 d r2
      using arg_cong [OF that(1), of length] scan_string_shorter [OF that(2)] next_char_length [OF that(3)] ws [of r2]
        \<open>2 * length s + 2 \<le> Suc f\<close> g(2)
      by (intro IH) (simp_all del: skip_ws_length)
    moreover have "parse_members g' acc' (skip_ws r4) = parse_members f acc' (skip_ws r4)"
      if "s = c # r" "scan_string r = Some (k, r1)" "next_char r1 = Some (d, r2)"
        "parse_value f (skip_ws r2) = Some (v, r3)" "next_char r3 = Some (e, r4)" for c r k r1 d r2 v r3 e r4 acc'
    proof -
      have "length r3 < length (skip_ws r2)" using shorter that(4) by blast
      then show ?thesis
        using arg_cong [OF that(1), of length] scan_string_shorter [OF that(2)] next_char_length [OF that(3)]
          next_char_length [OF that(5)] ws [of r2] ws [of r4] \<open>2 * length s + 2 \<le> Suc f\<close> g(2)
        by (intro IH) (simp_all del: skip_ws_length)
    qed
    ultimately show ?thesis unfolding g(1) by (cases s) (auto intro!: Option.bind_cong)
  qed
  ultimately show ?case by blast
qed simp

lemma fuel_enough: "fuel_for s \<le> fuel \<Longrightarrow> parse_value fuel s = parse_value (fuel_for s) s"
  using parse_fuel [of "fuel_for s"] by (simp add: fuel_for_def)

subsection \<open>Reading what was written\<close>

text \<open>The values \<^verbatim>\<open>dumps\<close> writes: keys are distinct, and integers and floats have texts.\<close>

fun json_ok :: "json \<Rightarrow> bool" where
  "json_ok (JInt v) \<longleftrightarrow> int (length (dec_nat \<bar>v\<bar>)) \<le> max_str_digits"
| "json_ok (JFloat t) \<longleftrightarrow> float_text t"
| "json_ok (JArray xs) \<longleftrightarrow> (\<forall>x \<in> set xs. json_ok x)"
| "json_ok (JObject kvs) \<longleftrightarrow> distinct (map fst kvs) \<and> (\<forall>kv \<in> set kvs. json_ok (snd kv))"
| "json_ok v \<longleftrightarrow> True"

lemma dec_nat_length: "0 \<le> n \<Longrightarrow> n < 10 ^ k \<Longrightarrow> 0 < k \<Longrightarrow> length (dec_nat n) \<le> k"
proof (induction k arbitrary: n)
  case (Suc k)
  show ?case
  proof (cases "n < 10")
    case True
    then show ?thesis by (subst dec_nat.simps) simp
  next
    case False
    with Suc.prems have "0 < k" "n div 10 < 10 ^ k" by (cases k; simp)+
    with Suc have "length (dec_nat (n div 10)) \<le> k" by simp
    with False show ?thesis by (subst dec_nat.simps) simp
  qed
qed simp

lemma small_json_ok: "0 \<le> n \<Longrightarrow> n < 10 ^ 20 \<Longrightarrow> json_ok (JInt n)"
  using dec_nat_length [of n 20] by (simp add: max_str_digits_def)

lemma field_json_ok: "0 \<le> n \<Longrightarrow> n < 2 ^ 32 \<Longrightarrow> json_ok (JInt n)"
  by (rule small_json_ok) simp_all

definition gap :: "nat option \<Rightarrow> nat \<Rightarrow> string" where
  "gap indent level = (if indent = None then '' '' else line_start indent level)"

lemma item_gap: "item_end indent @ line_start indent level = CHR '','' # gap indent level"
  by (auto simp: item_end_def line_start_def gap_def split: option.splits)

lemma layout_ws: "list_all is_ws (line_start indent level)" "list_all is_ws (gap indent level)"
  by (auto simp: line_start_def gap_def is_ws_def list_all_iff split: option.splits)

lemma not_ws [simp]:
  "\<not> is_ws (CHR '','')" "\<not> is_ws (CHR '']'')" "\<not> is_ws (CHR ''}'')" "\<not> is_ws (CHR '':'')" "is_ws (CHR '' '')"
  "\<not> is_ws (CHR 0x22)"
  by (simp_all add: is_ws_def)

definition starts_value :: "string \<Rightarrow> bool" where
  "starts_value s \<longleftrightarrow> s \<noteq> [] \<and> \<not> is_ws (hd s) \<and> hd s \<noteq> CHR '']'' \<and> hd s \<noteq> CHR ''}''"

lemma skip_ws_layout: "list_all is_ws w \<Longrightarrow> s = [] \<or> \<not> is_ws (hd s) \<Longrightarrow> skip_ws (w @ s) = s"
  by (cases s) (auto simp: skip_ws_def list_all_iff dropWhile_append)

lemma next_char_layout: "list_all is_ws w \<Longrightarrow> \<not> is_ws c \<Longrightarrow> next_char (w @ c # s) = Some (c, s)"
  using skip_ws_layout [of w "c # s"] by (simp add: next_char_def)

lemma digit_starts: "is_digit c \<or> c = CHR ''-'' \<Longrightarrow> starts_value (c # cs)"
  by (auto simp: starts_value_def is_ws_def is_digit_def code_point_def)

lemma dump_starts: "json_ok v \<Longrightarrow> starts_value (dump_at indent level v)"
proof (cases v)
  case (JInt n)
  obtain c cs where "dec_nat \<bar>n\<bar> = c # cs" by (cases "dec_nat \<bar>n\<bar>") simp_all
  with JInt dec_nat_digits [of "\<bar>n\<bar>"] show ?thesis by (auto simp: py_str_def intro!: digit_starts)
next
  case (JFloat t)
  assume "json_ok v"
  then have "t \<in> {''NaN'', ''Infinity'', ''-Infinity''} \<or> t \<noteq> [] \<and> (is_digit (hd t) \<or> hd t = CHR ''-'')"
    using JFloat scan_number_start [of t] by (auto simp: float_text_def)
  then show ?thesis using JFloat
    by (cases t) (auto simp: starts_value_def is_ws_def is_digit_def code_point_def)
qed (auto simp: starts_value_def is_ws_def dump_string_def bracketed_def)

lemma ends_number_after: "list_all is_ws w \<Longrightarrow> c \<in> {CHR '','', CHR '']'', CHR ''}''} \<Longrightarrow> ends_number (w @ c # s)"
  by (cases w) (auto simp: ends_number_def is_ws_def is_digit_def code_point_def)

definition reads_back :: "(json \<Rightarrow> string) \<Rightarrow> json \<Rightarrow> bool" where
  "reads_back dump v \<longleftrightarrow> starts_value (dump v) \<and>
     (\<forall>rest fuel. ends_number rest \<longrightarrow> fuel_for (dump v @ rest) \<le> fuel \<longrightarrow> parse_value fuel (dump v @ rest) = Some (v, rest))"

lemma join_start: "xs \<noteq> [] \<Longrightarrow> starts_value (hd xs) \<Longrightarrow> starts_value (join sep xs @ rest)"
  by (cases xs rule: remdups_adj.cases) (auto simp: starts_value_def)

lemma elements_read_back:
  assumes "xs \<noteq> []" and "\<forall>x \<in> set xs. reads_back dump x" and "list_all is_ws w" and "list_all is_ws w0"
    and "Suc (fuel_for (join (CHR '','' # w) (map dump xs) @ w0 @ CHR '']'' # rest)) \<le> fuel"
  shows "parse_elements fuel acc (join (CHR '','' # w) (map dump xs) @ w0 @ CHR '']'' # rest) = Some (JArray (acc @ xs), rest)"
  using assms
proof (induction xs arbitrary: acc fuel)
  case (Cons x xs)
  obtain f where f: "fuel = Suc f" using Cons.prems(5) by (cases fuel) auto
  have x: "starts_value (dump x)" "\<And>rest g. ends_number rest \<Longrightarrow> fuel_for (dump x @ rest) \<le> g \<Longrightarrow> parse_value g (dump x @ rest) = Some (x, rest)"
    using Cons.prems(2) by (auto simp: reads_back_def)
  show ?case
  proof (cases xs)
    case Nil
    have "parse_value f (dump x @ w0 @ CHR '']'' # rest) = Some (x, w0 @ CHR '']'' # rest)"
      using Cons.prems Nil f by (intro x(2) ends_number_after) auto
    then show ?thesis using Nil f Cons.prems(4) by (simp add: next_char_layout)
  next
    case (Cons y ys)
    let ?tail = "join (CHR '','' # w) (map dump xs) @ w0 @ CHR '']'' # rest"
    have shape: "join (CHR '','' # w) (map dump (x # xs)) @ w0 @ CHR '']'' # rest = dump x @ CHR '','' # w @ ?tail"
      using Cons by simp
    have "parse_value f (dump x @ CHR '','' # w @ ?tail) = Some (x, CHR '','' # w @ ?tail)"
      using Cons.prems(5) shape f ends_number_after [of "[]" "CHR '',''"] by (intro x(2)) auto
    moreover have "skip_ws (w @ ?tail) = ?tail"
      using join_start [of "map dump xs" "CHR '','' # w" "w0 @ CHR '']'' # rest"] Cons.prems(2,3) Cons
      by (intro skip_ws_layout) (auto simp: reads_back_def starts_value_def)
    moreover have "parse_elements f (acc @ [x]) ?tail = Some (JArray ((acc @ [x]) @ xs), rest)"
      using Cons.prems Cons f shape by (intro Cons.IH) (auto simp: fuel_for_def)
    ultimately show ?thesis using shape f by (simp add: next_char_def skip_ws_def)
  qed
qed simp

text \<open>The members of an object, with the same layout.\<close>

definition dump_member :: "(json \<Rightarrow> string) \<Rightarrow> string \<times> json \<Rightarrow> string" where
  "dump_member dump kv = dump_string (fst kv) @ '': '' @ dump (snd kv)"

lemma put_member_new: "k \<notin> fst ` set kvs \<Longrightarrow> put_member k v kvs = kvs @ [(k, v)]"
  unfolding put_member_def by (induction kvs) auto

lemma dump_member_scan: "dump_member dump (k, v) @ rest = CHR 0x22 # concat (map escape_char k) @ CHR 0x22 # CHR '':'' # CHR '' '' # dump v @ rest"
  by (simp add: dump_member_def dump_string_def)

lemma member_step:
  assumes "reads_back dump v" and "ends_number rest" and "fuel_for (dump_member dump (k, v) @ rest) \<le> f"
  shows "parse_members (Suc f) acc (dump_member dump (k, v) @ rest) = Option.bind (next_char rest) (\<lambda>(e, r4).
      if e = CHR ''}'' then Some (JObject (put_member k v acc), r4)
      else if e = CHR '','' then parse_members f (put_member k v acc) (skip_ws r4) else None)"
proof -
  have v: "dump v \<noteq> []" "\<not> is_ws (hd (dump v))" using assms(1) by (auto simp: reads_back_def starts_value_def)
  have "skip_ws (CHR '' '' # dump v @ rest) = dump v @ rest" using v by (cases "dump v") (auto simp: skip_ws_def)
  moreover have "parse_value f (dump v @ rest) = Some (v, rest)"
    using assms by (auto simp: reads_back_def fuel_for_def dump_member_def dump_string_def)
  ultimately show ?thesis
    by (simp add: dump_member_scan dump_string_scan next_char_def [of "CHR '':'' # s" for s] skip_ws_def [of "CHR '':'' # s" for s])
qed

lemma members_read_back:
  assumes "kvs \<noteq> []" and "\<forall>kv \<in> set kvs. reads_back dump (snd kv)" and "list_all is_ws w" and "list_all is_ws w0"
    and "Suc (fuel_for (join (CHR '','' # w) (map (dump_member dump) kvs) @ w0 @ CHR ''}'' # rest)) \<le> fuel"
    and "distinct (map fst (acc @ kvs))"
  shows "parse_members fuel acc (join (CHR '','' # w) (map (dump_member dump) kvs) @ w0 @ CHR ''}'' # rest) = Some (JObject (acc @ kvs), rest)"
  using assms
proof (induction kvs arbitrary: acc fuel)
  case (Cons kv kvs)
  obtain k v where kv: "kv = (k, v)" by fastforce
  obtain f where f: "fuel = Suc f" using Cons.prems(5) by (cases fuel) auto
  have v: "reads_back dump v" and put: "put_member k v acc = acc @ [(k, v)]"
    using Cons.prems(2,6) kv by (auto intro!: put_member_new)
  show ?case
  proof (cases kvs)
    case Nil
    have "ends_number (w0 @ CHR ''}'' # rest)" using Cons.prems(4) by (intro ends_number_after) auto
    moreover have "fuel_for (dump_member dump (k, v) @ w0 @ CHR ''}'' # rest) \<le> f" using Cons.prems(5) Nil kv f by simp
    ultimately have "parse_members (Suc f) acc (dump_member dump (k, v) @ w0 @ CHR ''}'' # rest) = Some (JObject (acc @ [(k, v)]), rest)"
      by (simp only: member_step [OF v] put next_char_layout [OF Cons.prems(4) not_ws(3)] bind.bind_lunit prod.case if_True simp_thms)
    then show ?thesis using Nil kv f by simp
  next
    case (Cons y ys)
    let ?tail = "join (CHR '','' # w) (map (dump_member dump) kvs) @ w0 @ CHR ''}'' # rest"
    have shape: "join (CHR '','' # w) (map (dump_member dump) (kv # kvs)) @ w0 @ CHR ''}'' # rest
        = dump_member dump (k, v) @ CHR '','' # w @ ?tail"
      using Cons kv by simp
    have "starts_value (dump_member dump y)" by (simp add: dump_member_def dump_string_def starts_value_def)
    then have tail: "skip_ws (w @ ?tail) = ?tail"
      using join_start [of "map (dump_member dump) kvs" "CHR '','' # w" "w0 @ CHR ''}'' # rest"] Cons.prems(3) Cons
      by (intro skip_ws_layout) (auto simp: starts_value_def)
    have sep: "next_char (CHR '','' # w @ ?tail) = Some (CHR '','', w @ ?tail)" by (simp add: next_char_def skip_ws_def)
    have "ends_number (CHR '','' # w @ ?tail)" using ends_number_after [of "[]" "CHR '',''"] by simp
    moreover have "fuel_for (dump_member dump (k, v) @ CHR '','' # w @ ?tail) \<le> f"
      using Cons.prems(5) shape f by (simp add: fuel_for_def)
    ultimately have step: "parse_members (Suc f) acc (dump_member dump (k, v) @ CHR '','' # w @ ?tail) = parse_members f (acc @ [(k, v)]) ?tail"
      using member_step [OF v, of "CHR '','' # w @ ?tail" k f acc] unfolding sep put by (simp add: tail)
    have "parse_members f (acc @ [(k, v)]) ?tail = Some (JObject ((acc @ [(k, v)]) @ kvs), rest)"
      using Cons.prems Cons f shape kv by (intro Cons.IH) (auto simp: fuel_for_def)
    then show ?thesis unfolding shape f step using kv by simp
  qed
qed simp

lemma bracketed_text:
  "items \<noteq> [] \<Longrightarrow> bracketed indent level opening closing items @ rest =
     opening # line_start indent (Suc level) @ join (CHR '','' # gap indent (Suc level)) items @
       line_start indent level @ closing # rest"
  by (simp add: bracketed_def item_gap)

lemma first_item:
  assumes "starts_value (join sep items @ r)" and "list_all is_ws w"
  obtains d t where "join sep items @ r = d # t" and "next_char (w @ join sep items @ r) = Some (d, t)"
    and "d \<noteq> CHR '']''" and "d \<noteq> CHR ''}''"
  using assms by (cases "join sep items @ r") (auto simp: starts_value_def next_char_layout)

lemma array_reads_back:
  assumes "\<forall>x \<in> set xs. reads_back (dump_at indent (Suc level)) x"
  shows "reads_back (dump_at indent level) (JArray xs)"
  unfolding reads_back_def
proof (intro conjI allI impI)
  show "starts_value (dump_at indent level (JArray xs))" by (auto simp: starts_value_def bracketed_def is_ws_def)
  fix rest fuel
  assume e: "ends_number rest" and fuel: "fuel_for (dump_at indent level (JArray xs) @ rest) \<le> fuel"
  then obtain f where f: "fuel = Suc f" by (cases fuel) (auto simp: fuel_for_def)
  show "parse_value fuel (dump_at indent level (JArray xs) @ rest) = Some (JArray xs, rest)"
  proof (cases "xs = []")
    case True
    then show ?thesis using f by (simp add: bracketed_def next_char_def skip_ws_def)
  next
    case False
    let ?D = "dump_at indent (Suc level)"
    let ?body = "join (CHR '','' # gap indent (Suc level)) (map ?D xs)"
    let ?after = "line_start indent level @ CHR '']'' # rest"
    have shape: "dump_at indent level (JArray xs) @ rest = CHR ''['' # line_start indent (Suc level) @ ?body @ ?after"
      using False by (simp add: bracketed_text)
    have "starts_value (?body @ ?after)"
      using assms False by (intro join_start) (auto simp: reads_back_def hd_map)
    then obtain d t where d: "?body @ ?after = d # t" "next_char (line_start indent (Suc level) @ ?body @ ?after) = Some (d, t)"
        "d \<noteq> CHR '']''" by (rule first_item [OF _ layout_ws(1)])
    have "parse_elements f [] (?body @ ?after) = Some (JArray ([] @ xs), rest)"
      using False assms layout_ws fuel f shape by (intro elements_read_back) (auto simp: fuel_for_def)
    then show ?thesis unfolding shape f using d by simp
  qed
qed

lemma object_reads_back:
  assumes "\<forall>kv \<in> set kvs. reads_back (dump_at indent (Suc level)) (snd kv)" and "distinct (map fst kvs)"
  shows "reads_back (dump_at indent level) (JObject kvs)"
  unfolding reads_back_def
proof (intro conjI allI impI)
  let ?D = "dump_member (dump_at indent (Suc level))"
  have dump: "dump_at indent level (JObject kvs) = bracketed indent level (CHR ''{'') (CHR ''}'') (map ?D kvs)"
    by (simp add: dump_member_def [abs_def] split_def)
  show "starts_value (dump_at indent level (JObject kvs))" by (auto simp: starts_value_def bracketed_def is_ws_def)
  fix rest fuel
  assume e: "ends_number rest" and fuel: "fuel_for (dump_at indent level (JObject kvs) @ rest) \<le> fuel"
  then obtain f where f: "fuel = Suc f" by (cases fuel) (auto simp: fuel_for_def)
  show "parse_value fuel (dump_at indent level (JObject kvs) @ rest) = Some (JObject kvs, rest)"
  proof (cases "kvs = []")
    case True
    then show ?thesis using f by (simp add: bracketed_def next_char_def skip_ws_def)
  next
    case False
    let ?body = "join (CHR '','' # gap indent (Suc level)) (map ?D kvs)"
    let ?after = "line_start indent level @ CHR ''}'' # rest"
    have shape: "dump_at indent level (JObject kvs) @ rest = CHR ''{'' # line_start indent (Suc level) @ ?body @ ?after"
      using False unfolding dump by (simp add: bracketed_text)
    have "starts_value (?body @ ?after)"
      using False by (intro join_start) (auto simp: hd_map starts_value_def dump_member_def dump_string_def)
    then obtain d t where d: "?body @ ?after = d # t" "next_char (line_start indent (Suc level) @ ?body @ ?after) = Some (d, t)"
        "d \<noteq> CHR ''}''" by (rule first_item [OF _ layout_ws(1)])
    have "parse_members f [] (?body @ ?after) = Some (JObject ([] @ kvs), rest)"
      using False assms layout_ws fuel f shape by (intro members_read_back) (auto simp: fuel_for_def)
    then show ?thesis unfolding shape f using d by simp
  qed
qed

lemma scalar_reads_back:
  assumes "json_ok v" and "\<And>rest. ends_number rest \<Longrightarrow> scan_literal (dump_at indent level v @ rest) = Some (v, rest)"
    and "hd (dump_at indent level v) \<notin> {CHR 0x22, CHR ''['', CHR ''{''}"
  shows "reads_back (dump_at indent level) v"
  unfolding reads_back_def
proof (intro conjI allI impI)
  show start: "starts_value (dump_at indent level v)" using assms(1) by (rule dump_starts)
  fix rest fuel
  assume "ends_number rest" and fuel: "fuel_for (dump_at indent level v @ rest) \<le> fuel"
  moreover obtain c cs where "dump_at indent level v = c # cs" using start by (cases "dump_at indent level v") (auto simp: starts_value_def)
  moreover obtain f where "fuel = Suc f" using fuel by (cases fuel) (auto simp: fuel_for_def)
  ultimately show "parse_value fuel (dump_at indent level v @ rest) = Some (v, rest)"
    using assms(2) [of rest] assms(3) by auto
qed

lemma dump_reads_back: "json_ok v \<Longrightarrow> reads_back (dump_at indent level) v"
proof (induction v arbitrary: level)
  case JNull
  show ?case by (rule scalar_reads_back) (simp_all add: scan_literal_def CONSTANTS_def)
next
  case (JBool b)
  show ?case by (rule scalar_reads_back) (simp_all add: scan_literal_def CONSTANTS_def)
next
  case (JInt n)
  have "scan_literal (py_str n @ rest) = Some (JInt n, rest)" if "ends_number rest" for rest
    using scan_number_int [OF _ that, of n] JInt scan_literal_number [of "py_str n @ rest"] by simp
  moreover have "hd (py_str n) \<notin> {CHR 0x22, CHR ''['', CHR ''{''}"
    using dec_nat_digits [of "\<bar>n\<bar>"] by (cases "dec_nat \<bar>n\<bar>") (auto simp: py_str_def is_digit_def code_point_def)
  ultimately show ?case using JInt by (intro scalar_reads_back) simp_all
next
  case (JFloat t)
  show ?case
  proof (cases "t \<in> {''NaN'', ''Infinity'', ''-Infinity''}")
    case True
    then have "scan_literal (t @ rest) = Some (JFloat t, rest)" for rest
      by (elim insertE emptyE) (simp_all add: scan_literal_def CONSTANTS_def)
    then show ?thesis using JFloat True by (intro scalar_reads_back) auto
  next
    case False
    with JFloat have t: "scan_number t = Some (JFloat t, [])" by (simp add: float_text_def)
    have "scan_literal (t @ rest) = Some (JFloat t, rest)" if "ends_number rest" for rest
      using scan_number_float [OF t that] scan_literal_number [of "t @ rest"] by simp
    moreover have "hd t \<notin> {CHR 0x22, CHR ''['', CHR ''{''}"
      using scan_number_start [of t] t by (auto simp: is_digit_def code_point_def)
    ultimately show ?thesis using JFloat by (intro scalar_reads_back) simp_all
  qed
next
  case (JString s)
  show ?case unfolding reads_back_def
  proof (intro conjI allI impI)
    fix rest fuel
    assume "fuel_for (dump_at indent level (JString s) @ rest) \<le> fuel"
    then obtain f where "fuel = Suc f" by (cases fuel) (auto simp: fuel_for_def)
    then show "parse_value fuel (dump_at indent level (JString s) @ rest) = Some (JString s, rest)"
      by (simp add: dump_string_def dump_string_scan)
  qed (simp add: starts_value_def dump_string_def)
next
  case (JArray xs)
  then show ?case by (intro array_reads_back) simp
next
  case (JObject kvs)
  then show ?case by (intro object_reads_back) (auto simp: snds.simps)
qed

lemma key_sorted_ok: "json_ok v \<Longrightarrow> json_ok (key_sorted v)"
proof (induction v)
  case (JObject kvs)
  let ?kvs = "map (\<lambda>(k, v). (k, key_sorted v)) kvs"
  have "set (map fst (sort_key fst ?kvs)) = set (map fst ?kvs)" by (simp only: set_map set_sort)
  also have "map fst ?kvs = map fst kvs" by (simp add: split_def)
  finally have "card (set (map fst (sort_key fst ?kvs))) = length (map fst kvs)"
    using JObject.prems distinct_card [of "map fst kvs"] by (simp only: json_ok.simps)
  then have "distinct (map fst (sort_key fst ?kvs))" by (intro card_distinct) simp
  moreover have "json_ok (snd kv)" if "kv \<in> set (sort_key fst (map (\<lambda>(k, v). (k, key_sorted v)) kvs))" for kv
    using that JObject by (fastforce simp: snds.simps)
  ultimately show ?case by simp
qed auto

lemma loads_dumps: "json_ok v \<Longrightarrow> list_all is_ws w \<Longrightarrow> loads (dumps indent sorted_keys v @ w) = Some (if sorted_keys then key_sorted v else v)"
proof -
  assume v: "json_ok v" and w: "list_all is_ws w"
  let ?v = "if sorted_keys then key_sorted v else v"
  have r: "reads_back (dump_at indent 0) ?v" using v key_sorted_ok by (intro dump_reads_back) simp
  then have "skip_ws (dump_at indent 0 ?v @ w) = dump_at indent 0 ?v @ w"
    using skip_ws_layout [of "[]" "dump_at indent 0 ?v @ w"] by (auto simp: reads_back_def starts_value_def)
  moreover have "ends_number w" using w by (cases w) (auto simp: ends_number_def is_ws_def is_digit_def code_point_def)
  moreover have "skip_ws w = []" using w by (auto simp: skip_ws_def list_all_iff)
  ultimately show ?thesis using r by (simp add: loads_def dumps_def reads_back_def)
qed

interpretation json_text: codec "dumps indent False" loads json_ok for indent
  using loads_dumps [of _ "[]"] by unfold_locales fastforce

end
