(* ===== verification/ConditionAudit.thy ===== *)
theory ConditionAudit
  imports Devinit Csv Json
begin

text \<open>
  \<^verbatim>\<open>tools/audit_devinit_conditions.py\<close>: the audit of the condition references of the CMP
  devinit listing against the condition table of the flash image, and the list of registers to
  capture, from the bytes of the image and the text of the listing to the JSON that is printed.
\<close>

datatype audit_error =
    MissingIndex "string option"
  | MissingColumn string
  | NotText
  | IndexTooLong
  | CsvError
  | OutputExists
  | NotPinned
  | EmptyMaximum
  | IndexRange
  | TableRead rom_error
  | BadCapture

text \<open>\<^verbatim>\<open>re.search(r"cond_idx.*?(\d+)", s)\<close>: the digits after the first \<^verbatim>\<open>cond_idx\<close> that has
  some on its line.\<close>

lemma after_first_shorter: "after_first pat s = Some rest \<Longrightarrow> length rest < length s \<or> pat = []"
  by (induction s) (auto split: if_splits)

function cond_idx :: "string \<Rightarrow> string option" where
  "cond_idx s = (case after_first ''cond_idx'' s of
     None \<Rightarrow> None
   | Some rest \<Rightarrow>
       (let found = dropWhile (\<lambda>c. \<not> is_digit c) (takeWhile (\<lambda>c. c \<noteq> CHR 0x0A) rest) in
        if found = [] then cond_idx rest else Some (takeWhile is_digit found)))"
  by pat_completeness auto
termination
  by (relation "measure length") (auto dest: after_first_shorter)

declare cond_idx.simps [simp del]

text \<open>A missing column is a \<^verbatim>\<open>KeyError\<close>; searching the \<^verbatim>\<open>None\<close> of a short row is a
  \<^verbatim>\<open>TypeError\<close>.\<close>

definition column :: "dict_row \<Rightarrow> string \<Rightarrow> audit_error + string option" where
  "column row key = of_option (MissingColumn key) (row key)"

definition row_index :: "string \<Rightarrow> dict_row \<Rightarrow> audit_error + int option" where
  "row_index opcode row =
     bind_res (column row ''rom'') (\<lambda>rom. if rom \<noteq> Some ''CMP'' then Inr None else
     bind_res (column row ''opcode'') (\<lambda>op. if op \<noteq> Some opcode then Inr None else
     bind_res (column row ''first_operand'') (\<lambda>operand. bind_res (of_option NotText operand) (\<lambda>s.
     case cond_idx s of
       None \<Rightarrow> bind_res (column row ''file_offset'') (\<lambda>offset. Inl (MissingIndex offset))
     | Some ds \<Rightarrow> bind_res (of_option IndexTooLong (py_int10 ds)) (\<lambda>i. Inr (Some i))))))"

definition indices :: "dict_row list \<Rightarrow> string \<Rightarrow> audit_error + int list" where
  "indices rows opcode = bind_res (map_res (row_index opcode) rows) (\<lambda>found. Inr (List.map_filter id found))"

definition SOURCE_SHA :: string where
  "SOURCE_SHA = ''86dddefe1b9ab87f5244f2f6f591c93413cae0d4702b3f4d4552969252e9a75b''"

definition TABLE_BASE :: int where "TABLE_BASE = 0x52FB"

definition PASTED_OFFSETS :: "int list" where
  "PASTED_OFFSETS = [
    0x001580, 0x001584, 0x00158C, 0x0015B4, 0x00E800, 0x00E820,
    0x00E8D0, 0x0205E4, 0x021110, 0x021228, 0x021288, 0x021290,
    0x0213EC, 0x021C18, 0x021D38, 0x02240C, 0x088000, 0x118C50,
    0x12004C, 0x120064, 0x90BC90, 0x91BC90, 0x92BC90, 0x93BC90,
    0x90BC10, 0x91BC10, 0x92BC10, 0x93BC10]"

record condition_record =
  co_index :: int
  co_address :: int
  co_mask :: int
  co_value :: int

definition condition_record_at :: "bytes \<Rightarrow> int \<Rightarrow> audit_error + condition_record" where
  "condition_record_at raw index =
     (case unpack_III raw (nat (TABLE_BASE + 12 * index)) of
        Inl e \<Rightarrow> Inl (TableRead e)
      | Inr (address, and_mask, v) \<Rightarrow>
          Inr \<lparr>co_index = index, co_address = address, co_mask = and_mask, co_value = v\<rparr>)"

text \<open>\<^verbatim>\<open>sorted(set(xs))\<close>\<close>

definition sorted_set :: "int list \<Rightarrow> int list" where
  "sorted_set xs = sort (remdups xs)"

record audit =
  au_ordinary_occurrences :: nat
  au_ordinary_unique_indices :: nat
  au_ordinary_unique_registers :: nat
  au_poll_occurrences :: nat
  au_poll_unique_indices :: nat
  au_pasted_count :: nat
  au_missing :: "int list"
  au_capture :: "int list"
  au_ordinary_records :: "condition_record list"
  au_poll_records :: "condition_record list"

definition condition_audit :: "bytes \<Rightarrow> dict_row list \<Rightarrow> audit_error + audit" where
  "condition_audit raw rows =
     bind_res (indices rows ''CONDITION'') (\<lambda>ordinary.
     bind_res (indices rows ''POLL_NV_COND'') (\<lambda>polls.
     bind_res (ensure (ordinary @ polls \<noteq> []) EmptyMaximum) (\<lambda>_.
     bind_res (ensure (\<not> Max (set (ordinary @ polls)) \<ge> 85) IndexRange) (\<lambda>_.
     bind_res (map_res (condition_record_at raw) (sorted_set ordinary)) (\<lambda>ordinary_records.
     bind_res (map_res (condition_record_at raw) (sorted_set polls)) (\<lambda>poll_records.
     let ordinary_registers = map co_address ordinary_records; poll_registers = map co_address poll_records;
         missing = sorted_set (filter (\<lambda>a. a \<notin> set PASTED_OFFSETS) ordinary_registers);
         capture = sorted_set (PASTED_OFFSETS @ ordinary_registers @ poll_registers) in
     bind_res (ensure (\<not> list_ex (\<lambda>address. address \<ge> 0x1000000 \<or> address mod 4 \<noteq> 0) capture) BadCapture) (\<lambda>_.
     Inr \<lparr>au_ordinary_occurrences = length ordinary, au_ordinary_unique_indices = card (set ordinary),
          au_ordinary_unique_registers = card (set ordinary_registers), au_poll_occurrences = length polls,
          au_poll_unique_indices = card (set polls), au_pasted_count = card (set PASTED_OFFSETS),
          au_missing = missing, au_capture = capture,
          au_ordinary_records = ordinary_records, au_poll_records = poll_records\<rparr>)))))))"

subsection \<open>The report\<close>

definition condition_json :: "condition_record \<Rightarrow> json" where
  "condition_json r = JObject [(''index'', JInt (co_index r)), (''address'', JInt (co_address r)), (''mask'', JInt (co_mask r)),
     (''value'', JInt (co_value r))]"

definition audit_json :: "audit \<Rightarrow> json" where
  "audit_json a = (let count = (\<lambda>n. JInt (int n)); offsets = (\<lambda>xs. JArray (map (\<lambda>x. JString (py_HEX 6 x)) xs)) in
     JObject [(''source_sha256'', JString SOURCE_SHA), (''table_base_physical'', JInt TABLE_BASE),
       (''ordinary_occurrences_in_ir'', count (au_ordinary_occurrences a)), (''ordinary_unique_indices'', count (au_ordinary_unique_indices a)),
       (''ordinary_unique_registers'', count (au_ordinary_unique_registers a)), (''poll_occurrences_in_ir'', count (au_poll_occurrences a)),
       (''poll_unique_indices'', count (au_poll_unique_indices a)), (''pasted_count'', count (au_pasted_count a)),
       (''missing_ordinary_registers_from_pasted'', offsets (au_missing a)), (''corrected_capture_count'', count (length (au_capture a))),
       (''corrected_capture_offsets'', offsets (au_capture a)), (''ordinary_records'', JArray (map condition_json (au_ordinary_records a))),
       (''poll_records'', JArray (map condition_json (au_poll_records a))),
       (''note'', JString ''Captured post-failure values cannot establish runtime execution order.'')])"

text \<open>
  The tool on the two files. \<open>out\<close> is \<^term>\<open>None\<close> without \<^verbatim>\<open>--out\<close>, and otherwise says
  whether the file is there; the result is the text that is printed or written.
\<close>

definition condition_main :: "(bytes \<Rightarrow> string) \<Rightarrow> bytes \<Rightarrow> string \<Rightarrow> bool option \<Rightarrow> audit_error + string" where
  "condition_main digest raw ir out =
     bind_res (ensure (length raw = 2 ^ 20 \<and> digest raw = SOURCE_SHA) NotPinned) (\<lambda>_.
     bind_res (of_option CsvError (dict_rows ir)) (\<lambda>rows.
     bind_res (condition_audit raw rows) (\<lambda>a.
     bind_res (ensure (out \<noteq> Some True) OutputExists) (\<lambda>_.
     Inr (dumps (Some 2) False (audit_json a) @ [CHR 0x0A])))))"

subsection \<open>The registers to capture\<close>

lemma sorted_set_props: "set (sorted_set xs) = set xs \<and> sorted (sorted_set xs) \<and> distinct (sorted_set xs)"
  by (simp add: sorted_set_def)

lemma condition_record_read:
  "condition_record_at raw index = Inr r \<longleftrightarrow>
   unpack_III raw (nat (TABLE_BASE + 12 * index)) = Inr (co_address r, co_mask r, co_value r) \<and> co_index r = index"
  by (cases r) (auto simp: condition_record_at_def split: sum.splits prod.splits)

text \<open>A row of the listing names a condition for an opcode.\<close>

definition references :: "dict_row \<Rightarrow> string \<Rightarrow> int \<Rightarrow> bool" where
  "references row opcode index \<longleftrightarrow> row ''rom'' = Some (Some ''CMP'') \<and> row ''opcode'' = Some (Some opcode) \<and>
     (\<exists>s. row ''first_operand'' = Some (Some s) \<and> Option.bind (cond_idx s) py_int10 = Some index)"

definition referenced :: "dict_row list \<Rightarrow> string \<Rightarrow> int \<Rightarrow> bool" where
  "referenced rows opcode index \<longleftrightarrow> (\<exists>row \<in> set rows. references row opcode index)"

lemma row_index_references: "row_index opcode row = Inr r \<Longrightarrow> r = Some index \<longleftrightarrow> references row opcode index"
  by (auto simp: row_index_def references_def column_def bind_res_Inr_conv split: if_splits option.splits)

lemma indices_referenced:
  assumes "indices rows opcode = Inr is"
  shows "set is = {index. referenced rows opcode index}"
proof -
  obtain found where found: "list_all2 (\<lambda>row r. row_index opcode row = Inr r) rows found" "is = List.map_filter id found"
    using assms by (auto simp: indices_def bind_res_Inr_conv map_res_Inr_conv)
  from found(1) have "Some i \<in> set found \<longleftrightarrow> referenced rows opcode i" for i
    by (induction rule: list_all2_induct) (auto simp: referenced_def dest: row_index_references)
  moreover have "set is = {i. Some i \<in> set found}" by (force simp: found(2) List.map_filter_def)
  ultimately show ?thesis by simp
qed

lemma records_addresses:
  assumes "map_res (condition_record_at raw) (sorted_set is) = Inr rs"
  shows "co_address ` set rs = {a. \<exists>i \<in> set is. \<exists>m v. unpack_III raw (nat (TABLE_BASE + 12 * i)) = Inr (a, m, v)}"
proof -
  have "list_all2 (\<lambda>i r. unpack_III raw (nat (TABLE_BASE + 12 * i)) = Inr (co_address r, co_mask r, co_value r)) (sorted_set is) rs"
    using assms by (auto simp: map_res_Inr_conv condition_record_read elim: list_all2_mono)
  then have "co_address ` set rs = {a. \<exists>i \<in> set (sorted_set is). \<exists>m v. unpack_III raw (nat (TABLE_BASE + 12 * i)) = Inr (a, m, v)}"
    by (induction rule: list_all2_induct) auto
  then show ?thesis by (simp add: sorted_set_props)
qed

definition condition_register :: "bytes \<Rightarrow> int \<Rightarrow> int \<Rightarrow> bool" where
  "condition_register raw index address \<longleftrightarrow> (\<exists>m v. unpack_III raw (nat (TABLE_BASE + 12 * index)) = Inr (address, m, v))"

subsection \<open>The report is a JSON document\<close>

lemma cond_idx_digits: "cond_idx s = Some ds \<Longrightarrow> ds \<noteq> [] \<and> list_all is_digit ds"
proof (induction s rule: cond_idx.induct)
  case (1 s)
  obtain rest where rest: "after_first ''cond_idx'' s = Some rest"
    using 1(2) by (subst (asm) cond_idx.simps) (auto split: option.splits)
  define found where "found = dropWhile (\<lambda>c. \<not> is_digit c) (takeWhile (\<lambda>c. c \<noteq> CHR 0x0A) rest)"
  show ?case
  proof (cases "found = []")
    case True
    have "cond_idx s = cond_idx rest"
      using True rest by (subst cond_idx.simps) (simp add: Let_def found_def)
    then show ?thesis using 1(1) [OF rest refl] 1(2) True by (simp add: found_def)
  next
    case False
    then have ds: "ds = takeWhile is_digit found"
      using 1(2) rest by (subst (asm) cond_idx.simps) (auto simp: Let_def found_def split: if_splits)
    have "is_digit (hd found)" using False hd_dropWhile [of "\<lambda>c. \<not> is_digit c"] by (auto simp: found_def)
    then have "ds \<noteq> []" using False ds by (cases found) simp_all
    then show ?thesis using ds by (auto simp: list_all_iff dest: set_takeWhileD)
  qed
qed

lemma py_int10_digits:
  assumes "ds \<noteq> []" and "list_all is_digit ds" and "py_int10 ds = Some n"
  shows "0 \<le> n"
proof -
  have plain: "\<not> int_space c \<and> c \<noteq> CHR ''-'' \<and> c \<noteq> CHR ''+''" if "c \<in> set ds" for c
    using assms(2) that digit_not_space by (simp add: list_all_iff)
  then have "int_strip ds = ds" using assms(1) by (intro int_strip_id) simp_all
  moreover have "split_sign ds = (1, ds)" using assms(1) plain by (cases ds) auto
  ultimately have "digits_body dec_digit 10 True 0 ds = Some n"
    using assms(3) by (auto simp: py_int10_def split: if_splits)
  then show ?thesis by (elim digits_body_nonneg [rotated 3]) (auto simp: dec_digit_def is_digit_def Let_def split: if_splits)
qed

lemma referenced_nonneg: "referenced rows opcode index \<Longrightarrow> 0 \<le> index"
  by (auto simp: referenced_def references_def bind_eq_Some_conv dest!: cond_idx_digits intro: py_int10_digits)

lemma record_ok:
  assumes "condition_record_at raw index = Inr r" and "0 \<le> index" and "index < 85"
  shows "json_ok (condition_json r)"
proof -
  have "unpack_III raw (nat (TABLE_BASE + 12 * index)) = Inr (co_address r, co_mask r, co_value r)" "co_index r = index"
    using assms(1) by (simp_all add: condition_record_read)
  then have "0 \<le> n \<and> n < 2 ^ 32" if "n \<in> {co_address r, co_mask r, co_value r}" for n
    using that get_field_bounds [of 4] by (fastforce simp: unpack_III_def unpack_def bind_res_Inr_conv)
  then show ?thesis
    using field_json_ok \<open>co_index r = index\<close> assms(2,3) small_json_ok [of index] by (auto simp: condition_json_def)
qed

lemma records_ok:
  assumes "map_res (condition_record_at raw) is = Inr rs" and "\<forall>i \<in> set is. 0 \<le> i \<and> i < 85"
  shows "\<forall>r \<in> set rs. json_ok (condition_json r)"
  using assms record_ok by (fastforce simp: map_res_Inr_conv list_all2_conv_all_nth in_set_conv_nth)

lemma sorted_set_length: "length (sorted_set xs) \<le> length xs"
  by (simp add: sorted_set_def length_remdups_leq)

lemma indices_length: "indices rows opcode = Inr is \<Longrightarrow> length is \<le> length rows"
proof -
  assume "indices rows opcode = Inr is"
  then obtain found where "map_res (row_index opcode) rows = Inr found" "is = List.map_filter id found"
    by (auto simp: indices_def bind_res_Inr_conv)
  then show ?thesis using map_res_length [of "row_index opcode" rows found] length_filter_le
    by (metis length_map List.map_filter_def)
qed

text \<open>What a successful audit has computed.\<close>

lemma condition_audit_parts:
  assumes "condition_audit raw rows = Inr a"
  obtains ord polls ords pls where "indices rows ''CONDITION'' = Inr ord" "indices rows ''POLL_NV_COND'' = Inr polls"
    "\<forall>i \<in> set (ord @ polls). 0 \<le> i \<and> i < 85"
    "map_res (condition_record_at raw) (sorted_set ord) = Inr ords" "map_res (condition_record_at raw) (sorted_set polls) = Inr pls"
    "\<not> list_ex (\<lambda>address. address \<ge> 0x1000000 \<or> address mod 4 \<noteq> 0) (au_capture a)"
    "a = \<lparr>au_ordinary_occurrences = length ord, au_ordinary_unique_indices = card (set ord),
       au_ordinary_unique_registers = card (set (map co_address ords)), au_poll_occurrences = length polls,
       au_poll_unique_indices = card (set polls), au_pasted_count = card (set PASTED_OFFSETS),
       au_missing = sorted_set (filter (\<lambda>a. a \<notin> set PASTED_OFFSETS) (map co_address ords)),
       au_capture = sorted_set (PASTED_OFFSETS @ map co_address ords @ map co_address pls),
       au_ordinary_records = ords, au_poll_records = pls\<rparr>"
proof -
  obtain ord polls ords pls where o: "indices rows ''CONDITION'' = Inr ord" "indices rows ''POLL_NV_COND'' = Inr polls"
    "ord @ polls \<noteq> []" "\<not> Max (set (ord @ polls)) \<ge> 85"
    "map_res (condition_record_at raw) (sorted_set ord) = Inr ords" "map_res (condition_record_at raw) (sorted_set polls) = Inr pls"
    "\<not> list_ex (\<lambda>address. address \<ge> 0x1000000 \<or> address mod 4 \<noteq> 0) (sorted_set (PASTED_OFFSETS @ map co_address ords @ map co_address pls))"
    "a = \<lparr>au_ordinary_occurrences = length ord, au_ordinary_unique_indices = card (set ord),
       au_ordinary_unique_registers = card (set (map co_address ords)), au_poll_occurrences = length polls,
       au_poll_unique_indices = card (set polls), au_pasted_count = card (set PASTED_OFFSETS),
       au_missing = sorted_set (filter (\<lambda>a. a \<notin> set PASTED_OFFSETS) (map co_address ords)),
       au_capture = sorted_set (PASTED_OFFSETS @ map co_address ords @ map co_address pls),
       au_ordinary_records = ords, au_poll_records = pls\<rparr>"
    using assms unfolding condition_audit_def Let_def by (elim bind_res_InrE) (simp only: ensure_Inr sum.inject, blast)
  have "0 \<le> i \<and> i < 85" if "i \<in> set (ord @ polls)" for i
  proof -
    have "i \<le> Max (set (ord @ polls))" using that by (intro Max_ge) simp_all
    moreover have "0 \<le> i"
      using that indices_referenced [OF o(1)] indices_referenced [OF o(2)] referenced_nonneg by auto
    ultimately show ?thesis using o(4) by linarith
  qed
  then show thesis using that [of ord polls ords pls] o by simp
qed

lemma audit_json_ok:
  assumes "condition_audit raw rows = Inr a" and "length rows \<le> 2 ^ 63"
  shows "json_ok (audit_json a)"
proof -
  from assms(1) obtain ord polls ords pls where o: "indices rows ''CONDITION'' = Inr ord" "indices rows ''POLL_NV_COND'' = Inr polls"
    "\<forall>i \<in> set (ord @ polls). 0 \<le> i \<and> i < 85"
    "map_res (condition_record_at raw) (sorted_set ord) = Inr ords" "map_res (condition_record_at raw) (sorted_set polls) = Inr pls"
    "a = \<lparr>au_ordinary_occurrences = length ord, au_ordinary_unique_indices = card (set ord),
       au_ordinary_unique_registers = card (set (map co_address ords)), au_poll_occurrences = length polls,
       au_poll_unique_indices = card (set polls), au_pasted_count = card (set PASTED_OFFSETS),
       au_missing = sorted_set (filter (\<lambda>a. a \<notin> set PASTED_OFFSETS) (map co_address ords)),
       au_capture = sorted_set (PASTED_OFFSETS @ map co_address ords @ map co_address pls),
       au_ordinary_records = ords, au_poll_records = pls\<rparr>"
    by (rule condition_audit_parts)
  have small: "json_ok (JInt (int n))" if "n \<le> 2 ^ 63 + 2 ^ 63 + 28" for n
    using that by (intro small_json_ok) simp_all
  have lens: "length ord \<le> 2 ^ 63" "length polls \<le> 2 ^ 63" "length ords \<le> length ord" "length pls \<le> length polls"
    using indices_length [OF o(1)] indices_length [OF o(2)] assms(2) map_res_length [OF o(4)] map_res_length [OF o(5)]
      sorted_set_length [of ord] sorted_set_length [of polls] by linarith+
  have pasted: "length PASTED_OFFSETS = 28" by (simp add: PASTED_OFFSETS_def)
  have counts: "json_ok (JInt (int n))" if "n \<in> {length ord, card (set ord), card (set (map co_address ords)), length polls,
      card (set polls), card (set PASTED_OFFSETS), length (sorted_set (PASTED_OFFSETS @ map co_address ords @ map co_address pls))}" for n
    using that lens pasted card_length [of ord] card_length [of polls] card_length [of "map co_address ords"] card_length [of PASTED_OFFSETS]
      sorted_set_length [of "PASTED_OFFSETS @ map co_address ords @ map co_address pls"]
    by (intro small) auto
  have recs: "\<forall>r \<in> set ords. json_ok (condition_json r)" "\<forall>r \<in> set pls. json_ok (condition_json r)"
    using records_ok [OF o(4)] records_ok [OF o(5)] o(3) by (simp_all add: sorted_set_props)
  have base: "json_ok (JInt TABLE_BASE)" by (rule small_json_ok) (simp_all add: TABLE_BASE_def)
  show ?thesis
    using counts recs base by (simp add: audit_json_def o(6) Let_def del: json_ok.simps(1))
qed

text \<open>
  C34: The report the tool prints or writes, read as JSON, proposes a capture and names what is missing. Its
  \<^verbatim>\<open>corrected_capture_offsets\<close> are in ascending order and once each, as six-digit hexadecimal
  texts, the pasted offsets and the registers of all conditions the script references by CONDITION
  or POLL_NV_COND, their number under \<^verbatim>\<open>corrected_capture_count\<close>; all are word-aligned offsets of
  BAR0. Its \<^verbatim>\<open>missing_ordinary_registers_from_pasted\<close> are, likewise, exactly the registers of
  CONDITION rows that are not among the pasted offsets. The text of the listing has fewer than \<open>2 ^ 63\<close>
  characters.
\<close>

theorem capture_offsets:
  assumes "condition_main digest raw ir out = Inr printed" and "length ir < 2 ^ 63"
  shows "\<exists>rows report capture missing. dict_rows ir = Some rows \<and> loads printed = Some (JObject report) \<and>
    map_of report ''corrected_capture_offsets'' = Some (JArray (map (\<lambda>a. JString (py_HEX 6 a)) capture)) \<and>
    map_of report ''corrected_capture_count'' = Some (JInt (int (length capture))) \<and>
    map_of report ''missing_ordinary_registers_from_pasted'' = Some (JArray (map (\<lambda>a. JString (py_HEX 6 a)) missing)) \<and>
    sorted capture \<and> distinct capture \<and> sorted missing \<and> distinct missing \<and>
    set capture = set PASTED_OFFSETS \<union> {address. \<exists>index opcode. opcode \<in> {''CONDITION'', ''POLL_NV_COND''} \<and>
      referenced rows opcode index \<and> condition_register raw index address} \<and>
    (\<forall>address \<in> set capture. address < 0x1000000 \<and> address mod 4 = 0) \<and>
    set missing = {address. \<exists>index. referenced rows ''CONDITION'' index \<and> condition_register raw index address} - set PASTED_OFFSETS"
proof -
  from assms(1) obtain rows a where main: "dict_rows ir = Some rows" "condition_audit raw rows = Inr a"
    "printed = dumps (Some 2) False (audit_json a) @ [CHR 0x0A]"
    unfolding condition_main_def by (auto simp: bind_res_Inr_conv)
  from main(2) obtain ord polls ords pls where o: "indices rows ''CONDITION'' = Inr ord" "indices rows ''POLL_NV_COND'' = Inr polls"
    "map_res (condition_record_at raw) (sorted_set ord) = Inr ords" "map_res (condition_record_at raw) (sorted_set polls) = Inr pls"
    "\<not> list_ex (\<lambda>address. address \<ge> 0x1000000 \<or> address mod 4 \<noteq> 0) (au_capture a)"
    "au_capture a = sorted_set (PASTED_OFFSETS @ map co_address ords @ map co_address pls)"
    "au_missing a = sorted_set (filter (\<lambda>a. a \<notin> set PASTED_OFFSETS) (map co_address ords))"
    by (rule condition_audit_parts) simp
  have "length rows \<le> 2 ^ 63" using dict_rows_length [OF main(1)] assms(2) by linarith
  from loads_dumps [OF audit_json_ok [OF main(2) this], of "[CHR 0x0A]" "Some 2" False]
  have "loads printed = Some (audit_json a)" by (simp add: main(3) is_ws_def)
  then obtain report where report: "loads printed = Some (JObject report)"
    "map_of report ''corrected_capture_offsets'' = Some (JArray (map (\<lambda>a. JString (py_HEX 6 a)) (au_capture a)))"
    "map_of report ''corrected_capture_count'' = Some (JInt (int (length (au_capture a))))"
    "map_of report ''missing_ordinary_registers_from_pasted'' = Some (JArray (map (\<lambda>a. JString (py_HEX 6 a)) (au_missing a)))"
    by (simp add: audit_json_def Let_def)
  have regs: "co_address ` set ords = {a. \<exists>i. referenced rows ''CONDITION'' i \<and> condition_register raw i a}"
    "co_address ` set pls = {a. \<exists>i. referenced rows ''POLL_NV_COND'' i \<and> condition_register raw i a}"
    using records_addresses [OF o(3)] records_addresses [OF o(4)] indices_referenced [OF o(1)] indices_referenced [OF o(2)]
    by (auto simp: condition_register_def)
  have "set (au_capture a) = set PASTED_OFFSETS \<union> co_address ` set ords \<union> co_address ` set pls"
    by (simp add: o(6) sorted_set_props Un_assoc)
  then have capture: "set (au_capture a) = set PASTED_OFFSETS \<union> {address. \<exists>index opcode. opcode \<in> {''CONDITION'', ''POLL_NV_COND''} \<and>
      referenced rows opcode index \<and> condition_register raw index address}"
    unfolding regs by auto
  have missing: "set (au_missing a) = {address. \<exists>index. referenced rows ''CONDITION'' index \<and> condition_register raw index address} - set PASTED_OFFSETS"
    unfolding regs(1) [symmetric] by (auto simp: o(7) sorted_set_props)
  have "\<forall>address \<in> set (au_capture a). address < 0x1000000 \<and> address mod 4 = 0"
    using o(5) by (auto simp: list_ex_iff)
  moreover have "sorted (au_capture a) \<and> distinct (au_capture a) \<and> sorted (au_missing a) \<and> distinct (au_missing a)"
    by (simp add: o(6,7) sorted_set_props)
  ultimately show ?thesis
    using main(1) report capture missing
    by (intro exI [of _ rows] exI [of _ report] exI [of _ "au_capture a"] exI [of _ "au_missing a"] conjI) simp_all
qed

text \<open>An image whose only condition row names a register that was not pasted.\<close>

definition demo_row :: bytes where
  "demo_row = le_bytes 4 0x21C0C @ le_bytes 4 1 @ le_bytes 4 0"

definition demo_image :: bytes where
  "demo_image = replicate 21243 0 @ demo_row @ replicate 1027321 0"

definition demo_ir :: string where
  "demo_ir = concat (map csv_row [[''rom'', ''file_offset'', ''opcode'', ''first_operand''],
     [''CMP'', ''0x80d2'', ''CONDITION'', ''cond_idx=0, retries \"none\"''], [''V100'', ''0x80d2'', ''CONDITION'', ''cond_idx=3'']])"

definition demo_rows :: "dict_row list" where
  "demo_rows = map (dict_row [''rom'', ''file_offset'', ''opcode'', ''first_operand''])
     [[''CMP'', ''0x80d2'', ''CONDITION'', ''cond_idx=0, retries \"none\"''], [''V100'', ''0x80d2'', ''CONDITION'', ''cond_idx=3'']]"

lemma demo_dict_rows: "dict_rows demo_ir = Some demo_rows"
  unfolding dict_rows_def demo_ir_def by (subst csv_rows_written) (simp_all add: field_size_limit_def demo_rows_def)

lemma demo_indices: "indices demo_rows ''CONDITION'' = Inr [0]" "indices demo_rows ''POLL_NV_COND'' = Inr []"
  by code_simp+

lemma demo_record_read: "unpack_III demo_image 21243 = Inr (0x21C0C, 1, 0)" "length demo_image = 2 ^ 20"
proof -
  have "u32 demo_row 0 = Inr 0x21C0C" "u32 demo_row 4 = Inr 1" "u32 demo_row 8 = Inr 0" "length demo_row = 12"
    by code_simp+
  then show "unpack_III demo_image 21243 = Inr (0x21C0C, 1, 0)" "length demo_image = 2 ^ 20"
    by (simp_all add: demo_image_def unpack_III_def unpack_append)
qed

lemma demo_capture:
  "sorted_set [0] = [0]" "sorted_set [] = []"
  "\<not> list_ex (\<lambda>address. address \<ge> 0x1000000 \<or> address mod 4 \<noteq> 0) (sorted_set (PASTED_OFFSETS @ [0x21C0C] @ []))"
  by code_simp+

lemma demo_audit: "\<exists>a. condition_audit demo_image demo_rows = Inr a"
  using demo_record_read demo_indices demo_capture
  by (simp add: condition_audit_def condition_record_at_def TABLE_BASE_def Let_def)

theorem capture_offsets_witness:
  "\<exists>rows report printed. dict_rows demo_ir = Some rows \<and> condition_main (\<lambda>_. SOURCE_SHA) demo_image demo_ir None = Inr printed \<and>
     loads printed = Some (JObject report) \<and> map_of report ''missing_ordinary_registers_from_pasted'' = Some (JArray [JString ''0x021C0C''])"
proof -
  obtain a where "condition_audit demo_image demo_rows = Inr a" using demo_audit by blast
  then obtain printed where main: "condition_main (\<lambda>_. SOURCE_SHA) demo_image demo_ir None = Inr printed"
    using demo_record_read(2) by (simp add: condition_main_def demo_dict_rows)
  have "length demo_ir < 2 ^ 63" by (rule less_trans [of _ "1000"]) (code_simp, simp)
  from capture_offsets [OF main this]
  obtain report missing where report: "loads printed = Some (JObject report)"
    "map_of report ''missing_ordinary_registers_from_pasted'' = Some (JArray (map (\<lambda>a. JString (py_HEX 6 a)) missing))"
    "sorted missing" "distinct missing"
    "set missing = {address. \<exists>index. referenced demo_rows ''CONDITION'' index \<and> condition_register demo_image index address} - set PASTED_OFFSETS"
    unfolding demo_dict_rows by (elim exE conjE) (simp only: option.inject)
  have "{index. referenced demo_rows ''CONDITION'' index} = {0}" using indices_referenced [OF demo_indices(1)] by simp
  then have "referenced demo_rows ''CONDITION'' index \<longleftrightarrow> index = 0" for index by blast
  then have "set missing = {0x21C0C} - set PASTED_OFFSETS"
    using demo_record_read(1) report(5) by (auto simp: condition_register_def TABLE_BASE_def)
  then have "set missing = {0x21C0C}" by (simp add: PASTED_OFFSETS_def)
  then have "missing = [0x21C0C]" using report(4) by (simp add: sorted_distinct_set_unique report(3))
  moreover have "py_HEX 6 0x21C0C = ''0x021C0C''" by code_simp
  ultimately show ?thesis using main report(1,2) demo_dict_rows by auto
qed

end
