(* ===== verification/GemmStress.thy ===== *)
theory GemmStress
  imports PyText Complex_Main "HOL-Library.AList"
begin

text \<open>
  \<^verbatim>\<open>tools/gemm_stress.py\<close>: the choice of devices and shapes, the timed loop of one
  configuration and its verdict. PyTorch, the clock and the interrupts are the environment: a value
  of \<open>backend\<close> lists what they did. Measured floats are reals (rounding is not modelled), except
  the relative error, where not-a-number and infinity are values of their own since the comparisons
  of the code treat them differently. Messages are values of a datatype; GemmReport gives their texts, and
  adds telemetry and elapsed times.
\<close>

subsection \<open>Devices and shapes\<close>

definition AMD_NAME_HINTS :: "string list" where
  "AMD_NAME_HINTS = [''amd'', ''radeon'', ''instinct'', ''firepro'', ''gfx'', ''vega'', ''navi'',
     ''polaris'', ''fiji'', ''hawaii'']"

text \<open>\<^verbatim>\<open>hint in lowered\<close>\<close>

fun contains :: "string \<Rightarrow> string \<Rightarrow> bool" where
  "contains pat [] = (pat = [])"
| "contains pat (c # cs) = (starts_with pat (c # cs) \<or> contains pat cs)"

definition is_amd_device :: "string \<Rightarrow> bool" where
  "is_amd_device name \<longleftrightarrow> list_ex (\<lambda>hint. contains hint (lower name)) AMD_NAME_HINTS"

text \<open>The names are a dictionary with distinct indices.\<close>

definition amd_index :: "(int \<times> string) list \<Rightarrow> int \<Rightarrow> bool" where
  "amd_index names idx \<longleftrightarrow> (case map_of names idx of None \<Rightarrow> False | Some name \<Rightarrow> is_amd_device name)"

definition select_devices :: "int list option \<Rightarrow> (int \<times> string) list \<Rightarrow> int list \<times> int list" where
  "select_devices requested names =
     (let candidates = (case requested of Some r \<Rightarrow> r | None \<Rightarrow> sort (map fst names)) in
      foldl (\<lambda>(keep, skipped) idx. if amd_index names idx then (keep, skipped @ [idx]) else (keep @ [idx], skipped))
        ([], []) candidates)"

definition TENSOR_CORES_PER_SM :: "((int \<times> int) \<times> int) list" where
  "TENSOR_CORES_PER_SM = [((7, 0), 8), ((7, 5), 8), ((8, 0), 4), ((8, 6), 4), ((8, 9), 4), ((9, 0), 4)]"

definition tensor_core_count :: "int \<Rightarrow> int \<Rightarrow> int \<Rightarrow> int option" where
  "tensor_core_count major minor sms = (case map_of TENSOR_CORES_PER_SM (major, minor) of
     None \<Rightarrow> None
   | Some per_sm \<Rightarrow> if sms \<le> 0 then None else Some (per_sm * sms))"

datatype gemm_error = MaxParallel | BadShape string | NonPositiveShape string

function chunks :: "nat \<Rightarrow> 'a list \<Rightarrow> 'a list list" where
  "chunks n xs = (if n = 0 \<or> xs = [] then [] else take n xs # chunks n (drop n xs))"
  by pat_completeness auto
termination by (relation "measure (\<lambda>(n, xs). length xs)") auto

declare chunks.simps [simp del]

definition batch_devices :: "int list \<Rightarrow> int \<Rightarrow> gemm_error + int list list" where
  "batch_devices devices n = (if n < 1 then Inl MaxParallel else Inr (chunks (nat n) devices))"

text \<open>\<^verbatim>\<open>s.split(",")\<close>\<close>

fun split_on :: "char \<Rightarrow> string \<Rightarrow> string list" where
  "split_on sep [] = [[]]"
| "split_on sep (c # cs) = (if c = sep then [] # split_on sep cs
     else (case split_on sep cs of [] \<Rightarrow> [[c]] | w # ws \<Rightarrow> (c # w) # ws))"

type_synonym shape = "int \<times> int \<times> int"

definition parse_shape :: "string \<Rightarrow> gemm_error + shape" where
  "parse_shape spec = (case map py_int10 (split_on CHR '','' (map (\<lambda>c. if c = CHR ''x'' then CHR '','' else c) (lower spec))) of
     [Some m, Some n, Some k] \<Rightarrow> if min m (min n k) \<le> 0 then Inl (NonPositiveShape spec) else Inr (m, n, k)
   | _ \<Rightarrow> Inl (BadShape spec))"

definition parse_shapes :: "int list \<Rightarrow> string list \<Rightarrow> gemm_error + shape list" where
  "parse_shapes sizes shapes =
     bind_res (map_res parse_shape shapes) (\<lambda>dims. Inr (map (\<lambda>s. (s, s, s)) sizes @ dims))"

subsection \<open>One configuration\<close>

record config =
  cf_m :: int
  cf_n :: int
  cf_k :: int
  cf_dtype :: string
  cf_layout :: string

datatype status = PASS | FAIL | ERROR | SKIP

datatype rel_err = Finite real | Infinite | NotANumber

datatype reason =
    OverBudget int int
  | AllocFailed string
  | WarmupFailed string
  | InterruptedPartial
  | TimedFailed string
  | NoIterations
  | NonFinite
  | RelErrAbove rel_err real
  | MedianBelow real real
  | NoBaseline
  | RatioBelow real real real real

record config_result =
  re_config :: config
  re_status :: status
  re_reason :: "reason list"
  re_iters :: nat
  re_median :: real
  re_min :: real
  re_max :: real
  re_drift :: "real option"
  re_max_rel_err :: "rel_err option"
  re_mode :: string

record gemm_args =
  ga_devices :: "int list option"
  ga_sizes :: "int list"
  ga_shapes :: "string list"
  ga_dtypes :: "string list"
  ga_layout :: string
  ga_warmup :: int
  ga_repeats :: int
  ga_seconds :: real
  ga_validate :: string
  ga_validate_block :: int
  ga_validate_every :: int
  ga_tol :: real
  ga_min_tflops :: real
  ga_tensor_ratio :: real
  ga_parallel :: bool
  ga_max_parallel :: int
  ga_fail_fast :: bool
  ga_telemetry :: bool
  ga_log_interval :: real
  ga_init :: string
  ga_seed :: int
  ga_max_mem_gb :: real
  ga_json :: "string option"
  ga_csv :: "string option"

text \<open>An option of a file name counts when it is there and not empty.\<close>

definition path_given :: "string option \<Rightarrow> bool" where
  "path_given p \<longleftrightarrow> p \<noteq> None \<and> p \<noteq> Some []"

text \<open>Python's \<^verbatim>\<open>x > y\<close> and \<^verbatim>\<open>max(x, y)\<close>, which keeps \<open>x\<close> unless \<open>y > x\<close>.\<close>

definition greater :: "rel_err \<Rightarrow> rel_err \<Rightarrow> bool" where
  "greater x y = (case (x, y) of
     (Finite a, Finite b) \<Rightarrow> a > b | (Infinite, Finite b) \<Rightarrow> True | _ \<Rightarrow> False)"

definition max_err :: "rel_err \<Rightarrow> rel_err \<Rightarrow> rel_err" where
  "max_err x y = (if greater y x then y else x)"

definition itemsize :: "string \<Rightarrow> int" where
  "itemsize dtype = (if dtype = ''fp32'' then 4 else 2)"

text \<open>The headroom \<^verbatim>\<open>int(total * 1.1)\<close> is a float product; it is a parameter.\<close>

definition estimate_bytes :: "(int \<Rightarrow> int) \<Rightarrow> int \<Rightarrow> int \<Rightarrow> int \<Rightarrow> string \<Rightarrow> bool \<Rightarrow> int \<Rightarrow> int" where
  "estimate_bytes headroom m n k dtype full_validate block =
     (let elems = m * k + k * n + m * n; total = elems * itemsize dtype; bb = min block (min m n) in
      headroom (if full_validate then total + elems * 4 else total + (2 * bb * k + bb * bb) * 4))"

text \<open>\<^verbatim>\<open>statistics.median\<close> of a nonempty list.\<close>

definition median :: "real list \<Rightarrow> real" where
  "median xs = (let ys = sort xs; n = length xs in
     if odd n then ys ! (n div 2) else (ys ! (n div 2 - 1) + ys ! (n div 2)) / 2)"

text \<open>
  What the environment did: each turn of the loop took some seconds (and, where the code checks, saw
  an error, at a time \<open>now\<close>, after which the stop flag was read), or raised. An interrupt may also come
  after the sample was appended.
\<close>

datatype gemm_step =
    Timed real rel_err real bool
  | TimedInterrupt real
  | StepError string
  | StepInterrupt

datatype last_check = Checked rel_err | CheckError string | CheckInterrupt

record backend =
  be_operands :: "string option"
  be_warmup :: "string option"
  be_stop_first :: bool
  be_start :: real
  be_steps :: "gemm_step list"
  be_last :: last_check
  be_finite :: bool
  be_stop_last :: bool

record loop_state =
  ls_samples :: "real list"
  ls_worst :: rel_err

datatype loop_end = Finished loop_state bool | LoopInterrupted loop_state | Crashed string

definition tflops :: "config \<Rightarrow> real \<Rightarrow> real" where
  "tflops cfg secs = 2 * real_of_int (cf_m cfg * cf_n cfg * cf_k cfg) / secs / 10 ^ 12"

definition sustained :: "gemm_args \<Rightarrow> bool" where
  "sustained args \<longleftrightarrow> ga_seconds args > 0"

text \<open>The target is infinite in sustained mode.\<close>

definition below_target :: "gemm_args \<Rightarrow> nat \<Rightarrow> bool" where
  "below_target args iters \<longleftrightarrow> sustained args \<or> int iters < ga_repeats args"

definition check_due :: "gemm_args \<Rightarrow> string \<Rightarrow> nat \<Rightarrow> bool" where
  "check_due args mode iters \<longleftrightarrow> mode \<noteq> ''off'' \<and>
     (iters = 1 \<or> (\<not> sustained args \<and> int iters = ga_repeats args) \<or>
      (ga_validate_every args > 0 \<and> int iters mod ga_validate_every args = 0))"

definition add_sample :: "config \<Rightarrow> real \<Rightarrow> loop_state \<Rightarrow> loop_state" where
  "add_sample cfg secs st = st\<lparr>ls_samples := ls_samples st @ [tflops cfg secs]\<rparr>"

definition validate_step :: "gemm_args \<Rightarrow> string \<Rightarrow> rel_err \<Rightarrow> loop_state \<Rightarrow> loop_state" where
  "validate_step args mode err st =
     (if check_due args mode (length (ls_samples st)) then st\<lparr>ls_worst := max_err (ls_worst st) err\<rparr> else st)"

text \<open>The loop; \<^term>\<open>None\<close> says that it has not returned when the listed turns are over.\<close>

fun gemm_loop :: "gemm_args \<Rightarrow> config \<Rightarrow> string \<Rightarrow> real \<Rightarrow> loop_state \<Rightarrow> bool \<Rightarrow> gemm_step list \<Rightarrow> loop_end option" where
  "gemm_loop args cfg mode start st stop [] =
     (if \<not> below_target args (length (ls_samples st)) \<or> stop then Some (Finished st stop) else None)"
| "gemm_loop args cfg mode start st stop (step # steps) =
     (if \<not> below_target args (length (ls_samples st)) \<or> stop then Some (Finished st stop)
      else case step of
        StepError msg \<Rightarrow> Some (Crashed msg)
      | StepInterrupt \<Rightarrow> Some (LoopInterrupted st)
      | TimedInterrupt secs \<Rightarrow> Some (LoopInterrupted (if secs \<le> 0 then st else add_sample cfg secs st))
      | Timed secs err now stop' \<Rightarrow>
          if secs \<le> 0 then gemm_loop args cfg mode start st stop' steps
          else let st' = validate_step args mode err (add_sample cfg secs st) in
            if sustained args \<and> now - start \<ge> ga_seconds args then Some (Finished st' stop')
            else gemm_loop args cfg mode start st' stop' steps)"

text \<open>The check of the last iteration in sustained mode, still inside the \<^verbatim>\<open>try\<close>.\<close>

definition last_iteration :: "gemm_args \<Rightarrow> string \<Rightarrow> last_check \<Rightarrow> loop_end \<Rightarrow> loop_end" where
  "last_iteration args mode chk e = (case e of
     Finished st stop \<Rightarrow>
       if sustained args \<and> mode \<noteq> ''off'' \<and> ls_samples st \<noteq> [] then
         (case chk of
            Checked err \<Rightarrow> Finished (st\<lparr>ls_worst := max_err (ls_worst st) err\<rparr>) stop
          | CheckError msg \<Rightarrow> Crashed msg
          | CheckInterrupt \<Rightarrow> LoopInterrupted st)
       else e
   | _ \<Rightarrow> e)"

definition drift_of :: "real list \<Rightarrow> real option" where
  "drift_of samples = (if length samples \<ge> 4 then
     (let half = length samples div 2; first = median (take half samples); second = median (drop half samples) in
      Some (if first \<noteq> 0 then 100 * (second - first) / first else 0)) else None)"

definition validate_mode :: "(int \<Rightarrow> int) \<Rightarrow> gemm_args \<Rightarrow> config \<Rightarrow> int \<Rightarrow> string" where
  "validate_mode headroom args cfg budget =
     (if ga_validate args \<in> {''off'', ''full'', ''block''} then ga_validate args
      else if estimate_bytes headroom (cf_m cfg) (cf_n cfg) (cf_k cfg) (cf_dtype cfg) True 2048 \<le> budget
      then ''full'' else ''block'')"

definition fresh_result :: "config \<Rightarrow> string \<Rightarrow> config_result" where
  "fresh_result cfg mode = \<lparr>re_config = cfg, re_status = SKIP, re_reason = [], re_iters = 0, re_median = 0,
     re_min = 0, re_max = 0, re_drift = None, re_max_rel_err = None, re_mode = mode\<rparr>"

text \<open>The statistics and the gates, after the timed part.\<close>

definition gate_failures :: "gemm_args \<Rightarrow> rel_err option \<Rightarrow> real \<Rightarrow> reason list" where
  "gate_failures args err med =
     (case err of None \<Rightarrow> [] | Some e \<Rightarrow> if greater e (Finite (ga_tol args)) then [RelErrAbove e (ga_tol args)] else []) @
     (if ga_min_tflops args > 0 \<and> med < ga_min_tflops args then [MedianBelow med (ga_min_tflops args)] else [])"

definition verdict :: "gemm_args \<Rightarrow> string \<Rightarrow> bool \<Rightarrow> bool \<Rightarrow> reason list \<Rightarrow> loop_state \<Rightarrow> config_result \<Rightarrow> config_result" where
  "verdict args mode all_finite stop why st res =
     (let samples = ls_samples st in
      if samples = [] then res\<lparr>re_status := ERROR, re_reason := [NoIterations]\<rparr>
      else if \<not> all_finite then res\<lparr>re_status := FAIL, re_reason := [NonFinite]\<rparr>
      else let med = median samples; err = (if mode \<noteq> ''off'' then Some (ls_worst st) else None);
          failures = gate_failures args err med;
          res' = res\<lparr>re_iters := length samples, re_median := med, re_min := Min (set samples),
            re_max := Max (set samples), re_drift := drift_of samples, re_max_rel_err := err\<rparr> in
        if failures \<noteq> [] then res'\<lparr>re_status := FAIL, re_reason := failures\<rparr>
        else if why \<noteq> [] \<or> stop then res'\<lparr>re_status := FAIL,
          re_reason := (if stop \<and> InterruptedPartial \<notin> set why then why @ [InterruptedPartial] else why)\<rparr>
        else res'\<lparr>re_status := PASS, re_reason := why\<rparr>)"

definition run_config :: "(int \<Rightarrow> int) \<Rightarrow> gemm_args \<Rightarrow> int \<Rightarrow> config \<Rightarrow> backend \<Rightarrow> config_result option" where
  "run_config headroom args budget cfg be =
     (let mode = validate_mode headroom args cfg budget; res = fresh_result cfg mode;
          need = estimate_bytes headroom (cf_m cfg) (cf_n cfg) (cf_k cfg) (cf_dtype cfg) (mode = ''full'') (ga_validate_block args) in
      if need > budget then Some (res\<lparr>re_reason := [OverBudget need budget]\<rparr>)
      else case be_operands be of Some msg \<Rightarrow> Some (res\<lparr>re_status := ERROR, re_reason := [AllocFailed msg]\<rparr>)
      | None \<Rightarrow>
      (case be_warmup be of Some msg \<Rightarrow> Some (res\<lparr>re_status := ERROR, re_reason := [WarmupFailed msg]\<rparr>)
      | None \<Rightarrow>
        map_option (\<lambda>e. case last_iteration args mode (be_last be) e of
            Crashed msg \<Rightarrow> res\<lparr>re_status := ERROR, re_reason := [TimedFailed msg]\<rparr>
          | LoopInterrupted st \<Rightarrow> verdict args mode (be_finite be) True [InterruptedPartial] st res
          | Finished st stop \<Rightarrow> verdict args mode (be_finite be) (stop \<or> be_stop_last be) [] st res)
        (gemm_loop args cfg mode (be_start be) \<lparr>ls_samples = [], ls_worst = Finite 0\<rparr> (be_stop_first be) (be_steps be))))"

subsection \<open>What a passing configuration ran\<close>

text \<open>The turns of the loop that gave a sample.\<close>

definition timed_secs :: "gemm_step list \<Rightarrow> real list" where
  "timed_secs steps = concat (map (\<lambda>s. case s of Timed secs _ _ _ \<Rightarrow> if secs > 0 then [secs] else [] | _ \<Rightarrow> []) steps)"

text \<open>In fixed mode a loop that ends by itself has taken exactly the requested number of samples;
  in sustained mode it has seen the time pass.\<close>

lemma gemm_loop_finished:
  assumes "gemm_loop args cfg mode start st stop steps = Some (Finished st' stop')"
    and "\<not> sustained args \<Longrightarrow> int (length (ls_samples st)) \<le> ga_repeats args"
  shows "stop' \<or> (if sustained args then \<exists>secs err now. Timed secs err now stop' \<in> set steps \<and> now - start \<ge> ga_seconds args
      else int (length (ls_samples st')) = ga_repeats args)"
  using assms
proof (induction args cfg mode start st stop steps rule: gemm_loop.induct)
  case (1 args cfg mode start st stop)
  then show ?case by (auto simp: below_target_def split: if_splits)
next
  case (2 args cfg mode start st stop step steps)
  show ?case
  proof (cases "\<not> below_target args (length (ls_samples st)) \<or> stop")
    case True
    then show ?thesis using 2(3,4) by (auto simp: below_target_def)
  next
    case False
    with 2(3) obtain secs err now stop2 where step: "step = Timed secs err now stop2"
      by (auto split: gemm_step.splits)
    let ?st = "validate_step args mode err (add_sample cfg secs st)"
    show ?thesis
    proof (cases "secs \<le> 0")
      case True
      have "stop' \<or> (if sustained args then \<exists>secs err now. Timed secs err now stop' \<in> set steps \<and> now - start \<ge> ga_seconds args
          else int (length (ls_samples st')) = ga_repeats args)"
        using 2(1) [OF False step True] 2(3,4) False step True by simp
      then show ?thesis by (auto split: if_splits)
    next
      case pos: False
      show ?thesis
      proof (cases "sustained args \<and> now - start \<ge> ga_seconds args")
        case True
        then show ?thesis using 2(3) False step pos by (auto simp: Let_def)
      next
        case go: False
        have "\<not> sustained args \<Longrightarrow> int (length (ls_samples ?st)) \<le> ga_repeats args"
          using False by (simp add: below_target_def validate_step_def add_sample_def)
        then have "stop' \<or> (if sustained args then \<exists>secs err now. Timed secs err now stop' \<in> set steps \<and> now - start \<ge> ga_seconds args
            else int (length (ls_samples st')) = ga_repeats args)"
          using 2(2) [OF False step pos refl] go 2(3) False step pos by (auto simp: Let_def)
        then show ?thesis by (auto split: if_splits)
      qed
    qed
  qed
qed

lemma last_iteration_finished:
  "last_iteration args mode chk e = Finished st stop \<Longrightarrow>
   \<exists>st0. e = Finished st0 stop \<and> ls_samples st = ls_samples st0 \<and>
     (if sustained args \<and> mode \<noteq> ''off'' \<and> ls_samples st \<noteq> []
      then \<exists>err. chk = Checked err \<and> ls_worst st = max_err (ls_worst st0) err
      else ls_worst st = ls_worst st0)"
  by (auto simp: last_iteration_def split: loop_end.splits last_check.splits if_splits)

lemma verdict_pass:
  assumes "re_status (verdict args mode ok stop why st res) = PASS"
  defines "r \<equiv> verdict args mode ok stop why st res"
  shows "ls_samples st \<noteq> [] \<and> ok \<and> \<not> stop \<and> re_iters r = length (ls_samples st) \<and>
    re_median r = median (ls_samples st) \<and> re_min r = Min (set (ls_samples st)) \<and> re_max r = Max (set (ls_samples st)) \<and>
    re_max_rel_err r = (if mode \<noteq> ''off'' then Some (ls_worst st) else None) \<and>
    gate_failures args (if mode \<noteq> ''off'' then Some (ls_worst st) else None) (median (ls_samples st)) = []"
  using assms(1) by (auto simp: r_def verdict_def Let_def split: if_splits)

text \<open>The same turns with the errors seen there.\<close>

definition timed_turns :: "gemm_step list \<Rightarrow> (real \<times> rel_err) list" where
  "timed_turns steps =
     concat (map (\<lambda>s. case s of Timed secs err _ _ \<Rightarrow> if secs > 0 then [(secs, err)] else [] | _ \<Rightarrow> []) steps)"

lemma timed_turns_simps [simp]:
  "timed_turns [] = []"
  "timed_turns (Timed secs err now stop # steps) = (if secs > 0 then (secs, err) # timed_turns steps else timed_turns steps)"
  by (simp_all add: timed_turns_def)

text \<open>The errors at which the loop checks, the first turn being iteration \<open>k + 1\<close>.\<close>

fun due_errors :: "gemm_args \<Rightarrow> string \<Rightarrow> nat \<Rightarrow> (real \<times> rel_err) list \<Rightarrow> rel_err list" where
  "due_errors args mode k [] = []"
| "due_errors args mode k (t # ts) =
     (if check_due args mode (Suc k) then snd t # due_errors args mode (Suc k) ts else due_errors args mode (Suc k) ts)"

lemma due_errors_member:
  "e \<in> set (due_errors args mode k ts) \<longleftrightarrow> (\<exists>i < length ts. snd (ts ! i) = e \<and> check_due args mode (Suc (k + i)))"
proof (induction ts arbitrary: k)
  case (Cons t ts)
  show ?case by (simp add: Cons.IH Ex_less_Suc2) auto
qed simp

text \<open>What the timed loop has accumulated when it ends by itself.\<close>

lemma gemm_loop_accumulates:
  assumes "gemm_loop args cfg mode start st stop steps = Some (Finished st' stop')"
  shows "\<exists>n \<le> length (timed_turns steps).
    ls_samples st' = ls_samples st @ map (\<lambda>t. tflops cfg (fst t)) (take n (timed_turns steps)) \<and>
    ls_worst st' = foldl max_err (ls_worst st) (due_errors args mode (length (ls_samples st)) (take n (timed_turns steps)))"
  using assms
proof (induction args cfg mode start st stop steps rule: gemm_loop.induct)
  case (1 args cfg mode start st stop)
  then show ?case by (auto split: if_splits)
next
  case (2 args cfg mode start st stop step steps)
  show ?case
  proof (cases "\<not> below_target args (length (ls_samples st)) \<or> stop")
    case True
    then show ?thesis using 2(3) by auto
  next
    case False
    with 2(3) obtain secs err now stop2 where step: "step = Timed secs err now stop2"
      by (auto split: gemm_step.splits)
    let ?st = "validate_step args mode err (add_sample cfg secs st)"
    have st: "ls_samples ?st = ls_samples st @ [tflops cfg secs]"
      "ls_worst ?st = foldl max_err (ls_worst st) (due_errors args mode (length (ls_samples st)) [(secs, err)])"
      by (simp_all add: validate_step_def add_sample_def)
    show ?thesis
    proof (cases "secs \<le> 0")
      case True
      with 2(1) [OF False step True] 2(3) False step show ?thesis by simp
    next
      case pos: False
      show ?thesis
      proof (cases "sustained args \<and> now - start \<ge> ga_seconds args")
        case True
        then have "st' = ?st" using 2(3) False step pos by (auto simp: Let_def)
        then show ?thesis using st step pos by (intro exI [of _ "Suc 0"]) simp
      next
        case go: False
        then obtain n where "n \<le> length (timed_turns steps)"
          "ls_samples st' = ls_samples ?st @ map (\<lambda>t. tflops cfg (fst t)) (take n (timed_turns steps))"
          "ls_worst st' = foldl max_err (ls_worst ?st) (due_errors args mode (length (ls_samples ?st)) (take n (timed_turns steps)))"
          using 2(2) [OF False step pos refl] 2(3) False step pos by (auto simp: Let_def)
        then show ?thesis using st step pos by (intro exI [of _ "Suc n"]) simp
      qed
    qed
  qed
qed

text \<open>The maximum the loop keeps is never not-a-number, and no checked error exceeds it.\<close>

lemma foldl_max_err:
  assumes "w \<noteq> NotANumber"
  shows "foldl max_err w es \<noteq> NotANumber \<and> (foldl max_err w es = w \<or> foldl max_err w es \<in> set es) \<and>
    (\<forall>e \<in> insert w (set es). \<not> greater e (foldl max_err w es))"
  using assms
proof (induction es arbitrary: w)
  case Nil
  then show ?case by (cases w) (auto simp: greater_def)
next
  case (Cons e es)
  have step: "max_err w e \<noteq> NotANumber" "max_err w e = w \<or> max_err w e = e"
    using Cons.prems by (cases w; cases e; auto simp: max_err_def greater_def)+
  have trans: "\<not> greater w x \<and> \<not> greater e x" if "\<not> greater (max_err w e) x" "x \<noteq> NotANumber" for x
    using that Cons.prems by (cases w; cases e; cases x) (auto simp: max_err_def greater_def split: if_splits)
  show ?case using Cons.IH [OF step(1)] step(2) trans by auto
qed

subsection \<open>The specification of a pass\<close>

text \<open>
  The errors a run of \<open>n\<close> iterations is to check: those of the first iteration, of the last requested
  one, of every iteration divisible by a positive \<^verbatim>\<open>--validate-every\<close>, and, when the run is
  timed by the clock, the one seen after the loop.
\<close>

definition checked_errors :: "gemm_args \<Rightarrow> nat \<Rightarrow> backend \<Rightarrow> rel_err set" where
  "checked_errors args n be =
     {err. \<exists>i < n. snd (timed_turns (be_steps be) ! i) = err \<and>
        (i = 0 \<or> ga_seconds args \<le> 0 \<and> int i + 1 = ga_repeats args \<or>
         ga_validate_every args > 0 \<and> ga_validate_every args dvd int i + 1)} \<union>
     {err. ga_seconds args > 0 \<and> be_last be = Checked err}"

text \<open>
  What PASS promises of a run: nothing raised, the output finite and no stop, all the requested
  iterations or the requested time, the statistics those of the products measured, the median not
  below the required throughput; and unless validation is off, the recorded error within the
  tolerance and no checked error that is a number above it.
\<close>

definition passed_run :: "gemm_args \<Rightarrow> config \<Rightarrow> backend \<Rightarrow> config_result \<Rightarrow> bool" where
  "passed_run args cfg be r \<longleftrightarrow>
     (let turns = take (re_iters r) (timed_turns (be_steps be));
          rates = map (\<lambda>(secs, _). 2 * real_of_int (cf_m cfg * cf_n cfg * cf_k cfg) / secs / 10 ^ 12) turns;
          checked = checked_errors args (re_iters r) be in
      be_operands be = None \<and> be_warmup be = None \<and> be_finite be \<and> \<not> be_stop_last be \<and>
      0 < re_iters r \<and> length turns = re_iters r \<and>
      (if ga_seconds args > 0
       then \<exists>secs err now. Timed secs err now False \<in> set (be_steps be) \<and> now - be_start be \<ge> ga_seconds args
       else int (re_iters r) = ga_repeats args) \<and>
      re_median r = median rates \<and> re_min r = Min (set rates) \<and> re_max r = Max (set rates) \<and>
      (0 < ga_min_tflops args \<longrightarrow> ga_min_tflops args \<le> median rates) \<and>
      (if ga_validate args = ''off'' then re_max_rel_err r = None
       else (ga_seconds args > 0 \<longrightarrow> (\<exists>err. be_last be = Checked err)) \<and>
         (\<exists>x \<le> ga_tol args. re_max_rel_err r = Some (Finite x) \<and> (x = 0 \<or> Finite x \<in> checked) \<and>
            (\<forall>c \<in> checked. c = NotANumber \<or> (\<exists>y \<le> x. c = Finite y)))))"

lemma checked_errors_due:
  assumes "mode \<noteq> ''off''" and "n \<le> length (timed_turns (be_steps be))"
  shows "checked_errors args n be = set (due_errors args mode 0 (take n (timed_turns (be_steps be)))) \<union>
    {err. ga_seconds args > 0 \<and> be_last be = Checked err}"
proof -
  have due: "check_due args mode (Suc i) \<longleftrightarrow> i = 0 \<or> ga_seconds args \<le> 0 \<and> int i + 1 = ga_repeats args \<or>
      ga_validate_every args > 0 \<and> ga_validate_every args dvd int i + 1" for i
    using assms(1) by (auto simp: check_due_def sustained_def dvd_eq_mod_eq_0 add.commute)
  have "err \<in> set (due_errors args mode 0 (take n (timed_turns (be_steps be)))) \<longleftrightarrow>
      (\<exists>i < n. snd (timed_turns (be_steps be) ! i) = err \<and> check_due args mode (Suc i))" for err
    using assms(2) by (auto simp: due_errors_member)
  then show ?thesis unfolding checked_errors_def due by blast
qed

text \<open>The error recorded for a run that ends by itself.\<close>

lemma recorded_error:
  assumes loop: "gemm_loop args cfg mode start \<lparr>ls_samples = [], ls_worst = Finite 0\<rparr> flag (be_steps be) = Some (Finished st0 stop)"
    and final: "last_iteration args mode (be_last be) (Finished st0 stop) = Finished st stop"
    and "mode \<noteq> ''off''" and "ls_samples st \<noteq> []"
  shows "ls_worst st \<noteq> NotANumber \<and>
    (ls_worst st = Finite 0 \<or> ls_worst st \<in> checked_errors args (length (ls_samples st)) be) \<and>
    (\<forall>c \<in> checked_errors args (length (ls_samples st)) be. \<not> greater c (ls_worst st)) \<and>
    (ga_seconds args > 0 \<longrightarrow> (\<exists>err. be_last be = Checked err))"
proof -
  obtain n where n: "n \<le> length (timed_turns (be_steps be))"
    "ls_samples st0 = map (\<lambda>t. tflops cfg (fst t)) (take n (timed_turns (be_steps be)))"
    "ls_worst st0 = foldl max_err (Finite 0) (due_errors args mode 0 (take n (timed_turns (be_steps be))))"
    using gemm_loop_accumulates [OF loop] by auto
  let ?due = "due_errors args mode 0 (take n (timed_turns (be_steps be)))"
  have same: "ls_samples st = ls_samples st0" using last_iteration_finished [OF final] by auto
  then have "length (ls_samples st) = n" using n by simp
  note checked = checked_errors_due [OF assms(3), of n be args, OF n(1)] this
  show ?thesis
  proof (cases "ga_seconds args > 0")
    case True
    then obtain err where err: "be_last be = Checked err" "ls_worst st = max_err (ls_worst st0) err"
      using last_iteration_finished [OF final] assms(3,4) by (auto simp: sustained_def)
    then have "ls_worst st = foldl max_err (Finite 0) (?due @ [err])" using n(3) by simp
    moreover have "checked_errors args n be = set (?due @ [err])" using checked(1) True err(1) by auto
    ultimately show ?thesis using foldl_max_err [of "Finite 0" "?due @ [err]"] checked(2) err(1) by auto
  next
    case False
    then have "ls_worst st = foldl max_err (Finite 0) ?due"
      using last_iteration_finished [OF final] n(3) by (auto simp: sustained_def)
    moreover have "checked_errors args n be = set ?due" using checked(1) False by auto
    ultimately show ?thesis using foldl_max_err [of "Finite 0" ?due] checked(2) False by auto
  qed
qed

lemma validate_mode_off: "validate_mode headroom args cfg budget = ''off'' \<longleftrightarrow> ga_validate args = ''off''"
  by (auto simp: validate_mode_def)

text \<open>What a verdict of PASS rests on.\<close>

lemma passing_run:
  assumes "run_config headroom args budget cfg be = Some res" and "re_status res = PASS" and "0 \<le> ga_repeats args"
  shows "passed_run args cfg be res \<and>
    estimate_bytes headroom (cf_m cfg) (cf_n cfg) (cf_k cfg) (cf_dtype cfg) (re_mode res = ''full'') (ga_validate_block args) \<le> budget"
proof -
  define mode where "mode = validate_mode headroom args cfg budget"
  let ?loop = "gemm_loop args cfg mode (be_start be) \<lparr>ls_samples = [], ls_worst = Finite 0\<rparr> (be_stop_first be) (be_steps be)"
  have res_mode: "re_mode (verdict args mode ok stop why st (fresh_result cfg mode)) = mode" for ok stop why st
    by (simp add: verdict_def fresh_result_def Let_def)
  obtain e where e: "?loop = Some e" "be_operands be = None" "be_warmup be = None"
    "estimate_bytes headroom (cf_m cfg) (cf_n cfg) (cf_k cfg) (cf_dtype cfg) (mode = ''full'') (ga_validate_block args) \<le> budget"
    "res = (case last_iteration args mode (be_last be) e of
        Crashed msg \<Rightarrow> (fresh_result cfg mode)\<lparr>re_status := ERROR, re_reason := [TimedFailed msg]\<rparr>
      | LoopInterrupted st \<Rightarrow> verdict args mode (be_finite be) True [InterruptedPartial] st (fresh_result cfg mode)
      | Finished st stop \<Rightarrow> verdict args mode (be_finite be) (stop \<or> be_stop_last be) [] st (fresh_result cfg mode))"
    using assms(1,2) unfolding run_config_def Let_def mode_def [symmetric]
    by (auto simp: fresh_result_def split: if_splits option.splits)
  from e(5) assms(2) obtain st stop where fin: "last_iteration args mode (be_last be) e = Finished st stop"
    "res = verdict args mode (be_finite be) (stop \<or> be_stop_last be) [] st (fresh_result cfg mode)"
    by (auto split: loop_end.splits dest: verdict_pass)
  from last_iteration_finished [OF fin(1)] obtain st0 where st0: "e = Finished st0 stop" "ls_samples st = ls_samples st0" by auto
  have loop: "?loop = Some (Finished st0 stop)" using e(1) st0(1) by simp
  note pass = verdict_pass [OF assms(2) [unfolded fin(2)], folded fin(2)]
  have ended: "if ga_seconds args > 0
       then \<exists>secs err now. Timed secs err now False \<in> set (be_steps be) \<and> now - be_start be \<ge> ga_seconds args
       else int (re_iters res) = ga_repeats args"
    using gemm_loop_finished [OF loop] pass st0(2) assms(3) by (auto simp: sustained_def split: if_splits)
  obtain n where n: "n \<le> length (timed_turns (be_steps be))"
    "ls_samples st = map (\<lambda>t. tflops cfg (fst t)) (take n (timed_turns (be_steps be)))"
    using gemm_loop_accumulates [OF loop] st0(2) by auto
  then have rates: "re_iters res = n"
    "map (\<lambda>(secs, _). 2 * real_of_int (cf_m cfg * cf_n cfg * cf_k cfg) / secs / 10 ^ 12) (take n (timed_turns (be_steps be))) = ls_samples st"
    using pass by (simp_all add: tflops_def case_prod_unfold)
  have error: "if ga_validate args = ''off'' then re_max_rel_err res = None
       else (ga_seconds args > 0 \<longrightarrow> (\<exists>err. be_last be = Checked err)) \<and>
         (\<exists>x \<le> ga_tol args. re_max_rel_err res = Some (Finite x) \<and> (x = 0 \<or> Finite x \<in> checked_errors args n be) \<and>
            (\<forall>c \<in> checked_errors args n be. c = NotANumber \<or> (\<exists>y \<le> x. c = Finite y)))"
  proof (cases "mode = ''off''")
    case True
    then show ?thesis using pass validate_mode_off mode_def by simp
  next
    case on: False
    have rec: "ls_worst st \<noteq> NotANumber" "ls_worst st = Finite 0 \<or> ls_worst st \<in> checked_errors args n be"
      "\<forall>c \<in> checked_errors args n be. \<not> greater c (ls_worst st)" "ga_seconds args > 0 \<longrightarrow> (\<exists>err. be_last be = Checked err)"
      using recorded_error [OF loop _ on] fin(1) st0(1) pass rates(1) by auto
    have "\<not> greater (ls_worst st) (Finite (ga_tol args))" using pass on by (auto simp: gate_failures_def split: if_splits)
    with rec(1) obtain x where x: "ls_worst st = Finite x" "x \<le> ga_tol args"
      by (cases "ls_worst st") (auto simp: greater_def)
    have "c = NotANumber \<or> (\<exists>y \<le> x. c = Finite y)" if "c \<in> checked_errors args n be" for c
      using rec(3) that x(1) by (cases c) (auto simp: greater_def)
    then show ?thesis using x rec(2,4) pass on validate_mode_off mode_def by auto
  qed
  have mode: "re_mode res = mode" using res_mode fin(2) by simp
  have gate: "0 < ga_min_tflops args \<longrightarrow> ga_min_tflops args \<le> median (ls_samples st)"
    using pass by (auto simp: gate_failures_def split: if_splits)
  have count: "0 < n" "length (take n (timed_turns (be_steps be))) = n" using pass rates(1) n(1) by auto
  have "passed_run args cfg be res"
    unfolding passed_run_def Let_def rates
    using pass e(2,3) ended [unfolded rates(1)] error gate count by blast
  with e(4) mode show ?thesis by simp
qed

text \<open>
  C21: A configuration reported as PASS fitted the memory budget and meets the specification
  \<open>passed_run\<close>: nothing raised, the output was finite and nothing asked to stop; it took
  all the requested iterations, or ran for the requested time; median, minimum and maximum are those
  of the throughputs of its timed products, and the median is not below \<^verbatim>\<open>--min-tflops\<close>; unless
  validation is off, the recorded error is at most the tolerance, is 0 or the error of a product
  the options ask to check, and no such product has a larger or infinite error. An error that is not a
  number does not count.
\<close>

theorem passing_config:
  assumes "run_config headroom args budget cfg be = Some res" and "re_status res = PASS" and "0 \<le> ga_repeats args"
  shows "passed_run args cfg be res \<and>
    estimate_bytes headroom (cf_m cfg) (cf_n cfg) (cf_k cfg) (cf_dtype cfg) (re_mode res = ''full'') (ga_validate_block args) \<le> budget"
  using assms by (rule passing_run)

text \<open>
  C35: In the fixed mode the timing loop ends: once the environment has supplied as many timed products
  as iterations are requested, none of them with a stop request, the loop has finished with exactly
  the requested number of samples, the throughputs of those products in order.
\<close>

theorem fixed_loop_returns:
  assumes "\<not> sustained args" and "list_all (\<lambda>s. \<exists>secs err now. s = Timed secs err now False) steps"
    and "int (length (ls_samples st)) \<le> ga_repeats args"
    and "ga_repeats args \<le> int (length (ls_samples st) + length (timed_secs steps))"
  shows "\<exists>st'. gemm_loop args cfg mode start st False steps = Some (Finished st' False) \<and>
    int (length (ls_samples st')) = ga_repeats args \<and>
    ls_samples st' = ls_samples st @ map (tflops cfg) (take (nat (ga_repeats args) - length (ls_samples st)) (timed_secs steps))"
  using assms(2-4)
proof (induction steps arbitrary: st)
  case Nil
  then show ?case using assms(1) by (simp add: below_target_def timed_secs_def)
next
  case (Cons s steps)
  then obtain secs err now where s: "s = Timed secs err now False" by auto
  show ?case
  proof (cases "below_target args (length (ls_samples st))")
    case False
    then show ?thesis using assms(1) Cons.prems by (simp add: below_target_def)
  next
    case below: True
    let ?st = "validate_step args mode err (add_sample cfg secs st)"
    have samples: "ls_samples ?st = ls_samples st @ [tflops cfg secs]" by (simp add: validate_step_def add_sample_def)
    show ?thesis
    proof (cases "secs \<le> 0")
      case True
      then show ?thesis using Cons.IH [of st] Cons.prems below assms(1) s by (simp add: timed_secs_def)
    next
      case False
      then have secs: "timed_secs (s # steps) = secs # timed_secs steps" by (simp add: timed_secs_def s)
      have n: "nat (ga_repeats args) - length (ls_samples st) = Suc (nat (ga_repeats args) - Suc (length (ls_samples st)))"
        using below assms(1) by (simp add: below_target_def)
      show ?thesis
        using Cons.IH [of ?st] Cons.prems below assms(1) s False secs samples n by (simp add: below_target_def Let_def)
    qed
  qed
qed

text \<open>
  C36: In the sustained mode the timing loop ends when the time is up: it takes every timed product until the first
  one after which the clock has passed the limit, and finishes there, with the throughputs of all of them
  in order and the stop flag as it was read then. It never ends before, unless it is stopped.
\<close>

theorem sustained_loop_returns:
  assumes "sustained args" and "list_all (\<lambda>s. \<exists>secs err now. s = Timed secs err now False \<and> (secs \<le> 0 \<or> now - start < ga_seconds args)) before"
    and "secs > 0" and "now - start \<ge> ga_seconds args"
  shows "\<exists>st'. gemm_loop args cfg mode start st False (before @ Timed secs err now stop # later) = Some (Finished st' stop) \<and>
    ls_samples st' = ls_samples st @ map (tflops cfg) (timed_secs before @ [secs]) \<and>
    gemm_loop args cfg mode start st False before = None"
proof -
  have target: "below_target args n" for n using assms(1) by (simp add: below_target_def)
  have samples: "ls_samples (validate_step args mode e (add_sample cfg x s)) = ls_samples s @ [tflops cfg x]" for e x s
    by (simp add: validate_step_def add_sample_def)
  have "\<exists>st'. gemm_loop args cfg mode start st False (before @ Timed secs err now stop # later) = Some (Finished st' stop) \<and>
    ls_samples st' = ls_samples st @ map (tflops cfg) (timed_secs before @ [secs])"
    using assms(2)
  proof (induction before arbitrary: st)
    case Nil
    then show ?case using assms(1,3,4) by (simp add: target samples timed_secs_def Let_def)
  next
    case (Cons step before)
    then obtain x e t where step: "step = Timed x e t False" "x \<le> 0 \<or> t - start < ga_seconds args"
      and rest: "list_all (\<lambda>s. \<exists>secs err now. s = Timed secs err now False \<and> (secs \<le> 0 \<or> now - start < ga_seconds args)) before"
      by auto
    show ?case
    proof (cases "x \<le> 0")
      case True
      then show ?thesis using Cons.IH [OF rest, of st] step by (simp add: target timed_secs_def)
    next
      case False
      then show ?thesis
        using Cons.IH [OF rest, of "validate_step args mode e (add_sample cfg x st)"] step
        by (simp add: target samples timed_secs_def Let_def)
    qed
  qed
  moreover have "gemm_loop args cfg mode start st False before = None"
    using assms(2)
    by (induction before arbitrary: st) (auto simp: target Let_def)
  ultimately show ?thesis by blast
qed

text \<open>
  A checked error that is not a number leaves the worst error as it was: a configuration can pass
  although a checked product was not finite, when a later product is.
\<close>

lemma nan_error_ignored: "max_err worst NotANumber = worst"
  by (simp add: max_err_def greater_def)

definition demo_args :: gemm_args where
  "demo_args = \<lparr>ga_devices = None, ga_sizes = [64], ga_shapes = [], ga_dtypes = [''fp16''], ga_layout = ''nn'',
     ga_warmup = 5, ga_repeats = 2, ga_seconds = 0, ga_validate = ''block'', ga_validate_block = 2048,
     ga_validate_every = 0, ga_tol = 1 / 50, ga_min_tflops = 0, ga_tensor_ratio = 0, ga_parallel = False,
     ga_max_parallel = 0, ga_fail_fast = False, ga_telemetry = False, ga_log_interval = 10,
     ga_init = ''randn'', ga_seed = 1234, ga_max_mem_gb = 12, ga_json = None, ga_csv = None\<rparr>"

definition demo_config :: config where
  "demo_config = \<lparr>cf_m = 64, cf_n = 64, cf_k = 64, cf_dtype = ''fp16'', cf_layout = ''nn''\<rparr>"

definition demo_backend :: "rel_err \<Rightarrow> backend" where
  "demo_backend err = \<lparr>be_operands = None, be_warmup = None, be_stop_first = False, be_start = 0,
     be_steps = [Timed 1 err 1 False, Timed 0 (Finite 0) 2 False, Timed 1 (Finite (1 / 100)) 3 False],
     be_last = Checked (Finite 0), be_finite = True, be_stop_last = False\<rparr>"

definition demo_result :: config_result where
  "demo_result = (let x = tflops demo_config 1 in
     \<lparr>re_config = demo_config, re_status = PASS, re_reason = [], re_iters = 2, re_median = (x + x) / 2,
      re_min = x, re_max = x, re_drift = None, re_max_rel_err = Some (Finite (1 / 100)), re_mode = ''block''\<rparr>)"

lemma demo_run:
  assumes "err = Finite 0 \<or> err = NotANumber"
  shows "run_config (\<lambda>b. b) demo_args 1000000 demo_config (demo_backend err) = Some demo_result"
proof -
  have "gemm_loop demo_args demo_config ''block'' 0 \<lparr>ls_samples = [], ls_worst = Finite 0\<rparr> False (be_steps (demo_backend err)) =
      Some (Finished \<lparr>ls_samples = [tflops demo_config 1, tflops demo_config 1], ls_worst = Finite (1 / 100)\<rparr> False)"
    using assms by (auto simp: demo_args_def demo_backend_def below_target_def sustained_def validate_step_def
        check_due_def add_sample_def max_err_def greater_def)
  moreover have "validate_mode (\<lambda>b. b) demo_args demo_config 1000000 = ''block''"
    by (simp add: validate_mode_def demo_args_def)
  moreover have "last_iteration demo_args ''block'' (be_last (demo_backend err))
      (Finished \<lparr>ls_samples = [tflops demo_config 1, tflops demo_config 1], ls_worst = Finite (1 / 100)\<rparr> False) =
      Finished \<lparr>ls_samples = [tflops demo_config 1, tflops demo_config 1], ls_worst = Finite (1 / 100)\<rparr> False"
    by (simp add: last_iteration_def sustained_def demo_args_def)
  moreover have "estimate_bytes (\<lambda>b. b) 64 64 64 ''fp16'' False 2048 \<le> 1000000"
    by (simp add: estimate_bytes_def itemsize_def)
  ultimately show ?thesis
    by (simp add: run_config_def Let_def demo_config_def demo_result_def demo_backend_def verdict_def fresh_result_def
        gate_failures_def demo_args_def greater_def median_def drift_of_def)
qed

theorem passing_config_witness:
  "re_status demo_result = PASS \<and> passed_run demo_args demo_config (demo_backend (Finite 0)) demo_result"
  using passing_config [OF demo_run [OF disjI1 [OF refl]]]
  by (simp add: demo_result_def Let_def demo_args_def)

theorem fixed_loop_returns_witness:
  "\<exists>st. gemm_loop demo_args demo_config ''block'' 0 \<lparr>ls_samples = [], ls_worst = Finite 0\<rparr> False (be_steps (demo_backend NotANumber)) =
     Some (Finished st False)"
proof -
  have "\<not> sustained demo_args" "list_all (\<lambda>s. \<exists>secs err now. s = Timed secs err now False) (be_steps (demo_backend NotANumber))"
    "int (length (ls_samples \<lparr>ls_samples = [], ls_worst = Finite 0\<rparr>)) \<le> ga_repeats demo_args"
    "ga_repeats demo_args \<le> int (length (ls_samples \<lparr>ls_samples = [], ls_worst = Finite 0\<rparr>) +
       length (timed_secs (be_steps (demo_backend NotANumber))))"
    by (simp_all add: sustained_def demo_args_def demo_backend_def timed_secs_def)
  from fixed_loop_returns [OF this] show ?thesis by blast
qed

theorem sustained_loop_returns_witness:
  "\<exists>st. gemm_loop (demo_args\<lparr>ga_seconds := 2\<rparr>) demo_config ''off'' 0 \<lparr>ls_samples = [], ls_worst = Finite 0\<rparr> False
     ([Timed 1 (Finite 0) 1 False] @ Timed 1 (Finite 0) 2 False # []) = Some (Finished st False) \<and>
   ls_samples st = [tflops demo_config 1, tflops demo_config 1]"
proof -
  have "sustained (demo_args\<lparr>ga_seconds := 2\<rparr>)"
    "list_all (\<lambda>s. \<exists>secs err now. s = Timed secs err now False \<and> (secs \<le> 0 \<or> now - 0 < ga_seconds (demo_args\<lparr>ga_seconds := 2\<rparr>))) [Timed 1 (Finite 0) 1 False]"
    "(1 :: real) > 0" "(2 :: real) - 0 \<ge> ga_seconds (demo_args\<lparr>ga_seconds := 2\<rparr>)"
    by (simp_all add: sustained_def)
  from sustained_loop_returns [OF this, of demo_config "''off''" "\<lparr>ls_samples = [], ls_worst = Finite 0\<rparr>" "Finite 0" False "[]"]
  obtain st where st: "gemm_loop (demo_args\<lparr>ga_seconds := 2\<rparr>) demo_config ''off'' 0 \<lparr>ls_samples = [], ls_worst = Finite 0\<rparr> False
     ([Timed 1 (Finite 0) 1 False] @ Timed 1 (Finite 0) 2 False # []) = Some (Finished st False)"
    "ls_samples st = [] @ map (tflops demo_config) (timed_secs [Timed 1 (Finite 0) 1 False] @ [1])"
    by (elim exE conjE) (simp only: loop_state.simps)
  have "timed_secs [Timed 1 (Finite 0) 1 False] = [1]" by (simp add: timed_secs_def)
  with st(2) have "ls_samples st = [tflops demo_config 1, tflops demo_config 1]" by (simp del: gemm_loop.simps)
  with st(1) show ?thesis by blast
qed

text \<open>The same run with an error that is not a number at the first check.\<close>

lemma nan_run_passes:
  "run_config (\<lambda>b. b) demo_args 1000000 demo_config (demo_backend NotANumber) = Some demo_result \<and> re_status demo_result = PASS"
  using demo_run [of NotANumber] by (simp add: demo_result_def Let_def)

end
