(* ===== verification/GemmRun.thy ===== *)
theory GemmRun
  imports GemmStress
begin

text \<open>
  \<^verbatim>\<open>tools/gemm_stress.py\<close>, the run over all devices: the configurations of a device, the
  batches of devices, the tensor ratio gate, the report and the exit status. What happened in a batch
  (which results came back, whether Ctrl+C arrived) is given by the environment. The result of a
  device is its name and the list of configuration results. What is printed and written is in
  GemmReport; GemmWhole puts devices and batches together.
\<close>

type_synonym device_result = "string \<times> config_result list"
type_synonym per_device = "(int \<times> device_result) list"

subsection \<open>One device\<close>

text \<open>\<^verbatim>\<open>int(min(max_mem_gb * 1e9, free * 0.9))\<close>: the fraction is cut off.\<close>

definition device_budget :: "gemm_args \<Rightarrow> int \<Rightarrow> int" where
  "device_budget args free = (let x = min (ga_max_mem_gb args * 10 ^ 9) (real_of_int free * 9 / 10) in if x < 0 then \<lceil>x\<rceil> else \<lfloor>x\<rfloor>)"

text \<open>Each configuration comes with its environment and the stop flag read before it.\<close>

fun run_device :: "(int \<Rightarrow> int) \<Rightarrow> gemm_args \<Rightarrow> int \<Rightarrow> (config \<times> backend \<times> bool) list \<Rightarrow> config_result list option" where
  "run_device headroom args budget [] = Some []"
| "run_device headroom args budget ((cfg, be, stop) # rest) =
     (if stop then Some []
      else case run_config headroom args budget cfg be of
        None \<Rightarrow> None
      | Some r \<Rightarrow>
          if ga_fail_fast args \<and> re_status r \<in> {FAIL, ERROR} then Some [r]
          else map_option (Cons r) (run_device headroom args budget rest))"

subsection \<open>Batches\<close>

text \<open>A batch either completes, with the stop flag afterwards, or is interrupted after some results
  were collected, in order; a batch of one device has none then.\<close>

datatype batch_event = Completed "device_result list" bool | BatchInterrupted "device_result list"

definition store_results :: "int list \<Rightarrow> device_result list \<Rightarrow> per_device \<Rightarrow> per_device" where
  "store_results batch rs acc = foldl (\<lambda>acc (idx, out). AList.update idx out acc) acc (zip batch rs)"

fun run_batches :: "(nat \<Rightarrow> int list \<Rightarrow> batch_event) \<Rightarrow> nat \<Rightarrow> int list list \<Rightarrow> per_device \<Rightarrow> bool \<Rightarrow> per_device \<times> bool" where
  "run_batches env num [] acc stop = (acc, stop)"
| "run_batches env num (batch # batches) acc stop =
     (if stop then (acc, stop)
      else case env num batch of
        Completed rs stop' \<Rightarrow> run_batches env (Suc num) batches (store_results batch rs acc) stop'
      | BatchInterrupted rs \<Rightarrow> (store_results batch rs acc, True))"

definition run_all :: "(nat \<Rightarrow> int list \<Rightarrow> batch_event) \<Rightarrow> gemm_args \<Rightarrow> int list \<Rightarrow> bool \<Rightarrow> gemm_error + per_device \<times> bool" where
  "run_all env args devices stop =
     (let batch_size = (if ga_max_parallel args > 0 then ga_max_parallel args
        else if ga_parallel args then int (length devices) else 1) in
      bind_res (batch_devices devices batch_size) (\<lambda>batches. Inr (run_batches env 1 batches [] stop)))"

subsection \<open>The tensor ratio\<close>

type_synonym baseline_key = "int \<times> int \<times> int \<times> string"

definition key_of :: "config_result \<Rightarrow> baseline_key" where
  "key_of r = (let c = re_config r in (cf_m c, cf_n c, cf_k c, cf_layout c))"

definition is_baseline :: "config_result \<Rightarrow> bool" where
  "is_baseline r \<longleftrightarrow> cf_dtype (re_config r) = ''fp32'' \<and> re_status r = PASS \<and> re_median r > 0"

definition baselines :: "config_result list \<Rightarrow> (baseline_key \<rightharpoonup> real)" where
  "baselines rs = foldl (\<lambda>m r. if is_baseline r then m(key_of r \<mapsto> re_median r) else m) Map.empty rs"

definition ratio_gate :: "real \<Rightarrow> (baseline_key \<rightharpoonup> real) \<Rightarrow> config_result \<Rightarrow> config_result" where
  "ratio_gate ratio base r =
     (if cf_dtype (re_config r) \<noteq> ''fp16'' \<or> re_status r \<noteq> PASS then r
      else case base (key_of r) of
        None \<Rightarrow> r\<lparr>re_status := FAIL, re_reason := [NoBaseline]\<rparr>
      | Some b \<Rightarrow>
          if b \<le> 0 then r\<lparr>re_status := FAIL, re_reason := [NoBaseline]\<rparr>
          else if re_median r / b < ratio then r\<lparr>re_status := FAIL, re_reason := [RatioBelow (re_median r / b) ratio (re_median r) b]\<rparr>
          else r)"

definition apply_tensor_ratio :: "gemm_args \<Rightarrow> per_device \<Rightarrow> per_device" where
  "apply_tensor_ratio args pd =
     (if ga_tensor_ratio args \<le> 0 then pd
      else map (\<lambda>(idx, name, rs). (idx, name, map (ratio_gate (ga_tensor_ratio args) (baselines rs)) rs)) pd)"

subsection \<open>Report and exit status\<close>

definition all_results :: "per_device \<Rightarrow> config_result list" where
  "all_results pd = concat (map (\<lambda>(idx, name, rs). rs) pd)"

definition count_status :: "status \<Rightarrow> per_device \<Rightarrow> nat" where
  "count_status s pd = length (filter (\<lambda>r. re_status r = s) (all_results pd))"

definition report :: "per_device \<Rightarrow> int" where
  "report pd =
     (if count_status FAIL pd > 0 \<or> count_status ERROR pd > 0 then 1
      else if count_status PASS pd = 0 then 1 else 0)"

text \<open>The rows of the output files, by device; the CSV header is taken from the first row.\<close>

definition output_rows :: "per_device \<Rightarrow> (int \<times> string \<times> config_result) list" where
  "output_rows pd = concat (map (\<lambda>(idx, name, rs). map (\<lambda>r. (idx, name, r)) rs) (sort_key fst pd))"

datatype main_result = Exit int | CsvIndexError

definition make_configs :: "gemm_args \<Rightarrow> shape list \<Rightarrow> config list" where
  "make_configs args dims =
     (let dtypes = ga_dtypes args @ (if ga_tensor_ratio args > 0 \<and> ''fp32'' \<notin> set (ga_dtypes args) then [''fp32''] else []) in
      concat (map (\<lambda>(m, n, k). map (\<lambda>dt.
        \<lparr>cf_m = m, cf_n = n, cf_k = k, cf_dtype = dt, cf_layout = ga_layout args\<rparr>) dtypes) dims))"

definition gemm_main :: "bool \<Rightarrow> (int \<times> string) list \<Rightarrow> (config list \<Rightarrow> nat \<Rightarrow> int list \<Rightarrow> batch_event) \<Rightarrow> gemm_args \<Rightarrow> main_result" where
  "gemm_main cuda_available names env args =
     (if \<not> cuda_available then Exit 1
      else if ga_seconds args < 0 \<or> ga_repeats args < 1 \<or> ga_warmup args < 0 then Exit 1
      else let devices = fst (select_devices (ga_devices args) names) in
        if devices = [] then Exit 1
        else let sizes = (if ga_sizes args = [] \<and> ga_shapes args = [] then [8192] else ga_sizes args) in
          case parse_shapes sizes (ga_shapes args) of
            Inl e \<Rightarrow> Exit 1
          | Inr dims \<Rightarrow>
              if ga_max_parallel args < 0 then Exit 1
              else case run_all (env (make_configs args dims)) args devices False of
                Inl e \<Rightarrow> Exit 1
              | Inr (pd, interrupted) \<Rightarrow>
                  let pd' = (if interrupted then pd else apply_tensor_ratio args pd) in
                  if path_given (ga_csv args) \<and> output_rows pd' = [] then CsvIndexError
                  else Exit (if interrupted then 130 else report pd'))"

subsection \<open>Selection and batches\<close>

lemma select_devices_split:
  "fst (select_devices requested names) = filter (\<lambda>i. \<not> amd_index names i)
     (case requested of Some r \<Rightarrow> r | None \<Rightarrow> sort (map fst names))"
proof -
  have "fst (foldl (\<lambda>(keep, skipped) idx. if amd_index names idx then (keep, skipped @ [idx]) else (keep @ [idx], skipped)) (ks, ss) xs)
      = ks @ filter (\<lambda>i. \<not> amd_index names i) xs" for ks ss xs
    by (induction xs arbitrary: ks ss) auto
  then show ?thesis by (simp add: select_devices_def Let_def)
qed

lemma chunks_concat: "0 < n \<Longrightarrow> concat (chunks n xs) = xs \<and> (\<forall>b \<in> set (chunks n xs). b \<noteq> [] \<and> length b \<le> n)"
proof (induction n xs rule: chunks.induct)
  case (1 n xs)
  show ?case
  proof (cases "xs = []")
    case True
    then show ?thesis by (simp add: chunks.simps [of n "[]"])
  next
    case False
    with 1 have "chunks n xs = take n xs # chunks n (drop n xs)" by (simp add: chunks.simps [of n xs])
    with 1 False show ?thesis by simp
  qed
qed

lemma store_results_keys:
  assumes "distinct (map fst acc)" and "length rs \<le> length batch"
  shows "distinct (map fst (store_results batch rs acc)) \<and>
    fst ` set (store_results batch rs acc) = fst ` set acc \<union> set (take (length rs) batch)"
proof -
  have keys: "distinct (map fst (foldl (\<lambda>acc (idx, out). AList.update idx out acc) acc xs)) \<and>
      fst ` set (foldl (\<lambda>acc (idx, out). AList.update idx out acc) acc xs) = fst ` set acc \<union> fst ` set xs"
    if "distinct (map fst acc)" for acc xs
    using that
  proof (induction xs arbitrary: acc)
    case (Cons x xs)
    then show ?case
      using distinct_update [of acc "fst x" "snd x"] dom_update [of "fst x" "snd x" acc]
      by (cases x) (auto simp: image_Un)
  qed simp
  have "fst ` set (zip batch rs) = set (take (length rs) batch)"
    using assms(2) by (simp add: map_fst_zip_take min_absorb2 flip: set_map)
  then show ?thesis using keys [OF assms(1), of "zip batch rs"] by (simp only: store_results_def simp_thms)
qed

text \<open>The contract of the environment: a completed batch has a result for every device of it.\<close>

definition env_ok :: "(nat \<Rightarrow> int list \<Rightarrow> batch_event) \<Rightarrow> bool" where
  "env_ok env \<longleftrightarrow> (\<forall>num batch. case env num batch of
     Completed rs stop \<Rightarrow> length rs = length batch | BatchInterrupted rs \<Rightarrow> length rs \<le> length batch)"

lemma run_batches_keys:
  assumes "env_ok env" and "distinct (map fst acc)" and "run_batches env num batches acc stop = (pd, interrupted)"
  shows "distinct (map fst pd) \<and> fst ` set pd \<subseteq> fst ` set acc \<union> set (concat batches) \<and>
    (\<not> interrupted \<longrightarrow> fst ` set pd = fst ` set acc \<union> set (concat batches))"
  using assms(2,3)
proof (induction batches arbitrary: num acc stop)
  case (Cons batch batches)
  show ?case
  proof (cases "stop \<or> (\<exists>rs. env num batch = BatchInterrupted rs)")
    case True
    have "env num batch = BatchInterrupted rs \<Longrightarrow> length rs \<le> length batch" for rs
      using assms(1) by (auto simp: env_ok_def split: batch_event.splits)
    then consider "pd = acc" "interrupted" | rs where "pd = store_results batch rs acc" "interrupted" "length rs \<le> length batch"
      using True Cons.prems(2) by (auto split: if_splits)
    then show ?thesis
    proof cases
      case 2
      then show ?thesis using store_results_keys [OF Cons.prems(1) 2(3)] set_take_subset [of "length rs" batch] by auto
    qed (use Cons.prems(1) in auto)
  next
    case False
    then obtain rs stop' where e: "env num batch = Completed rs stop'" by (cases "env num batch") auto
    then have len: "length rs = length batch"
      using assms(1) by (auto simp: env_ok_def split: batch_event.splits dest: spec [of _ num])
    from Cons.IH [of "store_results batch rs acc" "Suc num" stop'] store_results_keys [OF Cons.prems(1), of rs batch]
    show ?thesis using Cons.prems(2) False e len by auto
  qed
qed simp

lemma baselines_Some:
  assumes "baselines rs key = Some b"
  shows "\<exists>r \<in> set rs. is_baseline r \<and> key_of r = key \<and> re_median r = b"
  using assms
proof (induction rs rule: rev_induct)
  case (snoc r rs)
  then show ?case by (auto simp: baselines_def split: if_splits)
qed (simp add: baselines_def)

text \<open>A result that passes the ratio gate, in terms of the results of its device before the gate.\<close>

definition ratio_met :: "real \<Rightarrow> config_result list \<Rightarrow> config_result \<Rightarrow> bool" where
  "ratio_met ratio rs r \<longleftrightarrow> r \<in> set rs \<and> (cf_dtype (re_config r) = ''fp16'' \<longrightarrow>
     (\<exists>b \<in> set rs. is_baseline b \<and> key_of b = key_of r \<and> re_median r \<ge> ratio * re_median b))"

lemma ratio_gate_pass:
  assumes "r \<in> set rs" and "re_status (ratio_gate ratio (baselines rs) r) = PASS"
  shows "ratio_gate ratio (baselines rs) r = r \<and> ratio_met ratio rs r"
proof (cases "cf_dtype (re_config r) \<noteq> ''fp16'' \<or> re_status r \<noteq> PASS")
  case True
  then show ?thesis using assms by (auto simp: ratio_gate_def ratio_met_def)
next
  case False
  with assms(2) obtain b where b: "baselines rs (key_of r) = Some b" "\<not> b \<le> 0" "\<not> re_median r / b < ratio"
    by (auto simp: ratio_gate_def split: if_splits option.splits)
  from baselines_Some [OF b(1)] obtain q where q: "q \<in> set rs" "is_baseline q" "key_of q = key_of r" "re_median q = b" by blast
  have "re_median r \<ge> ratio * b" using b(2,3) by (simp add: pos_divide_less_eq not_less mult.commute)
  then have "ratio_met ratio rs r" using q assms(1) by (auto simp: ratio_met_def)
  then show ?thesis using False b by (auto simp: ratio_gate_def)
qed

lemma report_zero:
  "report pd = 0 \<longleftrightarrow> (\<forall>r \<in> set (all_results pd). re_status r = PASS \<or> re_status r = SKIP) \<and>
    (\<exists>r \<in> set (all_results pd). re_status r = PASS)"
proof -
  have counts: "count_status s pd = 0 \<longleftrightarrow> (\<forall>r \<in> set (all_results pd). re_status r \<noteq> s)" for s
    by (auto simp: count_status_def filter_empty_conv)
  have rep: "report pd = 0 \<longleftrightarrow> count_status FAIL pd = 0 \<and> count_status ERROR pd = 0 \<and> count_status PASS pd \<noteq> 0"
    by (simp add: report_def)
  have good: "re_status r = PASS \<or> re_status r = SKIP \<longleftrightarrow> re_status r \<noteq> FAIL \<and> re_status r \<noteq> ERROR" for r
    by (cases "re_status r") simp_all
  show ?thesis unfolding rep counts good by blast
qed

lemma run_all_keys:
  assumes "env_ok env" and "run_all env args devices False = Inr (pd, interrupted)"
  shows "distinct (map fst pd) \<and> fst ` set pd \<subseteq> set devices \<and> (\<not> interrupted \<longrightarrow> fst ` set pd = set devices)"
proof -
  define n where "n = nat (if ga_max_parallel args > 0 then ga_max_parallel args
    else if ga_parallel args then int (length devices) else 1)"
  have n: "0 < n" "run_batches env 1 (chunks n devices) [] False = (pd, interrupted)"
    using assms(2) by (auto simp: run_all_def batch_devices_def Let_def bind_res_Inr_conv n_def split: if_splits)
  show ?thesis using run_batches_keys [OF assms(1) _ n(2)] chunks_concat [OF n(1), of devices] by simp
qed

text \<open>
  Exit status 0 means that the run was not interrupted, covered every selected device exactly,
  used no AMD device, and left every result at PASS or SKIP with at least one PASS; with a required
  tensor ratio each passing tensor configuration met it against the FP32 baseline of its shape.
\<close>

lemma gemm_exit_zero:
  assumes "gemm_main cuda names env args = Exit 0" and "\<And>configs. env_ok (env configs)"
  shows "\<exists>dims pd. parse_shapes (if ga_sizes args = [] \<and> ga_shapes args = [] then [8192] else ga_sizes args) (ga_shapes args) = Inr dims \<and>
    run_all (env (make_configs args dims)) args (fst (select_devices (ga_devices args) names)) False = Inr (pd, False) \<and>
    fst ` set pd = set (fst (select_devices (ga_devices args) names)) \<and> (\<forall>idx \<in> fst ` set pd. \<not> amd_index names idx) \<and>
    (\<forall>r \<in> set (all_results pd). re_status r = PASS \<or> re_status r = SKIP) \<and>
    (\<exists>r \<in> set (all_results pd). re_status r = PASS) \<and>
    (ga_tensor_ratio args > 0 \<longrightarrow> (\<forall>(idx, name, rs) \<in> set pd. \<forall>r \<in> set rs. re_status r = PASS \<longrightarrow>
      ratio_met (ga_tensor_ratio args) rs r))"
proof -
  let ?devices = "fst (select_devices (ga_devices args) names)"
  from assms(1) obtain dims pd interrupted where m:
    "parse_shapes (if ga_sizes args = [] \<and> ga_shapes args = [] then [8192] else ga_sizes args) (ga_shapes args) = Inr dims"
    "run_all (env (make_configs args dims)) args ?devices False = Inr (pd, interrupted)"
    "(if interrupted then 130 else report (if interrupted then pd else apply_tensor_ratio args pd)) = 0"
    unfolding gemm_main_def Let_def by (auto split: if_splits sum.splits)
  then have zero: "\<not> interrupted" "report (apply_tensor_ratio args pd) = 0" by (auto split: if_splits)
  let ?gate = "\<lambda>rs. map (ratio_gate (ga_tensor_ratio args) (baselines rs)) rs"
  have results: "all_results (apply_tensor_ratio args pd) =
      (if ga_tensor_ratio args \<le> 0 then all_results pd else concat (map (\<lambda>(idx, name, rs). ?gate rs) pd))"
    by (simp add: apply_tensor_ratio_def all_results_def comp_def case_prod_unfold)
  have failed: "re_status (ratio_gate ratio base r) \<in> {PASS, SKIP} \<Longrightarrow> ratio_gate ratio base r = r" for ratio base r
    by (auto simp: ratio_gate_def split: if_splits option.splits)
  have same: "?gate rs = rs" if "(idx, name, rs) \<in> set pd" "ga_tensor_ratio args > 0" for idx name rs
    using zero(2) that by (intro map_idI failed) (force simp: report_zero results)
  have gated: "all_results (apply_tensor_ratio args pd) = all_results pd"
  proof (cases "ga_tensor_ratio args \<le> 0")
    case False
    then have "map (\<lambda>(idx, name, rs). ?gate rs) pd = map (\<lambda>(idx, name, rs). rs) pd" using same by (auto intro!: map_cong)
    with False show ?thesis by (simp only: results if_False) (simp add: all_results_def)
  qed (simp add: results)
  have ratio: "ratio_met (ga_tensor_ratio args) rs r"
    if "ga_tensor_ratio args > 0" "(idx, name, rs) \<in> set pd" "r \<in> set rs" "re_status r = PASS" for idx name rs r
  proof -
    have "ratio_gate (ga_tensor_ratio args) (baselines rs) r = r"
      using same [OF that(2,1)] that(3) by (metis map_eq_conv list.map_id0 id_apply)
    then show ?thesis using ratio_gate_pass [OF that(3)] that(4) by simp
  qed
  have "fst ` set pd = set ?devices" using run_all_keys [OF assms(2) m(2)] zero(1) by simp
  moreover have "\<forall>idx \<in> set ?devices. \<not> amd_index names idx" by (simp add: select_devices_split)
  ultimately show ?thesis
    using m(1,2) zero gated ratio by (auto simp: report_zero)
qed

subsection \<open>Runs\<close>

definition demo_names :: "(int \<times> string) list" where
  "demo_names = [(0, ''Radeon VII''), (1, ''CMP 100-210'')]"

definition demo_env :: "config list \<Rightarrow> nat \<Rightarrow> int list \<Rightarrow> batch_event" where
  "demo_env configs num batch = Completed (map (\<lambda>_. (''CMP 100-210'',
     [demo_result, (fresh_result demo_config ''block'')\<lparr>re_reason := [OverBudget 2 1]\<rparr>])) batch) False"

lemma demo_selected: "fst (select_devices None demo_names) = [1]"
  by code_simp

lemma demo_pass: "re_status demo_result = PASS"
  by (simp add: demo_result_def Let_def)

lemma demo_main: "gemm_main True demo_names demo_env demo_args = Exit 0"
proof -
  have "run_all (demo_env configs) demo_args [1] False = Inr ([(1, ''CMP 100-210'',
      [demo_result, (fresh_result demo_config ''block'')\<lparr>re_reason := [OverBudget 2 1]\<rparr>])], False)" for configs
    by (simp add: run_all_def demo_args_def demo_env_def batch_devices_def chunks.simps store_results_def)
  moreover have "ga_tensor_ratio demo_args = 0" "ga_devices demo_args = None" "ga_seconds demo_args = 0" "ga_repeats demo_args = 2"
    "ga_warmup demo_args = 5" "ga_max_parallel demo_args = 0" "\<not> path_given (ga_csv demo_args)" "ga_sizes demo_args = [64]" "ga_shapes demo_args = []"
    by (simp_all add: demo_args_def path_given_def)
  ultimately show ?thesis
    by (simp add: gemm_main_def Let_def demo_selected parse_shapes_def apply_tensor_ratio_def report_def
        count_status_def all_results_def demo_pass fresh_result_def)
qed

text \<open>With a CSV file asked for and an interrupt before the first result, writing the header raises.\<close>

lemma csv_without_rows:
  "gemm_main True demo_names (\<lambda>configs num batch. BatchInterrupted []) (demo_args\<lparr>ga_csv := Some ''soak.csv''\<rparr>) = CsvIndexError"
proof -
  have "run_all (\<lambda>num batch. BatchInterrupted []) (demo_args\<lparr>ga_csv := Some ''soak.csv''\<rparr>) [1] False = Inr ([], True)"
    by (simp add: run_all_def demo_args_def batch_devices_def chunks.simps store_results_def)
  moreover have "ga_tensor_ratio demo_args = 0" "ga_devices demo_args = None" "ga_seconds demo_args = 0" "ga_repeats demo_args = 2"
    "ga_warmup demo_args = 5" "ga_max_parallel demo_args = 0" "ga_sizes demo_args = [64]" "ga_shapes demo_args = []"
    by (simp_all add: demo_args_def)
  ultimately show ?thesis
    by (simp add: gemm_main_def Let_def demo_selected parse_shapes_def output_rows_def path_given_def)
qed

end
