(* ===== verification/PmuProbe.thy ===== *)
theory PmuProbe
  imports PyBytes
begin

text \<open>
  \<^verbatim>\<open>tools/analyze_pmu_readability_probe.py\<close>: the patterns of a capture, and the
  classification of the samples against the known instruction memory. SHA-256 is the parameter
  \<open>digest\<close>.
\<close>

subsection \<open>The patterns\<close>

definition after_prefix :: "string \<Rightarrow> string \<Rightarrow> string option" where
  "after_prefix pat s = (if starts_with pat s then Some (drop (length pat) s) else None)"

definition ascii_hex :: "char \<Rightarrow> bool" where
  "ascii_hex c \<longleftrightarrow> hex_digit c \<noteq> None"

text \<open>One or more characters of a class, as many as there are.\<close>

definition take_some :: "(char \<Rightarrow> bool) \<Rightarrow> string \<Rightarrow> (string \<times> string) option" where
  "take_some p s = (if takeWhile p s = [] then None else Some (takeWhile p s, dropWhile p s))"

text \<open>A literal and the characters of a class behind it.\<close>

definition group_after :: "string \<Rightarrow> (char \<Rightarrow> bool) \<Rightarrow> string \<Rightarrow> (string \<times> string) option" where
  "group_after pat p s = Option.bind (after_prefix pat s) (take_some p)"

fun groups :: "(string \<times> (char \<Rightarrow> bool)) list \<Rightarrow> string \<Rightarrow> (string list \<times> string) option" where
  "groups [] s = Some ([], s)"
| "groups ((pat, p) # rest) s =
     (case group_after pat p s of None \<Rightarrow> None
      | Some (g, s') \<Rightarrow> map_option (\<lambda>(gs, s''). (g # gs, s'')) (groups rest s'))"

text \<open>\<^verbatim>\<open>VALUE\<close>: one character for the space and the secure flag, then the two numbers.\<close>

definition match_value :: "string \<Rightarrow> (string list \<times> string) option" where
  "match_value s = (case after_prefix ''cmp100_pmu_readability VALUE space='' s of
     Some (sp # s1) \<Rightarrow> if sp = CHR ''I'' \<or> sp = CHR ''D''
       then (case after_prefix '' secure='' s1 of
          Some (sec # s2) \<Rightarrow> if sec = CHR ''0'' \<or> sec = CHR ''1''
            then map_option (\<lambda>(gs, rest). ([sp] # [sec] # gs, rest))
              (groups [('' address=0x'', ascii_hex), ('' value=0x'', ascii_hex)] s2)
            else None
        | _ \<Rightarrow> None)
       else None
   | _ \<Rightarrow> None)"

text \<open>\<^verbatim>\<open>HEAD\<close>: the greedy \<^verbatim>\<open>.*\<close> takes the last place of the line where the rest matches.\<close>

definition match_counts :: "string \<Rightarrow> (string list \<times> string) option" where
  "match_counts s = groups [('' captures='', is_digit), ('' samples='', is_digit), ('' invalid='', is_digit),
     ('' nmissed='', is_digit)] s"

fun last_counts :: "string \<Rightarrow> string list option" where
  "last_counts [] = None"
| "last_counts (c # cs) = (case last_counts cs of Some gs \<Rightarrow> Some gs | None \<Rightarrow> map_option fst (match_counts (c # cs)))"

definition match_head :: "string \<Rightarrow> string list option" where
  "match_head s = Option.bind (after_prefix ''cmp100_pmu_readability BEGIN '' s)
     (\<lambda>rest. last_counts (takeWhile (\<lambda>c. c \<noteq> CHR 0x0A) rest))"

definition match_selectors :: "string \<Rightarrow> string list option" where
  "match_selectors s = map_option fst (groups [(''saved_imemc=0x'', ascii_hex), ('' restored_imemc=0x'', ascii_hex),
     ('' saved_dmemc=0x'', ascii_hex), ('' restored_dmemc=0x'', ascii_hex)] s)"

text \<open>\<^verbatim>\<open>search\<close>: the leftmost match.\<close>

fun search_first :: "(string \<Rightarrow> 'a option) \<Rightarrow> string \<Rightarrow> 'a option" where
  "search_first m [] = m []"
| "search_first m (c # cs) = (case m (c # cs) of Some x \<Rightarrow> Some x | None \<Rightarrow> search_first m cs)"

text \<open>\<^verbatim>\<open>VALUE.finditer\<close>: matches from left to right, each behind the one before.\<close>

lemma after_prefix_shorter: "after_prefix pat s = Some rest \<Longrightarrow> length rest \<le> length s"
  by (auto simp: after_prefix_def split: if_splits)

lemma group_after_shorter:
  assumes "group_after pat p s = Some (g, rest)"
  shows "length rest \<le> length s"
proof -
  from assms obtain t where "after_prefix pat s = Some t" "rest = dropWhile p t"
    by (auto simp: group_after_def take_some_def bind_eq_Some_conv split: if_splits)
  then show ?thesis using after_prefix_shorter [of pat s t] length_dropWhile_le [of p t] by simp
qed

lemma groups_shorter: "groups gs s = Some (xs, rest) \<Longrightarrow> length rest \<le> length s"
proof (induction gs s arbitrary: xs rest rule: groups.induct)
  case (2 pat p gs s)
  then obtain g s' xs' where g: "group_after pat p s = Some (g, s')" "groups gs s' = Some (xs', rest)"
    by (auto split: option.splits prod.splits)
  with group_after_shorter [OF g(1)] 2(1) [OF g(1) refl g(2)] show ?case by simp
qed simp

lemma match_value_shorter:
  assumes "match_value s = Some (gs, rest)"
  shows "length rest < length s"
proof -
  let ?gs = "[('' address=0x'', ascii_hex), ('' value=0x'', ascii_hex)]"
  from assms obtain sp s1 sec s2 hs where "after_prefix ''cmp100_pmu_readability VALUE space='' s = Some (sp # s1)"
    "after_prefix '' secure='' s1 = Some (sec # s2)" "groups ?gs s2 = Some (hs, rest)"
    unfolding match_value_def by (auto simp del: groups.simps split: option.splits list.splits if_splits)
  then show ?thesis
    using after_prefix_shorter [of _ s "sp # s1"] after_prefix_shorter [of _ s1 "sec # s2"] groups_shorter [of ?gs s2 hs rest] by fastforce
qed

function find_values :: "string \<Rightarrow> string list list" where
  "find_values [] = []"
| "find_values (c # cs) = (case match_value (c # cs) of
     Some (gs, rest) \<Rightarrow> gs # find_values rest | None \<Rightarrow> find_values cs)"
  by pat_completeness auto
termination
  by (relation "measure length") (auto dest: match_value_shorter)

declare find_values.simps [simp del]

subsection \<open>The classification\<close>

record pmu_sample =
  ps_space :: string
  ps_secure :: bool
  ps_address :: int
  ps_value :: int
  ps_expected :: "int option"

definition matches_expected :: "pmu_sample \<Rightarrow> bool" where
  "matches_expected v \<longleftrightarrow> ps_expected v = Some (ps_value v)"

datatype pmu_message =
    MissingBegin
  | Captures int
  | Samples int nat
  | Invalid int
  | Nmissed int
  | MissingSelector
  | NotRestored

datatype pmu_verdict = InvalidCapture | MatchesLoaded | PartialMatch | NotShownReadable

datatype pmu_error = UnexpectedDigest string | DuplicateSample string bool int | BadNumber

record pmu_report =
  pp_errors :: "pmu_message list"
  pp_verdict :: pmu_verdict
  pp_selector_restored :: bool
  pp_known_matches :: nat
  pp_body_matches :: nat
  pp_degenerate :: bool
  pp_dmem_uniform_value :: "int option"
  pp_dmem_uniform_poison :: bool
  pp_pairs_equal :: bool
  pp_values :: "pmu_sample list"

definition EXPECTED_IMEM_SHA256 :: string where
  "EXPECTED_IMEM_SHA256 = ''82a2c8abf38ef5e7fea658bf25c52a74b8d21377c54c37072b3a39d223955a8c''"

definition hex_value :: "string \<Rightarrow> int" where
  "hex_value g = the (py_int16 g)"

definition sample_of :: "bytes \<Rightarrow> string list \<Rightarrow> pmu_sample" where
  "sample_of imem gs = (let space = gs ! 0; address = hex_value (gs ! 2) in
     \<lparr>ps_space = space, ps_secure = (gs ! 1 = ''1''), ps_address = address, ps_value = hex_value (gs ! 3),
      ps_expected = (if space = ''I'' then get_u32 imem (nat address) else None)\<rparr>)"

definition sample_key :: "pmu_sample \<Rightarrow> string \<times> bool \<times> int" where
  "sample_key v = (ps_space v, ps_secure v, ps_address v)"

fun no_duplicates :: "(string \<times> bool \<times> int) list \<Rightarrow> pmu_sample list \<Rightarrow> pmu_error + unit" where
  "no_duplicates seen [] = Inr ()"
| "no_duplicates seen (v # vs) =
     (if sample_key v \<in> set seen then Inl (DuplicateSample (ps_space v) (ps_secure v) (ps_address v))
      else no_duplicates (sample_key v # seen) vs)"

definition counts_errors :: "nat \<Rightarrow> int list \<Rightarrow> pmu_message list" where
  "counts_errors parsed ns =
     (if ns ! 0 \<noteq> 1 then [Captures (ns ! 0)] else []) @
     (if ns ! 1 \<noteq> 24 \<or> parsed \<noteq> 24 then [Samples (ns ! 1) parsed] else []) @
     (if ns ! 2 \<noteq> 0 then [Invalid (ns ! 2)] else []) @
     (if ns ! 3 \<noteq> 0 then [Nmissed (ns ! 3)] else [])"

definition head_errors :: "string \<Rightarrow> nat \<Rightarrow> pmu_error + pmu_message list" where
  "head_errors txt parsed = (case search_first match_head txt of
     None \<Rightarrow> Inr [MissingBegin]
   | Some gs \<Rightarrow> bind_res (map_res (\<lambda>g. of_option BadNumber (py_int10 g)) gs) (\<lambda>ns. Inr (counts_errors parsed ns)))"

definition selector_state :: "string \<Rightarrow> bool \<times> pmu_message list" where
  "selector_state txt = (case search_first match_selectors txt of
     None \<Rightarrow> (False, [MissingSelector])
   | Some gs \<Rightarrow>
       (let restored = (hex_value (gs ! 0) = hex_value (gs ! 1) \<and> hex_value (gs ! 2) = hex_value (gs ! 3)) in
        (restored, if restored then [] else [NotRestored])))"

definition secure_samples :: "pmu_sample list \<Rightarrow> pmu_sample list" where
  "secure_samples vs = filter (\<lambda>v. ps_space v = ''I'' \<and> ps_secure v) vs"

definition secure_body :: "pmu_sample list \<Rightarrow> pmu_sample list" where
  "secure_body vs = filter (\<lambda>v. ps_address v \<ge> 0x200) (secure_samples vs)"

definition degenerate_values :: "int list" where
  "degenerate_values = [0, 0xFFFFFFFF, 0xBADF1100]"

definition pairs_equal :: "pmu_sample list \<Rightarrow> bool" where
  "pairs_equal vs = list_all (\<lambda>s. (case filter (\<lambda>n. ps_space n = ''I'' \<and> \<not> ps_secure n \<and> ps_address n = ps_address s) vs of
       [] \<Rightarrow> False | n # _ \<Rightarrow> ps_value n = ps_value s)) (secure_samples vs)"

definition dmem_uniform :: "pmu_sample list \<Rightarrow> int option" where
  "dmem_uniform vs = (case filter (\<lambda>v. ps_space v = ''D'') vs of
     [] \<Rightarrow> None
   | d # ds \<Rightarrow> if list_all (\<lambda>v. ps_value v = ps_value d) ds then Some (ps_value d) else None)"

definition pmu_analyze :: "(bytes \<Rightarrow> string) \<Rightarrow> string \<Rightarrow> bytes \<Rightarrow> pmu_error + pmu_report" where
  "pmu_analyze digest txt imem =
     bind_res (ensure (digest imem = EXPECTED_IMEM_SHA256) (UnexpectedDigest (digest imem))) (\<lambda>_.
     let vs = map (sample_of imem) (find_values txt) in
     bind_res (no_duplicates [] vs) (\<lambda>_.
     bind_res (head_errors txt (length vs)) (\<lambda>errors1.
     let restored = fst (selector_state txt); errors = errors1 @ snd (selector_state txt);
         body = secure_body vs; matches = length (filter matches_expected body);
         degenerate = list_all (\<lambda>v. ps_value v \<in> set degenerate_values) body;
         verdict = (if errors \<noteq> [] then InvalidCapture
           else if body \<noteq> [] \<and> matches = length body \<and> \<not> degenerate then MatchesLoaded
           else if matches \<noteq> 0 then PartialMatch else NotShownReadable) in
     Inr \<lparr>pp_errors = errors, pp_verdict = verdict, pp_selector_restored = restored,
          pp_known_matches = length (filter (\<lambda>v. matches_expected v \<and> ps_expected v \<noteq> Some 0) (secure_samples vs)),
          pp_body_matches = matches, pp_degenerate = degenerate,
          pp_dmem_uniform_value = dmem_uniform vs,
          pp_dmem_uniform_poison = (case dmem_uniform vs of None \<Rightarrow> False
            | Some v \<Rightarrow> v \<in> {0, 0xFFFFFFFF, 0xBADF1100, 0xDEAD5EC2}),
          pp_pairs_equal = pairs_equal vs, pp_values = vs\<rparr>)))"

text \<open>The exit status of \<^verbatim>\<open>main\<close>.\<close>

definition pmu_main :: "(bytes \<Rightarrow> string) \<Rightarrow> string \<Rightarrow> bytes \<Rightarrow> pmu_error + int" where
  "pmu_main digest txt imem = bind_res (pmu_analyze digest txt imem) (\<lambda>r. Inr (if pp_errors r = [] then 0 else 2))"

subsection \<open>The positive verdict\<close>

lemma no_duplicates_distinct:
  "no_duplicates seen vs = Inr u \<Longrightarrow> distinct (map sample_key vs) \<and> set seen \<inter> sample_key ` set vs = {}"
  by (induction seen vs rule: no_duplicates.induct) (auto split: if_splits)

lemma head_errors_none:
  assumes "head_errors txt parsed = Inr []"
  shows "parsed = 24"
proof -
  from assms obtain gs ns where "search_first match_head txt = Some gs" "counts_errors parsed ns = []"
    by (auto simp: head_errors_def bind_res_Inr_conv split: option.splits)
  then show ?thesis by (auto simp: counts_errors_def split: if_splits)
qed

text \<open>
  C30: The verdict that the loaded code matches is given only for the pinned image and a complete
  capture: all 24 samples present without duplicate, no header error, the selectors restored. Then
  every secure sample of the code body (instruction memory from 0x200 on) equals the word of the
  image at its address, and the body has at least one secure sample whose value is none of the
  fillers 0, 0xFFFFFFFF and 0xBADF1100 a blocked read returns.
\<close>

theorem pmu_matches:
  assumes "pmu_analyze digest txt imem = Inr r" and "pp_verdict r = MatchesLoaded"
  shows "digest imem = EXPECTED_IMEM_SHA256 \<and> pp_errors r = [] \<and> pp_selector_restored r \<and>
    length (pp_values r) = 24 \<and> distinct (map sample_key (pp_values r)) \<and>
    (\<forall>v \<in> set (pp_values r). ps_space v = ''I'' \<and> ps_secure v \<and> ps_address v \<ge> 0x200 \<longrightarrow>
      get_u32 imem (nat (ps_address v)) = Some (ps_value v)) \<and>
    (\<exists>v \<in> set (pp_values r). ps_space v = ''I'' \<and> ps_secure v \<and> ps_address v \<ge> 0x200 \<and>
      ps_value v \<noteq> 0 \<and> ps_value v \<noteq> 0xFFFFFFFF \<and> ps_value v \<noteq> 0xBADF1100)"
proof -
  let ?vs = "map (sample_of imem) (find_values txt)"
  from assms(1) obtain errors1 where a: "digest imem = EXPECTED_IMEM_SHA256" "no_duplicates [] ?vs = Inr ()"
    "head_errors txt (length ?vs) = Inr errors1" "pp_values r = ?vs" "pp_errors r = errors1 @ snd (selector_state txt)"
    "pp_selector_restored r = fst (selector_state txt)"
    "pp_verdict r = (if pp_errors r \<noteq> [] then InvalidCapture
       else if secure_body ?vs \<noteq> [] \<and> length (filter matches_expected (secure_body ?vs)) = length (secure_body ?vs) \<and>
         \<not> list_all (\<lambda>v. ps_value v \<in> set degenerate_values) (secure_body ?vs) then MatchesLoaded
       else if length (filter matches_expected (secure_body ?vs)) \<noteq> 0 then PartialMatch else NotShownReadable)"
    unfolding pmu_analyze_def Let_def by (elim bind_res_InrE) auto
  have v: "pp_errors r = []" "length (filter matches_expected (secure_body ?vs)) = length (secure_body ?vs)"
    "\<not> list_all (\<lambda>v. ps_value v \<in> set degenerate_values) (secure_body ?vs)"
    using a(7) assms(2) by (auto split: if_splits)
  have "\<forall>v \<in> set (secure_body ?vs). matches_expected v"
    using v(2) by (metis filter_id_conv filter_True length_filter_less less_irrefl)
  then have "\<forall>v \<in> set ?vs. ps_space v = ''I'' \<and> ps_secure v \<and> ps_address v \<ge> 0x200 \<longrightarrow>
      get_u32 imem (nat (ps_address v)) = Some (ps_value v)"
    by (auto simp: secure_body_def secure_samples_def matches_expected_def sample_of_def Let_def)
  moreover have "\<exists>v \<in> set ?vs. ps_space v = ''I'' \<and> ps_secure v \<and> ps_address v \<ge> 0x200 \<and>
      ps_value v \<noteq> 0 \<and> ps_value v \<noteq> 0xFFFFFFFF \<and> ps_value v \<noteq> 0xBADF1100"
  proof -
    obtain v where "v \<in> set (secure_body ?vs)" "ps_value v \<notin> set degenerate_values"
      using v(3) by (auto simp only: list_all_iff)
    then show ?thesis by (auto simp: secure_body_def secure_samples_def degenerate_values_def)
  qed
  moreover have "fst (selector_state txt)"
    using v(1) a(5) by (auto simp: selector_state_def Let_def split: option.splits if_splits)
  moreover have "length ?vs = 24" using v(1) a(3,5) head_errors_none by auto
  ultimately show ?thesis
    using a(1,4,6) v(1) no_duplicates_distinct [OF a(2)] by simp
qed

text \<open>A capture of the 24 samples: one secure word of the image, and 23 data words.\<close>

definition demo_line :: "string \<Rightarrow> string \<Rightarrow> string" where
  "demo_line flags digits = ''cmp100_pmu_readability VALUE '' @ flags @ '' address=0x'' @ digits @ '' value=0x1'' @ [CHR 0x0A]"

definition demo_header :: string where
  "demo_header = ''cmp100_pmu_readability BEGIN x captures=1 samples=24 invalid=0 nmissed=0'' @ [CHR 0x0A] @
     ''saved_imemc=0x7 restored_imemc=0x7 saved_dmemc=0x0 restored_dmemc=0x0'' @ [CHR 0x0A]"

definition demo_digits :: "string list" where
  "demo_digits = [''0'', ''1'', ''2'', ''3'', ''4'', ''5'', ''6'', ''7'', ''8'', ''9'', ''A'', ''B'', ''C'', ''D'', ''E'', ''F'',
     ''10'', ''11'', ''12'', ''13'', ''14'', ''15'', ''16'']"

definition demo_capture :: string where
  "demo_capture = demo_header @ demo_line ''space=I secure=1'' ''200'' @
     concat (map (demo_line ''space=D secure=0'') demo_digits)"

definition demo_imem :: bytes where
  "demo_imem = replicate 512 0 @ [1, 0, 0, 0]"

lemma demo_header_parts:
  "search_first match_head (demo_header @ rest) = Some [''1'', ''24'', ''0'', ''0'']"
  "search_first match_selectors (demo_header @ rest) = Some [''7'', ''7'', ''0'', ''0'']"
  "find_values (demo_header @ rest) = find_values rest"
  "find_values (demo_line ''space=I secure=1'' ''200'' @ rest) = [''I'', ''1'', ''200'', ''1''] # find_values rest"
  by code_simp+

lemma demo_data_line:
  assumes "list_all ascii_hex digits" and "digits \<noteq> []"
  shows "find_values (demo_line ''space=D secure=0'' digits @ rest) = [''D'', ''0'', digits, ''1''] # find_values rest"
proof -
  let ?tail = "'' value=0x1'' @ [CHR 0x0A] @ rest"
  have blank: "\<not> ascii_hex CHR '' ''" "\<not> ascii_hex CHR 0x0A" "ascii_hex CHR ''1''" by code_simp+
  have "takeWhile ascii_hex (digits @ ?tail) = digits" "dropWhile ascii_hex (digits @ ?tail) = ?tail"
    using assms(1) blank by (simp_all add: takeWhile_append dropWhile_append list_all_iff)
  then have "match_value (demo_line ''space=D secure=0'' digits @ rest) = Some ([''D'', ''0'', digits, ''1''], CHR 0x0A # rest)"
    using assms(2) blank
    by (simp add: demo_line_def match_value_def after_prefix_def group_after_def take_some_def)
  moreover have "find_values (CHR 0x0A # rest) = find_values rest"
    by (simp add: find_values.simps match_value_def after_prefix_def)
  moreover have "demo_line ''space=D secure=0'' digits @ rest = CHR ''c'' # tl (demo_line ''space=D secure=0'' digits @ rest)"
    by (simp add: demo_line_def)
  ultimately show ?thesis using find_values.simps(2) [of "CHR ''c''" "tl (demo_line ''space=D secure=0'' digits @ rest)"] by simp
qed

lemma demo_values:
  "find_values demo_capture = [''I'', ''1'', ''200'', ''1''] # map (\<lambda>d. [''D'', ''0'', d, ''1'']) demo_digits"
proof -
  have "find_values (concat (map (demo_line ''space=D secure=0'') ds)) = map (\<lambda>d. [''D'', ''0'', d, ''1'']) ds"
    if "list_all (\<lambda>d. list_all ascii_hex d \<and> d \<noteq> []) ds" for ds
    using that by (induction ds) (simp_all add: demo_data_line find_values.simps(1))
  moreover have "list_all (\<lambda>d. list_all ascii_hex d \<and> d \<noteq> []) demo_digits" by code_simp
  ultimately show ?thesis by (simp add: demo_capture_def demo_header_parts)
qed

definition demo_samples :: "pmu_sample list" where
  "demo_samples = \<lparr>ps_space = ''I'', ps_secure = True, ps_address = 512, ps_value = 1, ps_expected = Some 1\<rparr> #
     map (\<lambda>i. \<lparr>ps_space = ''D'', ps_secure = False, ps_address = i, ps_value = 1, ps_expected = None\<rparr>) [0..22]"

lemma demo_parsed: "map (sample_of demo_imem) (find_values demo_capture) = demo_samples"
  unfolding demo_values by code_simp

lemma demo_report: "\<exists>r. pmu_analyze (\<lambda>_. EXPECTED_IMEM_SHA256) demo_capture demo_imem = Inr r \<and> pp_verdict r = MatchesLoaded"
proof -
  have "no_duplicates [] demo_samples = Inr ()" "length demo_samples = 24"
    "secure_body demo_samples = [hd demo_samples]" "matches_expected (hd demo_samples)"
    "ps_value (hd demo_samples) \<notin> set degenerate_values"
    by code_simp+
  moreover have "head_errors demo_capture 24 = Inr []"
  proof -
    have "map py_int10 [''1'', ''24'', ''0'', ''0''] = [Some 1, Some 24, Some 0, Some 0]" by code_simp
    then show ?thesis
      by (simp add: head_errors_def demo_capture_def demo_header_parts counts_errors_def)
  qed
  moreover have "selector_state demo_capture = (True, [])"
    by (simp add: selector_state_def demo_capture_def demo_header_parts)
  ultimately show ?thesis
    by (simp add: pmu_analyze_def demo_parsed Let_def)
qed

theorem pmu_matches_witness:
  "\<exists>r. pmu_analyze (\<lambda>_. EXPECTED_IMEM_SHA256) demo_capture demo_imem = Inr r \<and> length (pp_values r) = 24"
  using demo_report pmu_matches by blast

end
