(* ===== verification/PlmBaseline.thy ===== *)
theory PlmBaseline
  imports PyText
begin

text \<open>
  \<^verbatim>\<open>tools/analyze_gv100_plm_baseline.py\<close>: the validation of a two-card capture of the
  privilege masks. The capture is its decoded text; a Python dictionary filled once per key is an
  association list in the order of insertion, after the check for the key.
\<close>

definition BDFS :: "string list" where
  "BDFS = [''0000:01:00.0'', ''0000:02:00.0'']"

definition FIELDS :: "string list" where
  "FIELDS = [''match'', ''mask'', ''data1'', ''data2'', ''action'', ''plm'']"

datatype plm_error =
    UnexpectedBdf string
  | DuplicateBegin string
  | Identity string
  | InvalidSlot string int int
  | DuplicateTrap string int int
  | BadExtra string int
  | Boot0 string int
  | DuplicateEnd string
  | MissingMarkers
  | PassesRequired string
  | SlotsRequired string int
  | Incomplete string
  | KeyError string
  | IntError string

subsection \<open>Lines\<close>

type_synonym item = "string \<rightharpoonup> string"

text \<open>\<^verbatim>\<open>dict(part.split("=", 1) for part in line.split() if "=" in part)\<close>: the last one wins.\<close>

definition key_value :: "string \<Rightarrow> string \<times> string" where
  "key_value part = (takeWhile (\<lambda>c. c \<noteq> CHR ''='') part, tl (dropWhile (\<lambda>c. c \<noteq> CHR ''='') part))"

definition plm_fields :: "string \<Rightarrow> item" where
  "plm_fields line = map_of (rev (map key_value (filter (\<lambda>part. CHR ''='' \<in> set part) (words_of line))))"

text \<open>The marked lines, with their kind and fields.\<close>

definition plm_record :: "string \<Rightarrow> (string \<times> string \<times> item) option" where
  "plm_record line = map_option (\<lambda>payload.
     (line, takeWhile (\<lambda>c. c \<noteq> CHR '' '') payload, plm_fields (tl (dropWhile (\<lambda>c. c \<noteq> CHR '' '') payload))))
     (after_first ''cmp100_plm_ro '' line)"

definition plm_records :: "string \<Rightarrow> (string \<times> string \<times> item) list" where
  "plm_records txt = concat (map (\<lambda>line. case plm_record line of None \<Rightarrow> [] | Some r \<Rightarrow> [r]) (splitlines txt))"

lemma plm_record_sample:
  "(case plm_record ''[ 1.5] cmp100_plm_ro TRAP bdf=0000:01:00.0 pass=0 slot=x pass=1'' of None \<Rightarrow> None
    | Some (_, kind, it) \<Rightarrow> Some (kind, it ''bdf'', it ''pass'', it ''plm'')) =
   Some (''TRAP'', Some ''0000:01:00.0'', Some ''1'', None)"
  by code_simp

subsection \<open>The records\<close>

definition item_lookup :: "item \<Rightarrow> string \<Rightarrow> plm_error + string" where
  "item_lookup it k = of_option (KeyError k) (it k)"

definition plm_int :: "item \<Rightarrow> string \<Rightarrow> plm_error + int" where
  "plm_int it k = bind_res (item_lookup it k) (\<lambda>v. of_option (IntError v) (py_int10 v))"

type_synonym trap_key = "string \<times> int \<times> int"

record plm_state =
  pl_begin :: "string list"
  pl_traps :: "(trap_key \<times> string list) list"
  pl_extra :: "((string \<times> int) \<times> item) list"
  pl_end :: "(string \<times> item) list"

definition trap_entry :: "string \<Rightarrow> item \<Rightarrow> plm_error + trap_key \<times> string list" where
  "trap_entry bdf it =
     bind_res (plm_int it ''pass'') (\<lambda>passage. bind_res (plm_int it ''slot'') (\<lambda>slot.
     bind_res (ensure ((passage = 0 \<or> passage = 1) \<and> 0 \<le> slot \<and> slot < 22) (InvalidSlot bdf passage slot)) (\<lambda>_.
     bind_res (map_res (item_lookup it) FIELDS) (\<lambda>vs. Inr ((bdf, passage, slot), vs)))))"

definition begin_step :: "string \<Rightarrow> item \<Rightarrow> plm_state \<Rightarrow> plm_error + plm_state" where
  "begin_step bdf it st =
     bind_res (ensure (bdf \<notin> set (pl_begin st)) (DuplicateBegin bdf)) (\<lambda>_.
     bind_res (ensure (it ''pci'' = Some ''10de:1d84'' \<and> it ''driver'' = Some ''nvidia'') (Identity bdf)) (\<lambda>_.
     Inr (st\<lparr>pl_begin := pl_begin st @ [bdf]\<rparr>)))"

definition trap_step :: "string \<Rightarrow> item \<Rightarrow> plm_state \<Rightarrow> plm_error + plm_state" where
  "trap_step bdf it st =
     bind_res (trap_entry bdf it) (\<lambda>(key, vs).
     bind_res (ensure (key \<notin> fst ` set (pl_traps st)) (case key of (b, p, s) \<Rightarrow> DuplicateTrap b p s)) (\<lambda>_.
     Inr (st\<lparr>pl_traps := pl_traps st @ [(key, vs)]\<rparr>)))"

definition extra_step :: "string \<Rightarrow> item \<Rightarrow> plm_state \<Rightarrow> plm_error + plm_state" where
  "extra_step bdf it st =
     bind_res (plm_int it ''pass'') (\<lambda>passage.
     bind_res (ensure ((passage = 0 \<or> passage = 1) \<and> (bdf, passage) \<notin> fst ` set (pl_extra st)) (BadExtra bdf passage)) (\<lambda>_.
     bind_res (item_lookup it ''boot_before'') (\<lambda>before.
     bind_res (ensure (before = ''0x140000a1'') (Boot0 bdf passage)) (\<lambda>_.
     bind_res (item_lookup it ''boot_after'') (\<lambda>after.
     bind_res (ensure (after = ''0x140000a1'') (Boot0 bdf passage)) (\<lambda>_.
     Inr (st\<lparr>pl_extra := pl_extra st @ [((bdf, passage), it)]\<rparr>)))))))"

definition end_step :: "string \<Rightarrow> item \<Rightarrow> plm_state \<Rightarrow> plm_error + plm_state" where
  "end_step bdf it st =
     bind_res (ensure (bdf \<notin> fst ` set (pl_end st)) (DuplicateEnd bdf)) (\<lambda>_.
     Inr (st\<lparr>pl_end := pl_end st @ [(bdf, it)]\<rparr>))"

definition plm_step :: "plm_state \<Rightarrow> string \<times> string \<times> item \<Rightarrow> plm_error + plm_state" where
  "plm_step st r = (case r of (line, kind, it) \<Rightarrow>
     case it ''bdf'' of
       None \<Rightarrow> Inl (UnexpectedBdf line)
     | Some bdf \<Rightarrow>
         if bdf \<notin> set BDFS then Inl (UnexpectedBdf line)
         else if kind = ''BEGIN'' then begin_step bdf it st
         else if kind = ''TRAP'' then trap_step bdf it st
         else if kind = ''EXTRA'' then extra_step bdf it st
         else if kind = ''END'' then end_step bdf it st
         else Inr st)"

fun plm_loop :: "plm_state \<Rightarrow> (string \<times> string \<times> item) list \<Rightarrow> plm_error + plm_state" where
  "plm_loop st [] = Inr st"
| "plm_loop st (r # rs) = bind_res (plm_step st r) (\<lambda>st'. plm_loop st' rs)"

definition empty_plm :: plm_state where
  "empty_plm = \<lparr>pl_begin = [], pl_traps = [], pl_extra = [], pl_end = []\<rparr>"

subsection \<open>The final checks and the summary\<close>

definition slots_of :: "plm_state \<Rightarrow> string \<Rightarrow> int \<Rightarrow> int list" where
  "slots_of st bdf p = map (\<lambda>((_, _, s), _). s) (filter (\<lambda>((b, q, _), _). b = bdf \<and> q = p) (pl_traps st))"

definition trap_passes :: "plm_state \<Rightarrow> string \<Rightarrow> int list" where
  "trap_passes st bdf = map (\<lambda>((_, q, _), _). q) (filter (\<lambda>((b, _, _), _). b = bdf) (pl_traps st))"

definition extra_passes :: "plm_state \<Rightarrow> string \<Rightarrow> int list" where
  "extra_passes st bdf = map (\<lambda>((_, q), _). q) (filter (\<lambda>((b, _), _). b = bdf) (pl_extra st))"

text \<open>The checks of one card; \<^verbatim>\<open>traps[bdf]\<close> and \<^verbatim>\<open>extra[bdf]\<close> raise when the card has none.\<close>

definition check_bdf :: "plm_state \<Rightarrow> string \<Rightarrow> plm_error + unit" where
  "check_bdf st bdf =
     bind_res (ensure (trap_passes st bdf \<noteq> []) (KeyError bdf)) (\<lambda>_.
     bind_res (ensure (set (trap_passes st bdf) = {0, 1}) (PassesRequired bdf)) (\<lambda>_.
     bind_res (ensure (extra_passes st bdf \<noteq> []) (KeyError bdf)) (\<lambda>_.
     bind_res (ensure (set (extra_passes st bdf) = {0, 1}) (PassesRequired bdf)) (\<lambda>_.
     bind_res (ensure (set (slots_of st bdf 0) = set [0..21]) (SlotsRequired bdf 0)) (\<lambda>_.
     bind_res (ensure (set (slots_of st bdf 1) = set [0..21]) (SlotsRequired bdf 1)) (\<lambda>_.
     bind_res (of_option (KeyError bdf) (map_of (pl_end st) bdf)) (\<lambda>it.
     ensure (it ''passes'' = Some ''2'' \<and> it ''traps'' = Some ''22'' \<and> it ''hardware_writes'' = Some ''0'')
       (Incomplete bdf))))))))"

definition trap_values :: "plm_state \<Rightarrow> string \<Rightarrow> int \<Rightarrow> int \<Rightarrow> string list" where
  "trap_values st bdf p s = the (map_of (pl_traps st) (bdf, p, s))"

definition extra_item :: "plm_state \<Rightarrow> string \<Rightarrow> int \<Rightarrow> item" where
  "extra_item st bdf p = the (map_of (pl_extra st) (bdf, p))"

fun same_fields :: "item \<Rightarrow> item \<Rightarrow> string list \<Rightarrow> plm_error + bool" where
  "same_fields a b [] = Inr True"
| "same_fields a b (k # ks) = bind_res (item_lookup a k) (\<lambda>x. bind_res (item_lookup b k) (\<lambda>y.
     if x = y then same_fields a b ks else Inr False))"

definition plm_stable :: "plm_state \<Rightarrow> string \<Rightarrow> plm_error + bool" where
  "plm_stable st bdf =
     (if list_all (\<lambda>s. trap_values st bdf 0 s = trap_values st bdf 1 s) [0..21]
      then same_fields (extra_item st bdf 0) (extra_item st bdf 1)
        [''fecs_plm_409650'', ''tensor_409664'', ''scratch30_15f8'', ''scratch31_15fc'']
      else Inr False)"

record plm_summary =
  pm_stable :: "bool list"
  pm_differences :: "(int \<times> string list list) list"
  pm_trap20 :: "string list list"
  pm_fecs_plm :: "string list"
  pm_tensor :: "string list"
  pm_scratch :: "(string \<times> string) list"
  pm_all_traps :: "string list list list"

definition plm_summarize :: "plm_state \<Rightarrow> plm_error + plm_summary" where
  "plm_summarize st =
     bind_res (map_res (plm_stable st) BDFS) (\<lambda>stability.
     bind_res (map_res (\<lambda>b. item_lookup (extra_item st b 0) ''fecs_plm_409650'') BDFS) (\<lambda>fecs.
     bind_res (map_res (\<lambda>b. item_lookup (extra_item st b 0) ''tensor_409664'') BDFS) (\<lambda>tensor.
     bind_res (map_res (\<lambda>b. bind_res (item_lookup (extra_item st b 0) ''scratch30_15f8'') (\<lambda>x.
         bind_res (item_lookup (extra_item st b 0) ''scratch31_15fc'') (\<lambda>y. Inr (x, y)))) BDFS) (\<lambda>scratch.
     Inr \<lparr>pm_stable = stability,
          pm_differences = map (\<lambda>s. (s, map (\<lambda>b. trap_values st b 0 s) BDFS))
            (filter (\<lambda>s. trap_values st (BDFS ! 0) 0 s \<noteq> trap_values st (BDFS ! 1) 0 s) [0..21]),
          pm_trap20 = map (\<lambda>b. trap_values st b 0 20) BDFS, pm_fecs_plm = fecs, pm_tensor = tensor,
          pm_scratch = scratch, pm_all_traps = map (\<lambda>b. map (trap_values st b 0) [0..21]) BDFS\<rparr>))))"

definition plm_check :: "(string \<times> string \<times> item) list \<Rightarrow> plm_error + plm_summary" where
  "plm_check records =
     bind_res (plm_loop empty_plm records) (\<lambda>st.
     bind_res (ensure (set (pl_begin st) = set BDFS \<and> fst ` set (pl_end st) = set BDFS) MissingMarkers) (\<lambda>_.
     bind_res (map_res (check_bdf st) BDFS) (\<lambda>_. plm_summarize st)))"

definition plm_analyze :: "string \<Rightarrow> plm_error + plm_summary" where
  "plm_analyze txt = plm_check (plm_records txt)"

subsection \<open>What an accepted capture holds\<close>

definition of_kind :: "string \<Rightarrow> (string \<times> string \<times> item) list \<Rightarrow> (string \<times> item) list" where
  "of_kind kind rs = map (\<lambda>(line, k, it). (the (it ''bdf''), it)) (filter (\<lambda>(line, k, it). k = kind) rs)"

lemma of_kind_snoc:
  "of_kind kind (rs @ [(line, k, it)]) = of_kind kind rs @ (if k = kind then [(the (it ''bdf''), it)] else [])"
  by (simp add: of_kind_def)

text \<open>The state is the list of records of each kind, each key once.\<close>

definition plm_inv :: "(string \<times> string \<times> item) list \<Rightarrow> plm_state \<Rightarrow> bool" where
  "plm_inv rs st \<longleftrightarrow>
     list_all (\<lambda>(line, k, it). \<exists>b \<in> set BDFS. it ''bdf'' = Some b) rs \<and>
     map fst (of_kind ''BEGIN'' rs) = pl_begin st \<and> distinct (pl_begin st) \<and>
     list_all (\<lambda>(b, it). it ''pci'' = Some ''10de:1d84'' \<and> it ''driver'' = Some ''nvidia'') (of_kind ''BEGIN'' rs) \<and>
     map_res (\<lambda>(b, it). trap_entry b it) (of_kind ''TRAP'' rs) = Inr (pl_traps st) \<and> distinct (map fst (pl_traps st)) \<and>
     of_kind ''END'' rs = pl_end st \<and> distinct (map fst (pl_end st))"

lemma map_res_snoc:
  "map_res f (xs @ [x]) = bind_res (map_res f xs) (\<lambda>ys. bind_res (f x) (\<lambda>y. Inr (ys @ [y])))"
proof (induction xs)
  case (Cons a xs)
  then show ?case by (cases "f a"; cases "map_res f xs"; cases "f x") simp_all
qed simp

lemma plm_step_inv:
  assumes "plm_inv rs st" and "plm_step st r = Inr st'"
  shows "plm_inv (rs @ [r]) st'"
proof -
  obtain line kind it where r: "r = (line, kind, it)" by (cases r)
  from assms(2) obtain bdf where b: "it ''bdf'' = Some bdf" "bdf \<in> set BDFS"
    by (auto simp: plm_step_def r split: option.splits if_splits)
  consider (g) "kind = ''BEGIN''" "begin_step bdf it st = Inr st'" | (t) "kind = ''TRAP''" "trap_step bdf it st = Inr st'"
    | (x) "kind = ''EXTRA''" "extra_step bdf it st = Inr st'" | (e) "kind = ''END''" "end_step bdf it st = Inr st'"
    | (n) "kind \<notin> {''BEGIN'', ''TRAP'', ''EXTRA'', ''END''}" "st' = st"
    using assms(2) b by (auto simp: plm_step_def r split: if_splits)
  then show ?thesis
  proof cases
    case g
    then show ?thesis using assms(1) b
      by (auto simp: plm_inv_def r of_kind_snoc begin_step_def bind_res_Inr_conv)
  next
    case t
    then show ?thesis using assms(1) b
      by (auto simp: plm_inv_def r of_kind_snoc trap_step_def bind_res_Inr_conv map_res_snoc)
  next
    case x
    then show ?thesis using assms(1) b
      by (auto simp: plm_inv_def r of_kind_snoc extra_step_def bind_res_Inr_conv)
  next
    case e
    then show ?thesis using assms(1) b
      by (auto simp: plm_inv_def r of_kind_snoc end_step_def bind_res_Inr_conv)
  next
    case n
    then show ?thesis using assms(1) b by (auto simp: plm_inv_def r of_kind_snoc)
  qed
qed

lemma plm_loop_inv: "plm_inv seen st \<Longrightarrow> plm_loop st rs = Inr st' \<Longrightarrow> plm_inv (seen @ rs) st'"
proof (induction rs arbitrary: seen st)
  case (Cons r rs)
  then obtain st1 where "plm_step st r = Inr st1" "plm_loop st1 rs = Inr st'" by (auto simp: bind_res_Inr_conv)
  with Cons.IH [of "seen @ [r]" st1] plm_step_inv Cons.prems(1) show ?case by simp
qed simp

lemma plm_inv_empty: "plm_inv [] empty_plm"
  by (simp add: plm_inv_def of_kind_def empty_plm_def)

lemma check_bdf_traps:
  assumes "check_bdf st b = Inr u"
  shows "{(p, s). (b, p, s) \<in> fst ` set (pl_traps st)} = {0, 1} \<times> {0..21}"
    and "\<exists>it. map_of (pl_end st) b = Some it \<and> it ''hardware_writes'' = Some ''0''"
proof -
  from assms obtain it where c: "set (trap_passes st b) = {0, 1}" "set (slots_of st b 0) = {0..21}"
    "set (slots_of st b 1) = {0..21}" "map_of (pl_end st) b = Some it" "it ''hardware_writes'' = Some ''0''"
    by (auto simp: check_bdf_def bind_res_Inr_conv)
  have passes: "set (trap_passes st b) = {p. \<exists>s. (b, p, s) \<in> fst ` set (pl_traps st)}"
    and slots: "set (slots_of st b p) = {s. (b, p, s) \<in> fst ` set (pl_traps st)}" for p
    by (force simp: trap_passes_def slots_of_def)+
  have "(b, p, s) \<in> fst ` set (pl_traps st) \<longleftrightarrow> (p = 0 \<or> p = 1) \<and> s \<in> {0..21}" for p s
  proof (cases "p = 0 \<or> p = 1")
    case True
    then have "set (slots_of st b p) = {0..21}" using c(2,3) by auto
    with True slots [of p] show ?thesis by blast
  next
    case False
    then have "p \<notin> set (trap_passes st b)" using c(1) by simp
    with False passes show ?thesis by blast
  qed
  then show "{(p, s). (b, p, s) \<in> fst ` set (pl_traps st)} = {0, 1} \<times> {0..21}" by auto
  show "\<exists>it. map_of (pl_end st) b = Some it \<and> it ''hardware_writes'' = Some ''0''" using c(4,5) by blast
qed

lemma map_res_source: "map_res f xs = Inr ys \<Longrightarrow> y \<in> set ys \<Longrightarrow> \<exists>x \<in> set xs. f x = Inr y"
  by (induction xs arbitrary: ys) (auto simp: bind_res_Inr_conv)

lemma of_kind_bdf:
  "list_all (\<lambda>(line, k, it). \<exists>b \<in> set BDFS. it ''bdf'' = Some b) rs \<Longrightarrow> (b, it) \<in> set (of_kind kind rs) \<Longrightarrow> b \<in> set BDFS"
  by (fastforce simp: of_kind_def list_all_iff)

text \<open>
  C24: An accepted capture is complete for both cards and shows no write: all marked lines name one of
  the two cards, each card has one BEGIN and one END with zero hardware writes, and its trap
  records cover both passes and all 22 slots exactly once. The summary reports these records, and
  the listed differences are exactly the slots in which the cards differ on the first pass.
\<close>

theorem plm_accepted:
  assumes "plm_check rs = Inr r"
  shows "list_all (\<lambda>(line, kind, it). \<exists>b \<in> set BDFS. it ''bdf'' = Some b) rs \<and>
    distinct (map fst (of_kind ''BEGIN'' rs)) \<and> fst ` set (of_kind ''BEGIN'' rs) = set BDFS \<and>
    (\<exists>traps. map_res (\<lambda>(b, it). trap_entry b it) (of_kind ''TRAP'' rs) = Inr traps \<and>
      distinct (map fst traps) \<and> fst ` set traps = set BDFS \<times> {0, 1} \<times> {0..21} \<and>
      pm_all_traps r = map (\<lambda>b. map (\<lambda>s. the (map_of traps (b, 0, s))) [0..21]) BDFS \<and>
      fst ` set (pm_differences r) = {s \<in> {0..21}. map_of traps (BDFS ! 0, 0, s) \<noteq> map_of traps (BDFS ! 1, 0, s)}) \<and>
    distinct (map fst (of_kind ''END'' rs)) \<and>
    (\<forall>b \<in> set BDFS. \<exists>it. (b, it) \<in> set (of_kind ''END'' rs) \<and> it ''hardware_writes'' = Some ''0'')"
proof -
  from assms obtain st us where c: "plm_loop empty_plm rs = Inr st" "set (pl_begin st) = set BDFS" "fst ` set (pl_end st) = set BDFS"
    "map_res (check_bdf st) BDFS = Inr us" "plm_summarize st = Inr r"
    unfolding plm_check_def by (elim bind_res_InrE) simp
  have inv: "plm_inv rs st" using plm_loop_inv [OF plm_inv_empty c(1)] by simp
  have check: "\<exists>u. check_bdf st b = Inr u" if "b \<in> set BDFS" for b
    using c(4) that by (auto simp: map_res_Inr_conv list_all2_conv_all_nth in_set_conv_nth)
  have keys: "(b, p, s) \<in> fst ` set (pl_traps st) \<longleftrightarrow> p \<in> {0, 1} \<and> s \<in> {0..21}" if "b \<in> set BDFS" for b p s
    using check [OF that] check_bdf_traps(1) [of st b] by blast
  have bdf: "b \<in> set BDFS" if "(b, p, s) \<in> fst ` set (pl_traps st)" for b p s
  proof -
    from that obtain vs where "((b, p, s), vs) \<in> set (pl_traps st)" by auto
    from inv have "map_res (\<lambda>(b, it). trap_entry b it) (of_kind ''TRAP'' rs) = Inr (pl_traps st)"
      by (simp add: plm_inv_def)
    from map_res_source [OF this \<open>((b, p, s), vs) \<in> set (pl_traps st)\<close>] obtain x
      where x: "x \<in> set (of_kind ''TRAP'' rs)" "(case x of (b, it) \<Rightarrow> trap_entry b it) = Inr ((b, p, s), vs)" by blast
    then have "fst x = b" by (auto simp: trap_entry_def bind_res_Inr_conv split: prod.splits)
    with x(1) inv show ?thesis using of_kind_bdf [of rs "fst x" "snd x"] by (auto simp: plm_inv_def)
  qed
  have traps: "fst ` set (pl_traps st) = set BDFS \<times> {0, 1} \<times> {0..21}"
  proof (rule set_eqI)
    fix key :: trap_key
    obtain b p s where key: "key = (b, p, s)" by (cases key)
    show "key \<in> fst ` set (pl_traps st) \<longleftrightarrow> key \<in> set BDFS \<times> {0, 1} \<times> {0..21}"
      using keys [of b p s] bdf [of b p s] unfolding key mem_Times_iff fst_conv snd_conv by blast
  qed
  have sum: "pm_all_traps r = map (\<lambda>b. map (trap_values st b 0) [0..21]) BDFS"
    "pm_differences r = map (\<lambda>s. (s, map (\<lambda>b. trap_values st b 0 s) BDFS))
       (filter (\<lambda>s. trap_values st (BDFS ! 0) 0 s \<noteq> trap_values st (BDFS ! 1) 0 s) [0..21])"
    using c(5) by (auto simp: plm_summarize_def bind_res_Inr_conv)
  have present: "map_of (pl_traps st) (b, 0, s) \<noteq> None" if "b \<in> set BDFS" "s \<in> {0..21}" for b s
    using traps that by (simp add: map_of_eq_None_iff)
  have "trap_values st (BDFS ! 0) 0 s \<noteq> trap_values st (BDFS ! 1) 0 s \<longleftrightarrow>
      map_of (pl_traps st) (BDFS ! 0, 0, s) \<noteq> map_of (pl_traps st) (BDFS ! 1, 0, s)" if "s \<in> {0..21}" for s
    using present [of "BDFS ! 0" s] present [of "BDFS ! 1" s] that by (auto simp: trap_values_def BDFS_def)
  then have differences: "fst ` set (pm_differences r) =
      {s \<in> {0..21}. map_of (pl_traps st) (BDFS ! 0, 0, s) \<noteq> map_of (pl_traps st) (BDFS ! 1, 0, s)}"
    unfolding sum by force
  have ends: "\<forall>b \<in> set BDFS. \<exists>it. (b, it) \<in> set (pl_end st) \<and> it ''hardware_writes'' = Some ''0''"
    using check check_bdf_traps(2) map_of_SomeD by meson
  have lists: "map fst (of_kind ''BEGIN'' rs) = pl_begin st" "distinct (pl_begin st)" "of_kind ''END'' rs = pl_end st"
    "distinct (map fst (pl_end st))" "map_res (\<lambda>(b, it). trap_entry b it) (of_kind ''TRAP'' rs) = Inr (pl_traps st)"
    "distinct (map fst (pl_traps st))" "list_all (\<lambda>(line, kind, it). \<exists>b \<in> set BDFS. it ''bdf'' = Some b) rs"
    using inv by (simp_all add: plm_inv_def)
  have "fst ` set (of_kind ''BEGIN'' rs) = set BDFS" using c(2) lists(1) by (metis list.set_map)
  with lists traps differences ends sum(1) show ?thesis
    unfolding trap_values_def by (intro conjI exI [of _ "pl_traps st"]) simp_all
qed

text \<open>A capture of two cards with the same values on both passes.\<close>

definition demo_slots :: "string list" where
  "demo_slots = [''0'', ''1'', ''2'', ''3'', ''4'', ''5'', ''6'', ''7'', ''8'', ''9'', ''10'', ''11'', ''12'', ''13'', ''14'', ''15'', ''16'', ''17'', ''18'', ''19'', ''20'', ''21'']"

definition demo_item :: "string \<Rightarrow> (string \<times> string) list \<Rightarrow> item" where
  "demo_item b kvs = map_of ((''bdf'', b) # kvs)"

definition demo_trap :: "string \<Rightarrow> string \<Rightarrow> string \<Rightarrow> item" where
  "demo_trap b p s = demo_item b [(''pass'', p), (''slot'', s), (''match'', []), (''mask'', []),
     (''data1'', []), (''data2'', []), (''action'', []), (''plm'', [])]"

definition demo_extra :: "string \<Rightarrow> string \<Rightarrow> item" where
  "demo_extra b p = demo_item b [(''pass'', p), (''boot_before'', ''0x140000a1''), (''boot_after'', ''0x140000a1''),
     (''fecs_plm_409650'', []), (''tensor_409664'', []), (''scratch30_15f8'', []), (''scratch31_15fc'', [])]"

definition traps_of :: "string \<Rightarrow> string \<Rightarrow> (string \<times> string \<times> item) list" where
  "traps_of b p = map (\<lambda>s. ([], ''TRAP'', demo_trap b p s)) demo_slots"

definition demo_end :: "string \<Rightarrow> item" where
  "demo_end b = demo_item b [(''passes'', ''2''), (''traps'', ''22''), (''hardware_writes'', ''0'')]"

definition demo_card :: "string \<Rightarrow> (string \<times> string \<times> item) list" where
  "demo_card b = ([], ''BEGIN'', demo_item b [(''pci'', ''10de:1d84''), (''driver'', ''nvidia'')]) #
     traps_of b ''0'' @ ([], ''EXTRA'', demo_extra b ''0'') # traps_of b ''1'' @ [([], ''EXTRA'', demo_extra b ''1''),
     ([], ''END'', demo_end b)]"

definition demo_records :: "(string \<times> string \<times> item) list" where
  "demo_records = demo_card ''0000:01:00.0'' @ demo_card ''0000:02:00.0''"

definition demo_entries :: "string \<Rightarrow> int \<Rightarrow> (trap_key \<times> string list) list" where
  "demo_entries b p = map (\<lambda>s. ((b, p, s), [[], [], [], [], [], []])) [0..21]"

lemma demo_numbers: "map py_int10 demo_slots = map Some [0..21]" "py_int10 ''0'' = Some 0" "py_int10 ''1'' = Some 1"
  by code_simp+

lemma demo_trap_entry:
  assumes "py_int10 p = Some q" and "q = 0 \<or> q = 1"
  shows "map_res (trap_entry b) (map (demo_trap b p) demo_slots) = Inr (demo_entries b q)"
proof -
  have slot: "trap_entry b (demo_trap b p s) = Inr ((b, q, i), [[], [], [], [], [], []])"
    if "py_int10 s = Some i" "0 \<le> i" "i \<le> 21" for s i
    using assms that
    by (auto simp: trap_entry_def plm_int_def item_lookup_def demo_trap_def demo_item_def FIELDS_def)
  have "list_all2 (\<lambda>s i. py_int10 s = Some i) demo_slots [0..21]"
    using demo_numbers(1) by (auto simp: list_all2_conv_all_nth dest: map_eq_imp_length_eq) (metis length_map nth_map)
  then have "list_all2 (\<lambda>s i. trap_entry b (demo_trap b p s) = Inr ((b, q, i), [[], [], [], [], [], []])) demo_slots [0..21]"
    by (rule list.rel_mono_strong) (auto intro: slot)
  then show ?thesis
    by (simp add: map_res_Inr_conv demo_entries_def list.rel_map)
qed

lemma plm_loop_traps:
  assumes "map_res (trap_entry b) items = Inr es" and "\<forall>it \<in> set items. it ''bdf'' = Some b" and "b \<in> set BDFS"
    and "distinct (map fst (pl_traps st @ es))"
  shows "plm_loop st (map (\<lambda>it. ([], ''TRAP'', it)) items @ rest) = plm_loop (st\<lparr>pl_traps := pl_traps st @ es\<rparr>) rest"
  using assms
proof (induction items arbitrary: st es)
  case (Cons it items)
  from Cons.prems(1) obtain e es' where e: "trap_entry b it = Inr e" "map_res (trap_entry b) items = Inr es'" "es = e # es'"
    by (auto simp: bind_res_Inr_conv)
  obtain key vs where ek: "e = (key, vs)" by (cases e)
  have "plm_step st ([], ''TRAP'', it) = Inr (st\<lparr>pl_traps := pl_traps st @ [e]\<rparr>)"
    using Cons.prems e ek by (auto simp: plm_step_def trap_step_def)
  then show ?case
    using Cons.IH [of es' "st\<lparr>pl_traps := pl_traps st @ [e]\<rparr>"] Cons.prems e by simp
qed simp

definition add_card :: "string \<Rightarrow> plm_state \<Rightarrow> plm_state" where
  "add_card b st = st\<lparr>pl_begin := pl_begin st @ [b], pl_traps := pl_traps st @ demo_entries b 0 @ demo_entries b 1,
     pl_extra := pl_extra st @ [((b, 0), demo_extra b ''0''), ((b, 1), demo_extra b ''1'')],
     pl_end := pl_end st @ [(b, demo_end b)]\<rparr>"

lemma demo_extra_step:
  assumes "py_int10 p = Some q" and "q = 0 \<or> q = 1" and "(b, q) \<notin> fst ` set (pl_extra st)" and "b \<in> set BDFS"
  shows "plm_step st ([], ''EXTRA'', demo_extra b p) = Inr (st\<lparr>pl_extra := pl_extra st @ [((b, q), demo_extra b p)]\<rparr>)"
  using assms by (auto simp: plm_step_def extra_step_def plm_int_def item_lookup_def demo_extra_def demo_item_def)

lemma demo_card_loop:
  assumes "b \<in> set BDFS" and "b \<notin> set (pl_begin st)" and "\<forall>k \<in> fst ` set (pl_traps st). fst k \<noteq> b"
    and "\<forall>k \<in> fst ` set (pl_extra st). fst k \<noteq> b" and "b \<notin> fst ` set (pl_end st)" and "distinct (map fst (pl_traps st))"
  shows "plm_loop st (demo_card b @ rest) = plm_loop (add_card b st) rest"
proof -
  have bdf: "\<forall>it \<in> set (map (demo_trap b p) demo_slots). it ''bdf'' = Some b" for p
    by (simp add: demo_trap_def demo_item_def)
  have traps: "traps_of b p = map (\<lambda>it. ([], ''TRAP'', it)) (map (demo_trap b p) demo_slots)" for p
    by (simp add: traps_of_def)
  have keys: "fst ` set (demo_entries b q) = {b} \<times> {q} \<times> {0..21}" "distinct (map fst (demo_entries b q))" for q
    by (auto simp: demo_entries_def comp_def distinct_map inj_on_def image_image)
  define st1 where "st1 = st\<lparr>pl_begin := pl_begin st @ [b]\<rparr>"
  define st2 where "st2 = st1\<lparr>pl_traps := pl_traps st @ demo_entries b 0\<rparr>"
  define st3 where "st3 = st2\<lparr>pl_extra := pl_extra st @ [((b, 0), demo_extra b ''0'')]\<rparr>"
  define st4 where "st4 = st3\<lparr>pl_traps := (pl_traps st @ demo_entries b 0) @ demo_entries b 1\<rparr>"
  define st5 where "st5 = st4\<lparr>pl_extra := (pl_extra st @ [((b, 0), demo_extra b ''0'')]) @ [((b, 1), demo_extra b ''1'')]\<rparr>"
  have s1: "plm_step st ([], ''BEGIN'', demo_item b [(''pci'', ''10de:1d84''), (''driver'', ''nvidia'')]) = Inr st1"
    using assms(1,2) by (simp add: plm_step_def begin_step_def demo_item_def st1_def)
  have s2: "plm_loop st1 (traps_of b ''0'' @ tl) = plm_loop st2 tl" for tl
    unfolding traps using assms keys [of 0]
    by (subst plm_loop_traps [OF demo_trap_entry [OF demo_numbers(2)] bdf assms(1)]) (auto simp: st1_def st2_def)
  have s3: "plm_step st2 ([], ''EXTRA'', demo_extra b ''0'') = Inr st3"
    using assms demo_extra_step [OF demo_numbers(2), of b st2] by (force simp: st1_def st2_def st3_def)
  have s4: "plm_loop st3 (traps_of b ''1'' @ tl) = plm_loop st4 tl" for tl
    unfolding traps using assms keys [of 0] keys [of 1]
    by (subst plm_loop_traps [OF demo_trap_entry [OF demo_numbers(3)] bdf assms(1)]) (auto simp: st1_def st2_def st3_def st4_def)
  have s5: "plm_step st4 ([], ''EXTRA'', demo_extra b ''1'') = Inr st5"
    using assms demo_extra_step [OF demo_numbers(3), of b st4] by (force simp: st1_def st2_def st3_def st4_def st5_def)
  have s6: "plm_step st5 ([], ''END'', demo_end b) = Inr (add_card b st)"
    using assms by (simp add: plm_step_def end_step_def demo_end_def demo_item_def add_card_def st1_def st2_def st3_def st4_def st5_def)
  show ?thesis
    unfolding demo_card_def by (simp only: append_Cons append_assoc append_Nil plm_loop.simps bind_res_simps s1 s2 s3 s4 s5 s6)
qed

definition demo_state :: plm_state where
  "demo_state = add_card ''0000:02:00.0'' (add_card ''0000:01:00.0'' empty_plm)"

lemma demo_loop: "plm_loop empty_plm demo_records = Inr demo_state"
proof -
  have e: "fst ` set (demo_entries b q) = {b} \<times> {q} \<times> {0..21}" "distinct (map fst (demo_entries b q))" for b q
    by (auto simp: demo_entries_def comp_def distinct_map inj_on_def image_image)
  have "plm_loop empty_plm (demo_card ''0000:01:00.0'' @ demo_card ''0000:02:00.0'') =
      plm_loop (add_card ''0000:01:00.0'' empty_plm) (demo_card ''0000:02:00.0'' @ [])"
    by (subst demo_card_loop) (simp_all add: BDFS_def empty_plm_def)
  also have "\<dots> = plm_loop demo_state []"
    unfolding demo_state_def
  proof (rule demo_card_loop)
    show "\<forall>k \<in> fst ` set (pl_traps (add_card ''0000:01:00.0'' empty_plm)). fst k \<noteq> ''0000:02:00.0''"
      by (auto simp: add_card_def empty_plm_def image_Un e)
    show "distinct (map fst (pl_traps (add_card ''0000:01:00.0'' empty_plm)))"
      using e by (auto simp: add_card_def empty_plm_def)
  qed (simp_all add: BDFS_def add_card_def empty_plm_def)
  finally show ?thesis by (simp add: demo_records_def)
qed

lemma demo_key_lists:
  "trap_passes (add_card b st) c = trap_passes st c @ (if b = c then replicate 22 0 @ replicate 22 1 else [])"
  "slots_of (add_card b st) c q = slots_of st c q @ (if b = c \<and> (q = 0 \<or> q = 1) then [0..21] else [])"
  "extra_passes (add_card b st) c = extra_passes st c @ (if b = c then [0, 1] else [])"
proof -
  have "map (\<lambda>_. q) [0..21] = replicate 22 q" for q :: int by (simp add: map_replicate_const)
  then show "trap_passes (add_card b st) c = trap_passes st c @ (if b = c then replicate 22 0 @ replicate 22 1 else [])"
    by (simp add: trap_passes_def add_card_def demo_entries_def filter_map comp_def filter_empty_conv)
  show "slots_of (add_card b st) c q = slots_of st c q @ (if b = c \<and> (q = 0 \<or> q = 1) then [0..21] else [])"
    by (auto simp: slots_of_def add_card_def demo_entries_def filter_map comp_def filter_empty_conv)
  show "extra_passes (add_card b st) c = extra_passes st c @ (if b = c then [0, 1] else [])"
    by (simp add: extra_passes_def add_card_def)
qed

lemma demo_lists: "trap_passes empty_plm c = []" "slots_of empty_plm c q = []" "extra_passes empty_plm c = []"
  by (simp_all add: trap_passes_def slots_of_def extra_passes_def empty_plm_def)

lemma demo_check:
  assumes "b \<in> set BDFS"
  shows "check_bdf demo_state b = Inr ()"
proof -
  have lists: "trap_passes demo_state b = replicate 22 0 @ replicate 22 1" "slots_of demo_state b 0 = [0..21]"
    "slots_of demo_state b 1 = [0..21]" "extra_passes demo_state b = [0, 1]" "map_of (pl_end demo_state) b = Some (demo_end b)"
    using assms by (auto simp: BDFS_def demo_state_def demo_key_lists demo_lists)
      (simp_all add: add_card_def empty_plm_def)
  have sets: "set (replicate 22 0 @ replicate 22 1) = {0, 1 :: int}" "set [0, 1 :: int] = {0, 1}"
    "replicate 22 0 @ replicate 22 (1 :: int) \<noteq> []"
    by auto
  have e: "demo_end b ''passes'' = Some ''2''" "demo_end b ''traps'' = Some ''22''" "demo_end b ''hardware_writes'' = Some ''0''"
    by (simp_all add: demo_end_def demo_item_def)
  show ?thesis unfolding check_bdf_def lists sets e by (simp add: e)
qed

lemma demo_summary: "\<exists>r. plm_summarize demo_state = Inr r"
proof -
  have extra: "extra_item demo_state b 0 = demo_extra b ''0''" "extra_item demo_state b 1 = demo_extra b ''1''" if "b \<in> set BDFS" for b
    using that by (auto simp: extra_item_def demo_state_def add_card_def empty_plm_def BDFS_def)
  have look: "item_lookup (demo_extra b p) k = Inr []"
    if "k \<in> {''fecs_plm_409650'', ''tensor_409664'', ''scratch30_15f8'', ''scratch31_15fc''}" for b p k
    using that by (auto simp: item_lookup_def demo_extra_def demo_item_def)
  have st: "\<exists>x. plm_stable demo_state b = Inr x" if "b \<in> set BDFS" for b
    using that by (simp add: plm_stable_def extra look) blast
  obtain ys where "map_res (plm_stable demo_state) BDFS = Inr ys" using map_res_total [of BDFS "plm_stable demo_state"] st by blast
  moreover have "map_res (\<lambda>b. item_lookup (extra_item demo_state b 0) k) BDFS = Inr [[], []]"
    if "k \<in> {''fecs_plm_409650'', ''tensor_409664'', ''scratch30_15f8'', ''scratch31_15fc''}" for k
    using extra(1) look [OF that] by (simp add: BDFS_def)
  moreover have "map_res (\<lambda>b. bind_res (item_lookup (extra_item demo_state b 0) ''scratch30_15f8'') (\<lambda>x.
      bind_res (item_lookup (extra_item demo_state b 0) ''scratch31_15fc'') (\<lambda>y. Inr (x, y)))) BDFS = Inr [([], []), ([], [])]"
    using extra(1) look by (simp add: BDFS_def)
  ultimately show ?thesis by (simp add: plm_summarize_def)
qed

lemma demo_accepted: "\<exists>r. plm_check demo_records = Inr r"
proof -
  have m: "set (pl_begin demo_state) = set BDFS" "fst ` set (pl_end demo_state) = set BDFS"
    by (auto simp: demo_state_def add_card_def empty_plm_def BDFS_def)
  have "map_res (check_bdf demo_state) BDFS = Inr [(), ()]"
    using demo_check by (simp add: BDFS_def)
  with demo_summary show ?thesis by (simp add: plm_check_def demo_loop m)
qed

theorem plm_accepted_witness:
  "fst ` set (of_kind ''BEGIN'' demo_records) = {''0000:01:00.0'', ''0000:02:00.0''}"
proof -
  from demo_accepted obtain r where "plm_check demo_records = Inr r" ..
  from plm_accepted [OF this] have "fst ` set (of_kind ''BEGIN'' demo_records) = set BDFS" by (elim conjE)
  then show ?thesis by (simp only: BDFS_def list.set)
qed

end
