(* ===== verification/InfoRom.thy ===== *)
theory InfoRom
  imports PyBytes
begin

text \<open>
  \<^verbatim>\<open>tools/analyze_inforom.py\<close>: the structure read from saved InfoROM images. The images are
  the arguments of \<open>inforom_main\<close>, \<^term>\<open>None\<close> for a path that is not a file; the printed
  lines are the fields of records, and the digests are left out. The scanner for printable runs is
  compared with a declarative definition of maximal runs.
\<close>

definition PRINTABLE :: "byte \<Rightarrow> bool" where
  "PRINTABLE b \<longleftrightarrow> 0x20 \<le> uint b \<and> uint b \<le> 0x7E"

subsection \<open>Printable runs\<close>

text \<open>The loop over \<^verbatim>\<open>enumerate(data + b"\x00")\<close> with the variable \<^verbatim>\<open>start\<close>.\<close>

fun runs_loop :: "nat \<Rightarrow> bytes \<Rightarrow> nat \<Rightarrow> nat option \<Rightarrow> bytes \<Rightarrow> (nat \<times> bytes) list" where
  "runs_loop minimum dat index start [] = []"
| "runs_loop minimum dat index start (b # bs) =
     (if PRINTABLE b
      then runs_loop minimum dat (Suc index) (case start of None \<Rightarrow> Some index | Some s \<Rightarrow> Some s) bs
      else (case start of
              None \<Rightarrow> []
            | Some s \<Rightarrow> if index - s \<ge> minimum then [(s, slice s index dat)] else []) @
           runs_loop minimum dat (Suc index) None bs)"

definition ascii_runs :: "bytes \<Rightarrow> (nat \<times> bytes) list" where
  "ascii_runs dat = runs_loop 4 dat 0 None (dat @ [0])"

subsection \<open>The directory and its objects\<close>

datatype inforom_error = StructError | IndexError | MissingInput

definition ROM :: bytes where "ROM = [0x52, 0x4F, 0x4D]"

function entries_loop :: "bytes \<Rightarrow> nat \<Rightarrow> inforom_error + (bytes \<times> int) list" where
  "entries_loop dat cursor =
     (if cursor + 5 \<le> 0x40
      then let tag = slice cursor (cursor + 3) dat in
        if \<not> list_all PRINTABLE tag then Inr []
        else bind_res (of_option StructError (get_u16 dat (cursor + 3))) (\<lambda>offset.
          bind_res (entries_loop dat (cursor + 5)) (\<lambda>es. Inr ((tag, offset) # es)))
      else Inr [])"
  by pat_completeness auto
termination by (relation "measure (\<lambda>(dat, cursor). 0x40 - cursor)") auto

declare entries_loop.simps [simp del]

definition directory_entries :: "bytes \<Rightarrow> inforom_error + (bytes \<times> int) list" where
  "directory_entries dat = (if length dat < 0x40 \<or> slice 0 3 dat \<noteq> ROM then Inr [] else entries_loop dat 0x0E)"

text \<open>A described object; \<^term>\<open>None\<close> for one marked invalid.\<close>

record rom_object =
  ro_tag :: bytes
  ro_version :: "byte \<times> byte"
  ro_declared_size :: int
  ro_span :: int
  ro_nonzero :: int

definition zero_count :: "bytes \<Rightarrow> int" where
  "zero_count bs = int (length (filter (\<lambda>b. b = 0) bs))"

definition object_at :: "bytes \<Rightarrow> int \<Rightarrow> int \<Rightarrow> inforom_error + rom_object option" where
  "object_at dat offset next_offset =
     (if offset + 8 > int (length dat) then Inr None
      else bind_res (of_option StructError (get_u16 dat (nat offset + 5))) (\<lambda>declared.
        let span = max 0 (min next_offset (int (length dat)) - offset);
            payload = slice (nat offset) (nat (offset + span)) dat
        in Inr (Some \<lparr>ro_tag = slice (nat offset) (nat offset + 3) dat,
             ro_version = (dat ! (nat offset + 3), dat ! (nat offset + 4)),
             ro_declared_size = declared, ro_span = span, ro_nonzero = span - zero_count payload\<rparr>)))"

text \<open>The next offset is that of the following entry, or the end of the image.\<close>

fun objects_of :: "bytes \<Rightarrow> (bytes \<times> int) list \<Rightarrow> inforom_error + (bytes \<times> int \<times> rom_object option) list" where
  "objects_of dat [] = Inr []"
| "objects_of dat ((tag, offset) # es) =
     bind_res (object_at dat offset (case es of [] \<Rightarrow> int (length dat) | (_, n) # _ \<Rightarrow> n)) (\<lambda>ob.
     bind_res (objects_of dat es) (\<lambda>obs. Inr ((tag, offset, ob) # obs)))"

record rom_report =
  rr_size :: int
  rr_zero :: int
  rr_nonzero :: int
  rr_header_version :: "(byte \<times> byte) option"
  rr_objects :: "(bytes \<times> int \<times> rom_object option) list"
  rr_ascii :: "(nat \<times> bytes) list"

definition rom_analyze :: "bytes \<Rightarrow> inforom_error + rom_report" where
  "rom_analyze dat =
     bind_res (directory_entries dat) (\<lambda>es.
     bind_res (objects_of dat es) (\<lambda>obs.
     Inr \<lparr>rr_size = int (length dat), rr_zero = zero_count dat, rr_nonzero = int (length dat) - zero_count dat,
          rr_header_version = (if es = [] then None else Some (dat ! 3, dat ! 4)),
          rr_objects = obs, rr_ascii = ascii_runs dat\<rparr>))"

subsection \<open>The comparison\<close>

record rom_comparison =
  rc_diffs :: "(nat \<times> byte \<times> byte) list"
  rc_common :: nat
  rc_delta :: int

definition compare_pair :: "bytes \<Rightarrow> bytes \<Rightarrow> rom_comparison" where
  "compare_pair base dat = (let common = min (length base) (length dat) in
     \<lparr>rc_diffs = map (\<lambda>i. (i, base ! i, dat ! i)) (filter (\<lambda>i. base ! i \<noteq> dat ! i) [0..<common]),
      rc_common = common, rc_delta = int (length dat) - int (length base)\<rparr>)"

definition rom_compare :: "bytes list \<Rightarrow> rom_comparison list" where
  "rom_compare blobs = (if length blobs < 2 then [] else map (compare_pair (blobs ! 0)) (tl blobs))"

definition inforom_main :: "bytes option list \<Rightarrow> inforom_error + rom_report list \<times> rom_comparison list" where
  "inforom_main images =
     (if None \<in> set images then Inl MissingInput
      else let blobs = map the images in
        bind_res (map_res rom_analyze blobs) (\<lambda>reports. Inr (reports, rom_compare blobs)))"

subsection \<open>The scanner finds exactly the maximal runs\<close>

definition maximal_run :: "bytes \<Rightarrow> nat \<Rightarrow> nat \<Rightarrow> bool" where
  "maximal_run dat s e \<longleftrightarrow> s < e \<and> e \<le> length dat \<and> (\<forall>i \<in> {s..<e}. PRINTABLE (dat ! i)) \<and>
     (s = 0 \<or> \<not> PRINTABLE (dat ! (s - 1))) \<and> (e = length dat \<or> \<not> PRINTABLE (dat ! e))"

text \<open>What the variable \<^verbatim>\<open>start\<close> says about the bytes before the index.\<close>

definition start_ok :: "bytes \<Rightarrow> nat \<Rightarrow> nat option \<Rightarrow> bool" where
  "start_ok dat index start = (case start of
     None \<Rightarrow> index = 0 \<or> \<not> PRINTABLE ((dat @ [0]) ! (index - 1))
   | Some s \<Rightarrow> s < index \<and> (\<forall>i \<in> {s..<index}. PRINTABLE (dat ! i)) \<and> (s = 0 \<or> \<not> PRINTABLE (dat ! (s - 1))))"

lemma not_printable_zero: "\<not> PRINTABLE 0"
  by (simp add: PRINTABLE_def)

text \<open>A maximal run that ends at an index where the scanner knows the start, begins there.\<close>

lemma run_ending:
  assumes "start_ok dat index start" and "maximal_run dat s index"
  shows "start = Some s"
proof (cases start)
  case None
  have m: "s < index" "index \<le> length dat" "\<forall>i \<in> {s..<index}. PRINTABLE (dat ! i)"
    using assms(2) by (simp_all add: maximal_run_def)
  then have "index - 1 \<in> {s..<index}" by simp
  with m have "PRINTABLE (dat ! (index - 1))" "index - 1 < length dat" "index \<noteq> 0" by auto
  with None assms(1) show ?thesis by (simp add: start_ok_def nth_append)
next
  case (Some t)
  have "t = s"
  proof (rule ccontr)
    assume "t \<noteq> s"
    then consider "t < s" | "s < t" by linarith
    then show False
    proof cases
      case 1
      with assms Some have "s - 1 \<in> {t..<index}" "\<forall>i \<in> {t..<index}. PRINTABLE (dat ! i)"
        by (auto simp: start_ok_def maximal_run_def)
      with 1 assms(2) show False by (auto simp: maximal_run_def)
    next
      case 2
      with assms Some have "t - 1 \<in> {s..<index}" "\<forall>i \<in> {s..<index}. PRINTABLE (dat ! i)"
        by (auto simp: start_ok_def maximal_run_def)
      with 2 assms(1) Some show False by (auto simp: start_ok_def)
    qed
  qed
  with Some show ?thesis by simp
qed

text \<open>The runs that end at the index: at most the one that is open, when no printable byte follows.\<close>

lemma runs_at:
  assumes "start_ok dat index start" and "index \<le> length dat"
  shows "maximal_run dat s index \<longleftrightarrow> start = Some s \<and> \<not> PRINTABLE ((dat @ [0]) ! index)"
  using run_ending [OF assms(1), of s] assms not_printable_zero
  by (auto simp: maximal_run_def start_ok_def nth_append)

lemma start_step:
  assumes "start_ok dat index start" and "index \<le> length dat"
  shows "start_ok dat (Suc index) (if PRINTABLE ((dat @ [0]) ! index)
    then (case start of None \<Rightarrow> Some index | Some s \<Rightarrow> Some s) else None)"
proof (cases "PRINTABLE ((dat @ [0]) ! index)")
  case True
  with assms(2) not_printable_zero have d: "index < length dat" "PRINTABLE (dat ! index)"
    by (auto simp: nth_append split: if_splits)
  show ?thesis
  proof (cases start)
    case None
    have "index = 0 \<or> \<not> PRINTABLE (dat ! (index - 1))"
      using assms(1) None d(1) by (auto simp: start_ok_def nth_append split: if_splits)
    with None True d show ?thesis by (simp add: start_ok_def)
  next
    case (Some s)
    have "{s..<Suc index} = insert index {s..<index}" if "s < index" using that by auto
    with Some True d assms(1) show ?thesis by (simp add: start_ok_def)
  qed
qed (simp add: start_ok_def)

definition runs_from :: "nat \<Rightarrow> bytes \<Rightarrow> nat \<Rightarrow> (nat \<times> bytes) set" where
  "runs_from m dat index = {(s, slice s e dat) | s e. maximal_run dat s e \<and> index \<le> e \<and> m \<le> e - s}"

lemma runs_from_step:
  "runs_from m dat index = {(s, slice s index dat) | s. maximal_run dat s index \<and> m \<le> index - s} \<union> runs_from m dat (Suc index)"
proof -
  have mem: "(s, r) \<in> runs_from m dat i \<longleftrightarrow> (\<exists>e. i \<le> e \<and> r = slice s e dat \<and> maximal_run dat s e \<and> m \<le> e - s)" for s r i
    by (auto simp: runs_from_def)
  have split: "(\<exists>e\<ge>index. Q e) \<longleftrightarrow> Q index \<or> (\<exists>e\<ge>Suc index. Q e)" for Q :: "nat \<Rightarrow> bool"
    by (metis Suc_leD Suc_leI le_eq_less_or_eq)
  have "(s, r) \<in> runs_from m dat index \<longleftrightarrow>
      (r = slice s index dat \<and> maximal_run dat s index \<and> m \<le> index - s) \<or> (s, r) \<in> runs_from m dat (Suc index)" for s r
    unfolding mem by (rule split)
  then show ?thesis by (intro set_eqI) (simp add: split_paired_all)
qed

lemma runs_from_end: "runs_from m dat (Suc (length dat)) = {}"
  by (auto simp: runs_from_def maximal_run_def)

lemma runs_loop_set:
  assumes "drop index (dat @ [0]) = bs" and "index \<le> Suc (length dat)" and "start_ok dat index start"
  shows "set (runs_loop m dat index start bs) = runs_from m dat index"
  using assms
proof (induction m dat index start bs rule: runs_loop.induct)
  case (1 m dat index start)
  then have "index = Suc (length dat)" by (cases "index \<le> length dat") simp_all
  then show ?case by (simp add: runs_from_end)
next
  case (2 m dat index start b bs)
  have i: "index < length (dat @ [0])" using "2.prems"(1) by (metis drop_all list.distinct(1) not_less)
  then have b: "b = (dat @ [0]) ! index" and bs: "drop (Suc index) (dat @ [0]) = bs"
    using "2.prems"(1) by (metis Cons_nth_drop_Suc list.inject)+
  note step = start_step [OF "2.prems"(3), folded b] and at = runs_at [OF "2.prems"(3), folded b]
  show ?case
  proof (cases "PRINTABLE b")
    case True
    with "2.IH"(1) [OF True bs] i step at show ?thesis by (simp add: runs_from_step [of m dat index])
  next
    case False
    with "2.IH"(2) [OF False bs] i step at show ?thesis
      by (auto simp: runs_from_step [of m dat index] split: option.splits)
  qed
qed

lemma runs_loop_order:
  assumes "case start of None \<Rightarrow> True | Some s \<Rightarrow> s < index"
  shows "sorted_wrt (<) (map fst (runs_loop m dat index start bs)) \<and>
    (\<forall>x \<in> set (runs_loop m dat index start bs). case start of None \<Rightarrow> index \<le> fst x | Some t \<Rightarrow> t \<le> fst x)"
  using assms
proof (induction m dat index start bs rule: runs_loop.induct)
  case (2 m dat index start b bs)
  then show ?case by (cases "PRINTABLE b") (fastforce split: option.splits)+
qed simp

text \<open>
  C37: The one-pass scanner reports exactly the maximal runs of printable bytes of length at least four,
  each with its offset and its bytes, in strictly ascending order; a run that reaches the end of the
  image is closed by the added zero byte.
\<close>

theorem ascii_runs_exact:
  "set (ascii_runs dat) = {(s, slice s e dat) | s e. maximal_run dat s e \<and> 4 \<le> e - s} \<and>
   sorted_wrt (<) (map fst (ascii_runs dat))"
proof -
  have "start_ok dat 0 None" by (simp add: start_ok_def)
  with runs_loop_set [of 0 dat "dat @ [0]" None 4] runs_loop_order [where start = None and index = 0 and m = 4 and dat = dat and bs = "dat @ [0]"]
  show ?thesis by (simp add: ascii_runs_def runs_from_def)
qed

subsection \<open>The directory is read inside the header\<close>

lemma entries_loop_stop:
  "\<not> (cursor + 5 \<le> 0x40 \<and> list_all PRINTABLE (slice cursor (cursor + 3) dat)) \<Longrightarrow> entries_loop dat cursor = Inr []"
  by (subst entries_loop.simps) (simp only: Let_def, argo)

lemma entries_loop_go:
  "cursor + 5 \<le> 0x40 \<and> list_all PRINTABLE (slice cursor (cursor + 3) dat) \<Longrightarrow>
   entries_loop dat cursor = bind_res (of_option StructError (get_u16 dat (cursor + 3))) (\<lambda>offset.
     bind_res (entries_loop dat (cursor + 5)) (\<lambda>es. Inr ((slice cursor (cursor + 3) dat, offset) # es)))"
  by (subst entries_loop.simps) (simp add: Let_def)

lemma entries_loop_ok: "0x40 \<le> length dat \<Longrightarrow> \<exists>es. entries_loop dat cursor = Inr es"
proof (induction dat cursor rule: entries_loop.induct)
  case (1 dat cursor)
  show ?case
  proof (cases "cursor + 5 \<le> 0x40 \<and> list_all PRINTABLE (slice cursor (cursor + 3) dat)")
    case True
    with "1.prems" obtain offset where "get_u16 dat (cursor + 3) = Some offset" by (simp add: get_u16_def get_field_def)
    moreover from True "1.IH" "1.prems" obtain es where "entries_loop dat (cursor + 5) = Inr es" by blast
    ultimately show ?thesis by (simp add: entries_loop_go [OF True])
  next
    case False
    then show ?thesis by (simp add: entries_loop_stop)
  qed
qed

lemma object_at_ok: "0 \<le> offset \<Longrightarrow> \<exists>ob. object_at dat offset n = Inr ob"
  by (auto simp: object_at_def get_u16_def get_field_def Let_def)

lemma entries_loop_offsets: "entries_loop dat cursor = Inr es \<Longrightarrow> \<forall>(tag, offset) \<in> set es. 0 \<le> offset"
proof (induction dat cursor arbitrary: es rule: entries_loop.induct)
  case (1 dat cursor)
  show ?case
  proof (cases "cursor + 5 \<le> 0x40 \<and> list_all PRINTABLE (slice cursor (cursor + 3) dat)")
    case True
    with "1.prems" obtain offset es' where e: "get_u16 dat (cursor + 3) = Some offset"
      "entries_loop dat (cursor + 5) = Inr es'" "es = (slice cursor (cursor + 3) dat, offset) # es'"
      by (auto simp: entries_loop_go [OF True] bind_res_Inr_conv)
    then have "0 \<le> offset" using le_value_bounds by (auto simp: get_u16_def get_field_def split: if_splits)
    with e True "1.IH" show ?thesis by simp
  next
    case False
    with "1.prems" show ?thesis by (simp add: entries_loop_stop)
  qed
qed

lemma objects_of_ok: "\<forall>(tag, offset) \<in> set es. 0 \<le> offset \<Longrightarrow> \<exists>obs. objects_of dat es = Inr obs"
proof (induction es)
  case (Cons e es)
  obtain tag offset where e: "e = (tag, offset)" by (cases e)
  from Cons obtain obs where "objects_of dat es = Inr obs" by auto
  moreover obtain ob where "object_at dat offset (case es of [] \<Rightarrow> int (length dat) | (_, n) # _ \<Rightarrow> n) = Inr ob"
    using object_at_ok Cons.prems e by force
  ultimately show ?case by (simp add: e)
qed simp

text \<open>No bytes make the analysis raise: the reads of the directory and of the objects stay inside the image.\<close>

lemma rom_analyze_ok: "\<exists>r. rom_analyze dat = Inr r"
proof -
  obtain es where "directory_entries dat = Inr es" "\<forall>(tag, offset) \<in> set es. 0 \<le> offset"
  proof (cases "length dat < 0x40 \<or> slice 0 3 dat \<noteq> ROM")
    case True
    with that [of "[]"] show thesis by (simp add: directory_entries_def)
  next
    case False
    then obtain es where "entries_loop dat 0x0E = Inr es" using entries_loop_ok [of dat "0x0E"] by auto
    with False entries_loop_offsets [OF this] that [of es] show thesis by (simp add: directory_entries_def)
  qed
  with objects_of_ok [of es dat] show ?thesis by (auto simp: rom_analyze_def)
qed

lemma inforom_total: "None \<notin> set images \<Longrightarrow> \<exists>r. inforom_main images = Inr r"
proof -
  have "\<exists>rs. map_res rom_analyze blobs = Inr rs" for blobs
  proof (induction blobs)
    case (Cons b blobs)
    with rom_analyze_ok [of b] show ?case by auto
  qed simp
  then show "None \<notin> set images \<Longrightarrow> \<exists>r. inforom_main images = Inr r"
    by (auto simp: inforom_main_def) (metis bind_res_simps(2))
qed

lemma compare_equal: "rc_diffs (compare_pair a b) = [] \<and> rc_delta (compare_pair a b) = 0 \<longleftrightarrow> a = b"
proof
  assume d: "rc_diffs (compare_pair a b) = [] \<and> rc_delta (compare_pair a b) = 0"
  then have "length a = length b" by (simp add: compare_pair_def Let_def)
  with d show "a = b" by (intro nth_equalityI) (simp_all add: compare_pair_def Let_def filter_empty_conv)
qed (simp add: compare_pair_def)

end
