(* ===== verification/LiveTopology.thy ===== *)
theory LiveTopology
  imports Topology PyBytes
begin

text \<open>
  The capture of \<^verbatim>\<open>tools/cmp100-sm-topology-readonly.py\<close>: the guards before the first read of
  the register window, the table of registers, the reads through one mapped page each, and the
  assembled result. The host is the record \<open>host\<close>: the attribute files of the device directory,
  its driver link, the first bytes of its configuration space and its register window. Nothing of
  the host is a result of the capture: the tool has no write.
\<close>

subsection \<open>The host\<close>

record host =
  ho_attribute :: "string \<Rightarrow> string option"
  ho_driver :: "string option"
  ho_config :: "bytes option"
  ho_window :: "nat \<Rightarrow> byte"
  ho_window_size :: nat
  ho_page_size :: nat

datatype live_error =
    UsageError
  | OsError
  | UnexpectedAdapter string string
  | RefusedDriver string
  | NotActive string
  | DecodingDisabled
  | ShortWindow nat
  | TopologyError topology_error

text \<open>\<^verbatim>\<open>re.fullmatch\<close> of the bus address: hexadecimal digits at fixed places.\<close>

definition bdf_pattern :: "(char \<Rightarrow> bool) list" where
  "bdf_pattern = replicate 4 is_hex_char @ [\<lambda>c. c = CHR '':''] @ replicate 2 is_hex_char @ [\<lambda>c. c = CHR '':''] @
     [\<lambda>c. c = CHR ''0'' \<or> c = CHR ''1'', is_hex_char, \<lambda>c. c = CHR ''.'', \<lambda>c. c \<in> set ''01234567'']"

definition valid_bdf :: "string \<Rightarrow> bool" where
  "valid_bdf s \<longleftrightarrow> matches_pattern bdf_pattern s"

definition read_attribute :: "host \<Rightarrow> string \<Rightarrow> live_error + string" where
  "read_attribute h name = map_sum id strip (of_option OsError (ho_attribute h name))"

definition KNOWN_DEVICES :: "string set" where
  "KNOWN_DEVICES = {''0x1d84'', ''0x1df4'', ''0x1db4'', ''0x1dc1'', ''0x1d81''}"

text \<open>All checks that precede the first access to the register window.\<close>

definition capture_guards :: "host \<Rightarrow> live_error + string \<times> string" where
  "capture_guards h =
     bind_res (read_attribute h ''vendor'') (\<lambda>vendor. bind_res (read_attribute h ''device'') (\<lambda>device.
     bind_res (ensure (vendor = ''0x10de'' \<and> device \<in> KNOWN_DEVICES) (UnexpectedAdapter vendor device)) (\<lambda>_.
     bind_res (ensure (ho_driver h \<in> {None, Some ''nvidia'', Some ''nouveau''}) (RefusedDriver (the (ho_driver h)))) (\<lambda>_.
     bind_res (read_attribute h ''power/runtime_status'') (\<lambda>runtime.
     bind_res (ensure (runtime = ''active'') (NotActive runtime)) (\<lambda>_.
     bind_res (of_option OsError (ho_config h)) (\<lambda>config. let header = take 8 config in
     bind_res (ensure (length header \<ge> 8 \<and> (\<exists>w. get_u16 header 4 = Some w \<and> w AND 2 \<noteq> 0)) DecodingDisabled) (\<lambda>_.
     Inr (vendor, device)))))))))"

subsection \<open>The registers\<close>

definition gpc_digit :: "nat \<Rightarrow> string" where
  "gpc_digit g = [char_of (48 + g)]"

definition gpc_registers :: "nat \<Rightarrow> (string \<times> nat) list" where
  "gpc_registers g =
     [(''gpc'' @ gpc_digit g @ ''_tpc_status'', 0x21c38 + 4 * g),
      (''gpc'' @ gpc_digit g @ ''_tpc_control'', 0x21838 + 4 * g),
      (''gpc'' @ gpc_digit g @ ''_reported_21760_candidate'', 0x21760 + 4 * g),
      (''gr_gpc'' @ gpc_digit g @ ''_available_tpcs'', 0x502608 + 0x8000 * g)]"

definition live_registers :: "(string \<times> nat) list" where
  "live_registers =
     [(''gpc_disable_status'', 0x21c1c), (''feature_override_disable_unresolved_scope'', 0x213f0),
      (''gr_topology'', 0x409604), (''compute_pipe_control'', 0x409664)] @ concat (map gpc_registers [0..<6])"

text \<open>One page is mapped and one little-endian word is read in it.\<close>

definition map_page :: "host \<Rightarrow> nat \<Rightarrow> live_error + bytes" where
  "map_page h page = (if page + ho_page_size h \<le> ho_window_size h
     then Inr (map (ho_window h) [page..<page + ho_page_size h]) else Inl OsError)"

definition read_register :: "host \<Rightarrow> nat \<Rightarrow> live_error + int" where
  "read_register h offset = (let page = offset div ho_page_size h * ho_page_size h in
     bind_res (map_page h page) (\<lambda>window. of_option (ShortWindow offset) (get_u32 window (offset - page))))"

definition read_registers :: "host \<Rightarrow> live_error + (string \<times> int) list" where
  "read_registers h = map_res (\<lambda>(label, offset). bind_res (read_register h offset) (\<lambda>v. Inr (label, v))) live_registers"

definition reg_value :: "(string \<times> int) list \<Rightarrow> string \<Rightarrow> int" where
  "reg_value values label = the (map_of values label)"

record live_capture =
  lc_bdf :: string
  lc_vendor :: string
  lc_device :: string
  lc_driver :: "string option"
  lc_values :: "(string \<times> int) list"
  lc_topology :: "sm_summary option"
  lc_gr :: gr_summary

definition live_main :: "host \<Rightarrow> string option \<Rightarrow> live_error + live_capture" where
  "live_main h arg = (case arg of
     None \<Rightarrow> Inl UsageError
   | Some bdf \<Rightarrow>
       bind_res (ensure (valid_bdf bdf) UsageError) (\<lambda>_.
       bind_res (capture_guards h) (\<lambda>(vendor, device).
       bind_res (read_registers h) (\<lambda>values.
       bind_res (map_sum TopologyError id (summarize (reg_value values ''gpc_disable_status'')
         (map (\<lambda>g. reg_value values (''gpc'' @ gpc_digit g @ ''_tpc_status'')) [0..<6]))) (\<lambda>topology.
       Inr \<lparr>lc_bdf = bdf, lc_vendor = vendor, lc_device = device, lc_driver = ho_driver h, lc_values = values,
            lc_topology = topology,
            lc_gr = gr_topology (reg_value values ''gr_topology'')
              (map (\<lambda>g. reg_value values (''gr_gpc'' @ gpc_digit g @ ''_available_tpcs'')) [0..<6])\<rparr>)))))"

text \<open>The tool's own self test.\<close>

definition sm_count_of :: "int \<Rightarrow> int list \<Rightarrow> int option" where
  "sm_count_of d s = (case summarize d s of Inr (Some m) \<Rightarrow> Some (sm_count m) | _ \<Rightarrow> None)"

definition self_test :: bool where
  "self_test \<longleftrightarrow> sm_count_of 0 (replicate 6 0) = Some 84 \<and> sm_count_of 0 [3, 3, 1, 1, 1, 1] = Some 68 \<and>
     sm_count_of 0 [1, 1, 0, 0, 0, 0] = Some 80 \<and> sm_count_of 1 (replicate 6 0) = Some 70 \<and>
     summarize 0 (0xffffffff # replicate 5 0) = Inr None"

lemma self_test_passes: self_test
  by code_simp

subsection \<open>What the capture says of the window\<close>

definition word_at :: "host \<Rightarrow> nat \<Rightarrow> int" where
  "word_at h offset = le_value (map (ho_window h) [offset..<offset + 4])"

lemma get_u32_window:
  "get_u32 (map f [p..<p + n]) k = (if k + 4 \<le> n then Some (le_value (map f [p + k..<p + k + 4])) else None)"
  by (auto simp: get_u32_def get_field_def slice_def drop_map take_map add.assoc min_def)

lemma read_register_word:
  assumes "read_register h offset = Inr v"
  shows "v = word_at h offset"
proof -
  have "offset div n * n + (offset - offset div n * n) = offset" for n :: nat
    by (simp add: div_times_less_eq_dividend)
  with assms show ?thesis
    by (auto simp: read_register_def Let_def bind_res_Inr_conv map_page_def get_u32_window word_at_def split: if_splits)
qed

lemma map_sum_Inr_conv: "map_sum f id r = Inr x \<longleftrightarrow> r = Inr x"
  by (cases r) simp_all

lemma read_attribute_Inr: "read_attribute h name = Inr s \<longleftrightarrow> map_option strip (ho_attribute h name) = Some s"
  by (cases "ho_attribute h name") (simp_all add: read_attribute_def)

lemma map_res_map:
  assumes "map_res f xs = Inr ys" and "\<And>x y. f x = Inr y \<Longrightarrow> y = g x"
  shows "ys = map g xs"
  using assms by (induction xs arbitrary: ys) (auto simp: bind_res_Inr_conv)

lemma read_registers_values:
  assumes "read_registers h = Inr values"
  shows "values = map (\<lambda>(label, offset). (label, word_at h offset)) live_registers"
  by (rule map_res_map [OF assms [unfolded read_registers_def]])
     (auto simp: bind_res_Inr_conv dest: read_register_word)

text \<open>The table has one entry for each label the result is assembled from.\<close>

lemma live_register_lookup:
  "map_of live_registers ''gpc_disable_status'' = Some 0x21c1c" "map_of live_registers ''gr_topology'' = Some 0x409604"
  "g < 6 \<Longrightarrow> map_of live_registers (''gpc'' @ gpc_digit g @ ''_tpc_status'') = Some (0x21c38 + 4 * g)"
  "g < 6 \<Longrightarrow> map_of live_registers (''gr_gpc'' @ gpc_digit g @ ''_available_tpcs'') = Some (0x502608 + 0x8000 * g)"
proof -
  have upt: "[0..<6] = [0, 1, 2, 3, 4, 5 :: nat]" by (simp add: upt_rec)
  note table = live_registers_def gpc_registers_def gpc_digit_def upt
  show "map_of live_registers ''gpc_disable_status'' = Some 0x21c1c" "map_of live_registers ''gr_topology'' = Some 0x409604"
    by (simp_all add: table)
  assume "g < 6"
  then consider "g = 0" | "g = 1" | "g = 2" | "g = 3" | "g = 4" | "g = 5" by linarith
  then show "map_of live_registers (''gpc'' @ gpc_digit g @ ''_tpc_status'') = Some (0x21c38 + 4 * g)"
    "map_of live_registers (''gr_gpc'' @ gpc_digit g @ ''_available_tpcs'') = Some (0x502608 + 0x8000 * g)"
    by (cases; simp add: table)+
qed

lemma reg_value_word:
  assumes "read_registers h = Inr values" and "map_of live_registers label = Some offset"
  shows "reg_value values label = word_at h offset"
  using assms(2) unfolding read_registers_values [OF assms(1)] reg_value_def by (simp add: map_of_map)

definition live_status :: "host \<Rightarrow> int list" where
  "live_status h = map (\<lambda>g. word_at h (0x21c38 + 4 * g)) [0..<6]"

text \<open>
  C38: A printed capture names a well-formed bus address and comes from a known NVIDIA card that is
  active, decodes memory and has no driver or an accepted one. Each reported value is the word of
  the register window at its listed offset, whatever the page size. The topology is left out only
  for an all-ones response; the SM count is twice the TPCs the status words leave enabled and at
  most 84, and a valid GR topology lists the counts of one to six GPCs and twice their sum.
\<close>

theorem live_capture_sound:
  assumes "live_main h (Some bdf) = Inr c"
  shows "valid_bdf bdf \<and> lc_vendor c = ''0x10de'' \<and> lc_device c \<in> KNOWN_DEVICES \<and>
    ho_driver h \<in> {None, Some ''nvidia'', Some ''nouveau''} \<and>
    map_option strip (ho_attribute h ''power/runtime_status'') = Some ''active'' \<and>
    (\<exists>cfg w. ho_config h = Some cfg \<and> get_u16 (take 8 cfg) 4 = Some w \<and> w AND 2 \<noteq> 0) \<and>
    lc_values c = map (\<lambda>(label, offset). (label, word_at h offset)) live_registers \<and>
    (lc_topology c = None \<longleftrightarrow> word_at h 0x21c1c = 0xffffffff \<or> 0xffffffff \<in> set (live_status h)) \<and>
    (\<forall>m. lc_topology c = Some m \<longrightarrow> sm_count m \<le> 84 \<and> sm_count m = 2 * sum_list (map (\<lambda>g.
        if word_at h 0x21c1c AND push_bit g 1 = 0 then 7 - bit_count (live_status h ! g AND 0x7f) else 0) [0..<6])) \<and>
    (gs_valid (lc_gr c) \<longrightarrow> (\<exists>n \<in> {1..6}. word_at h 0x409604 AND 0x1f = int n \<and>
      gs_counts (lc_gr c) = map (\<lambda>g. word_at h (0x502608 + 0x8000 * g) AND 0x1f) [0..<n] \<and>
      gs_sms (lc_gr c) = Some (2 * sum_list (gs_counts (lc_gr c)))))"
proof -
  from assms obtain vendor device vs where m: "valid_bdf bdf" "capture_guards h = Inr (vendor, device)"
    "read_registers h = Inr vs" "lc_vendor c = vendor" "lc_device c = device" "lc_values c = vs"
    "summarize (reg_value vs ''gpc_disable_status'')
       (map (\<lambda>g. reg_value vs (''gpc'' @ gpc_digit g @ ''_tpc_status'')) [0..<6]) = Inr (lc_topology c)"
    "lc_gr c = gr_topology (reg_value vs ''gr_topology'')
       (map (\<lambda>g. reg_value vs (''gr_gpc'' @ gpc_digit g @ ''_available_tpcs'')) [0..<6])"
    unfolding live_main_def option.case by (elim bind_res_InrE) (auto simp: map_sum_Inr_conv elim!: bind_res_InrE)
  note val_eq = reg_value_word [OF m(3)]
  have guards: "vendor = ''0x10de'' \<and> device \<in> KNOWN_DEVICES \<and> ho_driver h \<in> {None, Some ''nvidia'', Some ''nouveau''} \<and>
      map_option strip (ho_attribute h ''power/runtime_status'') = Some ''active'' \<and>
      (\<exists>cfg w. ho_config h = Some cfg \<and> get_u16 (take 8 cfg) 4 = Some w \<and> w AND 2 \<noteq> 0)"
    using m(2) unfolding capture_guards_def Let_def
    by (elim bind_res_InrE) (simp only: ensure_Inr read_attribute_Inr of_option_Inr sum.inject prod.inject, blast)
  have status: "map (\<lambda>g. reg_value vs (''gpc'' @ gpc_digit g @ ''_tpc_status'')) [0..<6] = live_status h"
    unfolding live_status_def by (rule map_cong [OF refl], rule val_eq [OF live_register_lookup(3)]) simp
  have available: "map (\<lambda>g. reg_value vs (''gr_gpc'' @ gpc_digit g @ ''_available_tpcs'')) [0..<6] =
      map (\<lambda>g. word_at h (0x502608 + 0x8000 * g)) [0..<6]"
    by (rule map_cong [OF refl], rule val_eq [OF live_register_lookup(4)]) simp
  note topo = m(7) [unfolded status val_eq [OF live_register_lookup(1)]]
  note gr = m(8) [unfolded available val_eq [OF live_register_lookup(2)]]
  have topology: "(lc_topology c = None \<longleftrightarrow> word_at h 0x21c1c = 0xffffffff \<or> 0xffffffff \<in> set (live_status h)) \<and>
      (\<forall>m. lc_topology c = Some m \<longrightarrow> sm_count m = 2 * physical_sum (word_at h 0x21c1c) (live_status h))"
  proof (cases "word_at h 0x21c1c = 0xffffffff \<or> 0xffffffff \<in> set (live_status h)")
    case True
    then have "summarize (word_at h 0x21c1c) (live_status h) = Inr None" by (simp add: summarize_def)
    with topo True show ?thesis by simp
  next
    case False
    then have "summarize (word_at h 0x21c1c) (live_status h) = Inr (Some \<lparr>
        sm_masks = map (\<lambda>g. enabled_mask (word_at h 0x21c1c) (live_status h ! g) g) [0..<6],
        sm_tpcs = physical_sum (word_at h 0x21c1c) (live_status h),
        sm_count = physical_sum (word_at h 0x21c1c) (live_status h) * 2,
        sm_tensor = physical_sum (word_at h 0x21c1c) (live_status h) * 16\<rparr>)"
      by (intro summarize_valid) (simp_all add: live_status_def)
    with topo have "Some \<lparr>
        sm_masks = map (\<lambda>g. enabled_mask (word_at h 0x21c1c) (live_status h ! g) g) [0..<6],
        sm_tpcs = physical_sum (word_at h 0x21c1c) (live_status h),
        sm_count = physical_sum (word_at h 0x21c1c) (live_status h) * 2,
        sm_tensor = physical_sum (word_at h 0x21c1c) (live_status h) * 16\<rparr> = lc_topology c" by simp
    from this [symmetric] False show ?thesis by simp
  qed
  have valid_gr: "\<exists>n \<in> {1..6}. word_at h 0x409604 AND 0x1f = int n \<and>
      gs_counts (lc_gr c) = map (\<lambda>g. word_at h (0x502608 + 0x8000 * g) AND 0x1f) [0..<n] \<and>
      gs_sms (lc_gr c) = Some (2 * sum_list (gs_counts (lc_gr c)))" if "gs_valid (lc_gr c)"
  proof -
    let ?n = "nat (word_at h 0x409604 AND 0x1f)"
    from that gr have n: "1 \<le> word_at h 0x409604 AND 0x1f" "word_at h 0x409604 AND 0x1f \<le> 6"
      by (simp_all add: gr_topology_def Let_def)
    then have "?n \<in> {1..6}" "min ?n 6 = ?n" by auto
    moreover have "gs_counts (lc_gr c) = map (\<lambda>g. word_at h (0x502608 + 0x8000 * g) AND 0x1f) [0..<?n]"
    proof -
      have "gs_counts (lc_gr c) = map (\<lambda>i. map (\<lambda>g. word_at h (0x502608 + 0x8000 * g)) [0..<6] ! i AND 0x1f) [0..<?n]"
        using gr calculation(2) by (simp add: gr_topology_def Let_def)
      also have "\<dots> = map (\<lambda>g. word_at h (0x502608 + 0x8000 * g) AND 0x1f) [0..<?n]"
      proof (rule map_cong [OF refl])
        fix x assume "x \<in> set [0..<?n]"
        with n have "x < 6" by simp
        then show "map (\<lambda>g. word_at h (0x502608 + 0x8000 * g)) [0..<6] ! x AND 0x1f = word_at h (0x502608 + 0x8000 * x) AND 0x1f"
          by (simp add: nth_map [of x "[0..<6]"] nth_upt [of 0 x 6, simplified])
      qed
      finally show ?thesis .
    qed
    moreover have "gs_sms (lc_gr c) = Some (2 * sum_list (gs_counts (lc_gr c)))"
      using gr that by (simp add: gr_topology_def Let_def)
    ultimately show ?thesis using n by (intro bexI [of _ ?n]) simp_all
  qed
  show ?thesis
    unfolding m(4-6) read_registers_values [OF m(3), symmetric] physical_sum_slots [symmetric]
    using m(1) guards topology valid_gr physical_sum_bounds [of "word_at h 0x21c1c" "live_status h"] by auto
qed

text \<open>A card whose window reads zero everywhere: all 84 SMs enabled, no GR topology.\<close>

definition demo_host :: host where
  "demo_host = \<lparr>ho_attribute = map_of [(''vendor'', ''0x10de''), (''device'', ''0x1d84''), (''power/runtime_status'', ''active'')],
     ho_driver = None, ho_config = Some [0xDE, 0x10, 0x84, 0x1D, 2, 0, 0, 0], ho_window = (\<lambda>_. 0),
     ho_window_size = 0x1000000, ho_page_size = 0x1000\<rparr>"

lemma read_register_ok:
  assumes "offset div ho_page_size h * ho_page_size h + ho_page_size h \<le> ho_window_size h"
    and "offset mod ho_page_size h + 4 \<le> ho_page_size h"
  shows "\<exists>v. read_register h offset = Inr v"
proof -
  have "offset - offset div ho_page_size h * ho_page_size h = offset mod ho_page_size h" by (simp add: minus_div_mult_eq_mod)
  with assms show ?thesis by (simp add: read_register_def Let_def map_page_def get_u32_window)
qed

lemma demo_registers: "\<exists>vs. read_registers demo_host = Inr vs"
proof -
  have upt: "[0..<6] = [0, 1, 2, 3, 4, 5 :: nat]" by (simp add: upt_rec)
  have "list_all (\<lambda>(label, offset). offset div 0x1000 * 0x1000 + 0x1000 \<le> 0x1000000 \<and> offset mod 0x1000 + 4 \<le> 0x1000)
    live_registers"
    by (simp add: live_registers_def gpc_registers_def upt)
  then have reads: "\<exists>v. read_register demo_host (snd x) = Inr v" if "x \<in> set live_registers" for x
    using that read_register_ok [of "snd x" demo_host] by (auto simp: list_all_iff demo_host_def)
  have "\<exists>y. (case x of (label, offset) \<Rightarrow> bind_res (read_register demo_host offset) (\<lambda>v. Inr (label, v))) = Inr y"
    if "x \<in> set live_registers" for x
  proof -
    obtain label offset where x: "x = (label, offset)" by (cases x)
    with reads [OF that] obtain v where "read_register demo_host offset = Inr v" by auto
    then show ?thesis unfolding x by (simp only: prod.case bind_res_simps) blast
  qed
  then show ?thesis unfolding read_registers_def by (rule map_res_total)
qed

lemma demo_live: "\<exists>c. live_main demo_host (Some ''0000:0b:00.0'') = Inr c"
proof -
  have "valid_bdf ''0000:0b:00.0''" by code_simp
  moreover have "capture_guards demo_host = Inr (''0x10de'', ''0x1d84'')"
  proof -
    have "strip ''0x10de'' = ''0x10de''" "strip ''0x1d84'' = ''0x1d84''" "strip ''active'' = ''active''"
      by code_simp+
    then have attributes: "read_attribute demo_host ''vendor'' = Inr ''0x10de''" "read_attribute demo_host ''device'' = Inr ''0x1d84''"
      "read_attribute demo_host ''power/runtime_status'' = Inr ''active''"
      by (simp_all add: read_attribute_def demo_host_def)
    have "get_u16 [0xDE, 0x10, 0x84, 0x1D, 2, 0, 0, 0] 4 = Some 2" by code_simp
    then show ?thesis
      by (simp add: capture_guards_def attributes KNOWN_DEVICES_def) (simp add: demo_host_def)
  qed
  moreover obtain vs where "read_registers demo_host = Inr vs" using demo_registers ..
  moreover have "\<exists>t. summarize d (map f [0..<6]) = Inr t" for d f
    by (simp add: summarize_def Let_def)
  ultimately show ?thesis by (simp add: live_main_def) (metis map_sum.simps(2) bind_res_simps(2))
qed

theorem live_capture_sound_witness:
  "\<exists>c. live_main demo_host (Some ''0000:0b:00.0'') = Inr c \<and> lc_vendor c = ''0x10de'' \<and>
     lc_values c = map (\<lambda>(label, offset). (label, word_at demo_host offset)) live_registers"
  using demo_live live_capture_sound by blast

end
