(* ===== verification/TpcInput.thy ===== *)
theory TpcInput
  imports TpcRequest FirmwareInventory
begin

text \<open>
  \<^verbatim>\<open>input_record\<close> of \<^verbatim>\<open>tools/analyze_v100_tpc_request.py\<close>: where a ROM stores the
  number of TPCs it requests, found through the DEVINIT application of the firmware inventory, and
  the examples \<^verbatim>\<open>main\<close> runs through the model. Whatever byte a ROM stores there is a
  valid request of the model.
\<close>

record tpc_input =
  ti_start :: int
  ti_script_base :: int
  ti_header_offset :: int
  ti_request_offset :: int
  ti_request :: int
  ti_header :: bytes

definition dmem_offset :: "firmware_report \<Rightarrow> nat option" where
  "dmem_offset report = (case filter (\<lambda>a. ap_name a = ''DEVINIT'') (fr_applications report) of
     [] \<Rightarrow> None
   | a # _ \<Rightarrow> map_option (\<lambda>s. nat (sg_file_offset s)) (List.find (\<lambda>s. sg_name s = ''dmem'') (ap_segments a)))"

text \<open>The interfaces of the application and the two pointers it shares with its header.\<close>

definition script_base :: "bytes \<Rightarrow> nat \<Rightarrow> rom_error + int" where
  "script_base data dmem =
     bind_res (require (slice (dmem + 0xa0) (dmem + 0xa4) data = [1, 4, 8, 3]) ''Unexpected appinfo header'') (\<lambda>_.
     bind_res (unpack_words data (dmem + 0xa4) 2) (\<lambda>v1. bind_res (require (v1 = [1, 0x20]) ''Missing v1 interface'') (\<lambda>_.
     bind_res (unpack_words data (dmem + 0xac) 2) (\<lambda>v2. bind_res (require (v2 = [1, 0x58]) ''Missing v2 interface'') (\<lambda>_.
     bind_res (u16 data (dmem + 0x58)) (\<lambda>a. bind_res (u16 data (dmem + 0x5a)) (\<lambda>b.
     bind_res (require ((a, b) = (2, 0x10)) ''Unexpected v2 interface'') (\<lambda>_.
     bind_res (u32 data (dmem + 0x60)) (\<lambda>table_physical. bind_res (u32 data (dmem + 0x64)) (\<lambda>script_physical.
     bind_res (u32 data (dmem + 0x28)) (\<lambda>t. bind_res (require (t = table_physical) ''Table base mismatch'') (\<lambda>_.
     bind_res (u32 data (dmem + 0x30)) (\<lambda>s. bind_res (require (s = script_physical) ''Script base mismatch'') (\<lambda>_.
     Inr script_physical))))))))))))))"

definition request_header :: "bytes \<Rightarrow> int \<Rightarrow> rom_error + tpc_input" where
  "request_header data script_physical =
     bind_res (u16 data (0xc83 + 24)) (\<lambda>pointer. bind_res (u16 data (0xc83 + 26)) (\<lambda>n.
     let start = pointer + 0xa00 in
     bind_res (u16 data (nat start + 2)) (\<lambda>header_offset.
     bind_res (require (header_offset = 0x10 \<and> n > header_offset + 8) ''Unexpected script header'') (\<lambda>_.
     let header = start + header_offset in
     bind_res (byte_at data (nat header + 7)) (\<lambda>request.
     Inr \<lparr>ti_start = start, ti_script_base = script_physical, ti_header_offset = header_offset,
          ti_request_offset = header + 7, ti_request = request, ti_header = slice (nat header) (nat header + 8) data\<rparr>)))))"

definition input_record :: "(bytes \<Rightarrow> string) \<Rightarrow> rom_label \<Rightarrow> bytes \<Rightarrow> rom_error + tpc_input" where
  "input_record digest label data =
     bind_res (require (digest data = fst (ROMS label)) ''ROM SHA mismatch'') (\<lambda>_.
     bind_res (firmware_inventory digest label data) (\<lambda>report.
     bind_res (of_option StructError (dmem_offset report)) (\<lambda>dmem.
     bind_res (script_base data dmem) (\<lambda>script_physical. request_header data script_physical))))"

text \<open>The examples of \<^verbatim>\<open>main\<close>; its first one is the observed state.\<close>

definition model_examples :: "(int list \<times> int \<times> int) list" where
  "model_examples = [(replicate 6 0, 0, 1), (replicate 6 0, 6, 1), ([3, 0, 0, 0, 0, 0], 1, 1), ([3, 0, 0, 0, 0, 0], 1, 0x100)]"

lemma model_example_results:
  "map (\<lambda>(ctrl, n, guard). map_sum id rq_reason (tpc_request ctrl n guard 0x3f)) model_examples =
   [Inr ZeroRequest, Inr ExceedsCtrlBits, Inr ConditionalWriteback, Inr GuardZero]"
  by code_simp

text \<open>An accepted inventory always has the data segment of DEVINIT, and it starts inside the ROM.\<close>

lemma application_name: "application_at digest fw_base data table index = Inr app \<Longrightarrow>
  ap_name app = (if ap_id app = 1 then ''PRE_OS'' else ''DEVINIT'')"
  unfolding application_at_def Let_def by (elim bind_res_InrE) (simp only: require_Inr, force)

lemma inventory_dmem:
  assumes "firmware_inventory digest label data = Inr report"
  shows "\<exists>off. dmem_offset report = Some off \<and> off \<le> length data"
proof -
  from assms obtain fw_base table a b where ab: "application_at digest fw_base data table 0 = Inr a"
    "application_at digest fw_base data table 3 = Inr b" "fr_applications report = [a, b]"
    by (auto simp: firmware_inventory_def inventory_at_def bind_res_Inr_conv)
  note ta = application_tiles [OF ab(1)] and tb = application_tiles [OF ab(2)]
  have names: "ap_name a = ''PRE_OS''" "ap_name b = ''DEVINIT''"
    using application_name ab(1,2) ta tb by auto
  from tb obtain s1 s2 s3 where s: "ap_segments b = [s1, s2, s3]" "sg_name s1 = ''bootloader''" "sg_name s2 = ''secure_imem''"
    "sg_name s3 = ''dmem''" by (auto simp: map_eq_Cons_conv)
  from tb s(1) have "sg_file_offset s3 \<le> int (length data)" by auto
  with ab(3) names s show ?thesis by (simp add: dmem_offset_def)
qed

text \<open>
  The request is the last of the eight header bytes, so it is a byte, and the model accepts it for
  every table of six CTRL values.
\<close>

lemma request_header_byte:
  assumes "request_header data base = Inr r"
  shows "0 \<le> ti_request r \<and> ti_request r \<le> 255 \<and> length (ti_header r) = 8 \<and> ti_request r = uint (ti_header r ! 7)"
proof -
  from assms obtain h where r: "byte_at data (h + 7) = Inr (ti_request r)" "ti_header r = slice h (h + 8) data"
    unfolding request_header_def Let_def by (elim bind_res_InrE) (fastforce dest: Inr_inject)
  then have "h + 7 < length data" "ti_request r = uint (data ! (h + 7))" by (simp_all add: byte_at_def split: if_splits)
  with r(2) show ?thesis using uint_byte_bounds [of "data ! (h + 7)"] by (simp add: slice_def)
qed

lemma input_is_request:
  assumes "input_record digest label data = Inr r" and "length ctrl = 6"
  shows "\<exists>x. tpc_request ctrl (ti_request r) guard active = Inr x"
proof -
  from assms(1) have "\<exists>base. request_header data base = Inr r"
    unfolding input_record_def by (elim bind_res_InrE) blast
  then have "0 \<le> ti_request r \<and> ti_request r \<le> 255" using request_header_byte by blast
  with assms(2) show ?thesis by (simp add: tpc_request_def Let_def split: prod.splits)
qed

end
