(* ===== verification/GemmNumerics.thy ===== *)
theory GemmNumerics
  imports GemmStress
begin

text \<open>
  \<^verbatim>\<open>tools/gemm_stress.py\<close>, the operands and the numerical check. A tensor of two
  dimensions is its shape with its entries, over any type of entries. The arithmetic of PyTorch is the
  parameter \<open>torch\<close>: the conversion of an entry to FP32, the FP32 product, subtraction and norm,
  about which nothing is assumed; the rounding to the tested type is the parameter \<open>cast\<close>, the
  random numbers are the parameters \<open>fill\<close>. A norm is a Python float, so it may be infinite or not a number.
\<close>

record 'a tensor =
  tn_rows :: nat
  tn_cols :: nat
  tn_at :: "nat \<Rightarrow> nat \<Rightarrow> 'a"

record ('d, 'f) torch =
  fp_float :: "'d \<Rightarrow> 'f"
  fp_mm :: "'f tensor \<Rightarrow> 'f tensor \<Rightarrow> 'f tensor"
  fp_minus :: "'f \<Rightarrow> 'f \<Rightarrow> 'f"
  fp_norm :: "'f tensor \<Rightarrow> rel_err"

definition flip_axes :: "'a tensor \<Rightarrow> 'a tensor" where
  "flip_axes a = \<lparr>tn_rows = tn_cols a, tn_cols = tn_rows a, tn_at = (\<lambda>i j. tn_at a j i)\<rparr>"

text \<open>\<^verbatim>\<open>a.float()\<close>\<close>

definition as_float :: "('d, 'f) torch \<Rightarrow> 'd tensor \<Rightarrow> 'f tensor" where
  "as_float torch a = \<lparr>tn_rows = tn_rows a, tn_cols = tn_cols a, tn_at = (\<lambda>i j. fp_float torch (tn_at a i j))\<rparr>"

subsection \<open>The operands\<close>

text \<open>
  A transposed operand is allocated with its axes exchanged and viewed through \<^verbatim>\<open>.t()\<close>; a
  layout is one of the four choices of the option. \<^verbatim>\<open>torch.rand\<close> and \<^verbatim>\<open>torch.randn\<close>
  give the entries of the allocated shape.
\<close>

definition LAYOUTS :: "string list" where
  "LAYOUTS = [''nn'', ''nt'', ''tn'', ''tt'']"

definition allocate :: "(real \<Rightarrow> 'd) \<Rightarrow> string \<Rightarrow> nat \<times> nat \<Rightarrow> (nat \<Rightarrow> nat \<Rightarrow> real) \<Rightarrow> 'd tensor" where
  "allocate cast init shape fill = \<lparr>tn_rows = fst shape, tn_cols = snd shape,
     tn_at = (\<lambda>i j. cast (if init = ''uniform'' then fill i j - 1 / 2 else fill i j))\<rparr>"

definition make_operands :: "(real \<Rightarrow> 'd) \<Rightarrow> nat \<Rightarrow> nat \<Rightarrow> nat \<Rightarrow> string \<Rightarrow> string \<Rightarrow>
    (nat \<Rightarrow> nat \<Rightarrow> real) \<Rightarrow> (nat \<Rightarrow> nat \<Rightarrow> real) \<Rightarrow> 'd tensor \<times> 'd tensor" where
  "make_operands cast m n k layout init fill_a fill_b =
     (let a_shape = (if layout ! 0 = CHR ''t'' then (k, m) else (m, k));
          b_shape = (if layout ! 1 = CHR ''t'' then (n, k) else (k, n));
          a = allocate cast init a_shape fill_a; b = allocate cast init b_shape fill_b
      in (if layout ! 0 = CHR ''t'' then flip_axes a else a, if layout ! 1 = CHR ''t'' then flip_axes b else b))"

subsection \<open>The error\<close>

text \<open>Python's \<^verbatim>\<open>x / y\<close> of floats that are not negative, \<open>y\<close> not zero.\<close>

definition divide_float :: "rel_err \<Rightarrow> rel_err \<Rightarrow> rel_err" where
  "divide_float x y = (case (x, y) of
     (Finite a, Finite b) \<Rightarrow> Finite (a / b) | (Finite a, Infinite) \<Rightarrow> Finite 0 | (Infinite, Finite b) \<Rightarrow> Infinite
   | _ \<Rightarrow> NotANumber)"

text \<open>\<^verbatim>\<open>c.float() - ref\<close>\<close>

definition difference :: "('d, 'f) torch \<Rightarrow> 'd tensor \<Rightarrow> 'f tensor \<Rightarrow> 'f tensor" where
  "difference torch c ref = (as_float torch c)\<lparr>tn_at := (\<lambda>i j. fp_minus torch (fp_float torch (tn_at c i j)) (tn_at ref i j))\<rparr>"

definition rel_frobenius_err :: "('d, 'f) torch \<Rightarrow> 'd tensor \<Rightarrow> 'f tensor \<Rightarrow> rel_err" where
  "rel_frobenius_err torch c ref = (let num = fp_norm torch (difference torch c ref); den = fp_norm torch ref in
     if den = Finite 0 then if num = Finite 0 then Finite 0 else Infinite else divide_float num den)"

text \<open>The end of a slice \<^verbatim>\<open>[:b]\<close> of an axis: clamped, and counted from the end when negative.\<close>

definition slice_end :: "int \<Rightarrow> nat \<Rightarrow> nat" where
  "slice_end b n = nat (if b < 0 then max 0 (int n + b) else min b (int n))"

definition first_rows :: "int \<Rightarrow> 'a tensor \<Rightarrow> 'a tensor" where
  "first_rows b a = a\<lparr>tn_rows := slice_end b (tn_rows a)\<rparr>"

definition first_cols :: "int \<Rightarrow> 'a tensor \<Rightarrow> 'a tensor" where
  "first_cols b a = a\<lparr>tn_cols := slice_end b (tn_cols a)\<rparr>"

definition validate_full :: "('d, 'f) torch \<Rightarrow> 'd tensor \<Rightarrow> 'd tensor \<Rightarrow> 'd tensor \<Rightarrow> rel_err" where
  "validate_full torch a b c = rel_frobenius_err torch c (fp_mm torch (as_float torch a) (as_float torch b))"

definition block_edge :: "'d tensor \<Rightarrow> 'd tensor \<Rightarrow> int \<Rightarrow> int" where
  "block_edge a b block = min block (min (int (tn_rows a)) (int (tn_cols b)))"

definition validate_block :: "('d, 'f) torch \<Rightarrow> 'd tensor \<Rightarrow> 'd tensor \<Rightarrow> 'd tensor \<Rightarrow> int \<Rightarrow> rel_err" where
  "validate_block torch a b c block = (let bb = block_edge a b block;
       ref = fp_mm torch (as_float torch (first_rows bb a)) (as_float torch (first_cols bb b)) in
     rel_frobenius_err torch (first_cols bb (first_rows bb c)) ref)"

definition check_error :: "('d, 'f) torch \<Rightarrow> string \<Rightarrow> int \<Rightarrow> 'd tensor \<Rightarrow> 'd tensor \<Rightarrow> 'd tensor \<Rightarrow> rel_err" where
  "check_error torch mode block a b c = (if mode = ''full'' then validate_full torch a b c else validate_block torch a b c block)"

subsection \<open>What the check compares\<close>

text \<open>
  The specification, from the random numbers: entry \<open>i, l\<close> of an operand is the number drawn for it, at the
  exchanged place when the operand is transposed, shifted for the uniform ones, rounded to the tested
  type and converted to FP32.
\<close>

definition operand_entry :: "('d, 'f) torch \<Rightarrow> (real \<Rightarrow> 'd) \<Rightarrow> string \<Rightarrow> bool \<Rightarrow> (nat \<Rightarrow> nat \<Rightarrow> real) \<Rightarrow> nat \<Rightarrow> nat \<Rightarrow> 'f" where
  "operand_entry torch cast init transposed fill i l =
     (let x = (if transposed then fill l i else fill i l) in fp_float torch (cast (if init = ''uniform'' then x - 1 / 2 else x)))"

text \<open>The relative error from the norms of the difference and of the reference, case by case.\<close>

fun relative_error :: "rel_err \<Rightarrow> rel_err \<Rightarrow> rel_err" where
  "relative_error (Finite x) (Finite y) = (if y \<noteq> 0 then Finite (x / y) else if x = 0 then Finite 0 else Infinite)"
| "relative_error Infinite (Finite y) = Infinite"
| "relative_error NotANumber (Finite y) = (if y = 0 then Infinite else NotANumber)"
| "relative_error (Finite x) Infinite = Finite 0"
| "relative_error _ _ = NotANumber"

text \<open>The relative error of the first \<open>p\<close> rows and \<open>q\<close> columns of an output with entries \<open>out\<close>.\<close>

definition tile_error :: "('d, 'f) torch \<Rightarrow> nat \<Rightarrow> nat \<Rightarrow> nat \<Rightarrow> (nat \<Rightarrow> nat \<Rightarrow> 'f) \<Rightarrow> (nat \<Rightarrow> nat \<Rightarrow> 'f) \<Rightarrow> (nat \<Rightarrow> nat \<Rightarrow> 'd) \<Rightarrow> rel_err" where
  "tile_error torch p q k left right out =
     (let ref = fp_mm torch \<lparr>tn_rows = p, tn_cols = k, tn_at = left\<rparr> \<lparr>tn_rows = k, tn_cols = q, tn_at = right\<rparr>;
          gap = \<lparr>tn_rows = p, tn_cols = q, tn_at = (\<lambda>i j. fp_minus torch (fp_float torch (out i j)) (tn_at ref i j))\<rparr> in
      relative_error (fp_norm torch gap) (fp_norm torch ref))"

lemma error_quotient:
  "rel_frobenius_err torch c ref = relative_error (fp_norm torch (difference torch c ref)) (fp_norm torch ref)"
proof -
  have "(if den = Finite 0 then if num = Finite 0 then Finite 0 else Infinite else divide_float num den) = relative_error num den" for num den
    by (cases num; cases den) (simp_all add: divide_float_def)
  then show ?thesis unfolding rel_frobenius_err_def Let_def .
qed

lemma operands_entries:
  assumes "make_operands cast m n k layout init fa fb = (a, b)"
  shows "as_float torch a = \<lparr>tn_rows = m, tn_cols = k, tn_at = operand_entry torch cast init (layout ! 0 = CHR ''t'') fa\<rparr>"
    and "as_float torch b = \<lparr>tn_rows = k, tn_cols = n, tn_at = operand_entry torch cast init (layout ! 1 = CHR ''t'') fb\<rparr>"
    and "tn_rows a = m \<and> tn_cols a = k \<and> tn_rows b = k \<and> tn_cols b = n"
  using assms by (auto simp: make_operands_def Let_def allocate_def flip_axes_def as_float_def operand_entry_def fun_eq_iff)

lemma slice_end_pos: "0 \<le> b \<Longrightarrow> b \<le> int n \<Longrightarrow> slice_end b n = nat b"
  by (simp add: slice_end_def)

text \<open>
  C39: What the two checks compare, for the operands of every layout and whatever PyTorch's arithmetic is. The
  full check gives the relative error of the whole output against the FP32 product of the operands;
  the block check that of its corner tile, whose edge is the smallest of the block and the sides of the output,
  against the FP32 product of as many rows of A and columns of B over the whole inner dimension. On a
  square output no larger than the block the two are the same. The quotient is that of Python
  floats: a zero denominator gives 0 or infinity, a norm that is not a number gives not-a-number.
\<close>

theorem checks_compare_tiles:
  assumes "make_operands cast m n k layout init fa fb = (a, b)" and "tn_rows c = m" and "tn_cols c = n" and "0 < block"
  shows "check_error torch ''full'' block a b c =
      tile_error torch m n k (operand_entry torch cast init (layout ! 0 = CHR ''t'') fa)
        (operand_entry torch cast init (layout ! 1 = CHR ''t'') fb) (tn_at c) \<and>
    check_error torch ''block'' block a b c =
      tile_error torch (min (nat block) (min m n)) (min (nat block) (min m n)) k
        (operand_entry torch cast init (layout ! 0 = CHR ''t'') fa)
        (operand_entry torch cast init (layout ! 1 = CHR ''t'') fb) (tn_at c) \<and>
    (m = n \<and> int m \<le> block \<longrightarrow> check_error torch ''block'' block a b c = check_error torch ''full'' block a b c)"
proof -
  note entries = operands_entries [OF assms(1)]
  let ?bb = "block_edge a b block"
  let ?p = "min (nat block) (min m n)"
  let ?left = "operand_entry torch cast init (layout ! 0 = CHR ''t'') fa"
  let ?right = "operand_entry torch cast init (layout ! 1 = CHR ''t'') fb"
  have bb: "?bb = int ?p" using entries(3) assms(4) by (simp add: block_edge_def)
  then have ends: "slice_end ?bb m = ?p" "slice_end ?bb n = ?p" by (simp_all add: slice_end_pos)
  have cut: "as_float torch (first_rows ?bb a) = \<lparr>tn_rows = ?p, tn_cols = k, tn_at = ?left\<rparr>"
    "as_float torch (first_cols ?bb b) = \<lparr>tn_rows = k, tn_cols = ?p, tn_at = ?right\<rparr>"
    using entries ends by (simp_all add: as_float_def first_rows_def first_cols_def)
  have full: "check_error torch ''full'' block a b c = tile_error torch m n k ?left ?right (tn_at c)"
    by (simp add: check_error_def validate_full_def error_quotient difference_def as_float_def [of torch c]
        entries(1,2) assms(2,3) tile_error_def Let_def)
  moreover have tile: "check_error torch ''block'' block a b c = tile_error torch ?p ?p k ?left ?right (tn_at c)"
    by (simp add: check_error_def validate_block_def error_quotient difference_def Let_def cut)
      (simp add: as_float_def first_rows_def first_cols_def assms(2,3) ends tile_error_def Let_def)
  moreover have "check_error torch ''block'' block a b c = check_error torch ''full'' block a b c" if "m = n" "int m \<le> block"
    unfolding full tile using that by (simp add: min_absorb2)
  ultimately show ?thesis by blast
qed

text \<open>Integers with the exact product and the largest entry as the norm; a transposed second operand.\<close>

definition exact_torch :: "(int, int) torch" where
  "exact_torch = \<lparr>fp_float = id,
     fp_mm = (\<lambda>a b. \<lparr>tn_rows = tn_rows a, tn_cols = tn_cols b, tn_at = (\<lambda>i j. \<Sum>l<tn_cols a. tn_at a i l * tn_at b l j)\<rparr>),
     fp_minus = (-),
     fp_norm = (\<lambda>a. Finite (real_of_int (Max (insert 0 {\<bar>tn_at a i j\<bar> | i j. i < tn_rows a \<and> j < tn_cols a}))))\<rparr>"

theorem checks_compare_tiles_witness:
  "check_error exact_torch ''full'' 5 (fst (make_operands floor 1 1 2 ''nt'' ''randn'' (\<lambda>i j. 3) (\<lambda>i j. 5)))
     (snd (make_operands floor 1 1 2 ''nt'' ''randn'' (\<lambda>i j. 3) (\<lambda>i j. 5)))
     \<lparr>tn_rows = 1, tn_cols = 1, tn_at = (\<lambda>i j. 33)\<rparr> = Finite (1 / 10)"
proof -
  let ?a = "fst (make_operands floor 1 1 2 ''nt'' ''randn'' (\<lambda>i j. 3) (\<lambda>i j. 5)) :: int tensor"
  let ?b = "snd (make_operands floor 1 1 2 ''nt'' ''randn'' (\<lambda>i j. 3) (\<lambda>i j. 5)) :: int tensor"
  let ?c = "\<lparr>tn_rows = 1, tn_cols = 1, tn_at = (\<lambda>i j. 33)\<rparr> :: int tensor"
  have operands: "make_operands floor 1 1 2 ''nt'' ''randn'' (\<lambda>i j. 3) (\<lambda>i j. 5) = (?a, ?b)" by simp
  have "check_error exact_torch ''full'' 5 ?a ?b ?c = tile_error exact_torch 1 1 2 (\<lambda>i l. 3) (\<lambda>l j. 5) (tn_at ?c)"
    using checks_compare_tiles [OF operands, of ?c 5 exact_torch]
    by (simp add: operand_entry_def [abs_def] exact_torch_def Let_def)
  then show ?thesis by (simp add: tile_error_def exact_torch_def eval_nat_numeral Let_def)
qed

text \<open>
  For FP32 operands, where nothing is converted, the reference of the full check is the product that was stressed; a
  finite output whose differences with itself have norm zero has error zero.
\<close>

lemma fp32_full_zero:
  assumes "as_float torch a = a" and "as_float torch b = b" and "c = fp_mm torch a b" and "as_float torch c = c"
    and "fp_norm torch (difference torch c c) = Finite 0" and "fp_norm torch c = Finite y"
  shows "validate_full torch a b c = Finite 0"
  using assms by (simp add: validate_full_def error_quotient)

text \<open>
  An empty tile has error zero whatever the product is, since a product without rows is empty and an empty
  tensor has norm zero.
\<close>

lemma empty_block_passes:
  assumes "\<And>x y. tn_rows (fp_mm torch x y) = tn_rows x" and "\<And>x. tn_rows x = 0 \<Longrightarrow> fp_norm torch x = Finite 0"
  shows "validate_block torch a b c 0 = Finite 0"
  using assms by (simp add: validate_block_def block_edge_def Let_def error_quotient difference_def as_float_def
      first_rows_def first_cols_def slice_end_def)

end
