(* ===== verification/GemmOptions.thy ===== *)
theory GemmOptions
  imports GemmRun
begin

text \<open>
  \<^verbatim>\<open>tools/gemm_stress.py\<close>, the options with their defaults and the telemetry samples. The
  output of \<^verbatim>\<open>nvidia-smi\<close> is the environment; reading a decimal number is the parameter
  \<open>float\<close>.
\<close>

subsection \<open>The options\<close>

definition DTYPE_MAP :: "string list" where
  "DTYPE_MAP = [''fp16'', ''bf16'', ''fp32'']"

definition default_args :: gemm_args where
  "default_args = \<lparr>ga_devices = None, ga_sizes = [], ga_shapes = [], ga_dtypes = [''fp16''], ga_layout = ''nn'',
     ga_warmup = 5, ga_repeats = 20, ga_seconds = 0, ga_validate = ''auto'', ga_validate_block = 2048,
     ga_validate_every = 0, ga_tol = 2 / 100, ga_min_tflops = 0, ga_tensor_ratio = 0, ga_parallel = False,
     ga_max_parallel = 0, ga_fail_fast = False, ga_telemetry = False, ga_log_interval = 10,
     ga_init = ''randn'', ga_seed = 1234, ga_max_mem_gb = 12, ga_json = None, ga_csv = None\<rparr>"

text \<open>What the parser enforces of the values given for the options with choices.\<close>

definition choices_ok :: "gemm_args \<Rightarrow> bool" where
  "choices_ok args \<longleftrightarrow> set (ga_dtypes args) \<subseteq> set DTYPE_MAP \<and> ga_layout args \<in> {''nn'', ''nt'', ''tn'', ''tt''} \<and>
     ga_validate args \<in> {''auto'', ''full'', ''block'', ''off''} \<and> ga_init args \<in> {''randn'', ''uniform''}"

lemma default_choices: "choices_ok default_args"
  by (simp add: choices_ok_def default_args_def DTYPE_MAP_def)

text \<open>The configurations keep to the types of the parser, the added baseline included.\<close>

lemma configs_choices:
  assumes "choices_ok args" and "cfg \<in> set (make_configs args dims)"
  shows "cf_dtype cfg \<in> set DTYPE_MAP \<and> cf_layout cfg \<in> {''nn'', ''nt'', ''tn'', ''tt''}"
  using assms by (auto simp: choices_ok_def make_configs_def DTYPE_MAP_def Let_def split: if_splits)

subsection \<open>Telemetry\<close>

record telemetry =
  tm_power :: real
  tm_temp :: real
  tm_sm :: real
  tm_mem :: real

text \<open>\<^verbatim>\<open>which\<close> finds no tool, the tool fails, or it prints one line.\<close>

datatype smi = NoTool | ToolFailed | Printed string

definition parse_telemetry :: "(string \<Rightarrow> real option) \<Rightarrow> string \<Rightarrow> telemetry option" where
  "parse_telemetry float out = (case map strip (split_on CHR '','' (strip out)) of
     [pw, temp, smc, memc] \<Rightarrow> (case (float pw, float temp, float smc, float memc) of
         (Some p, Some t, Some s, Some m) \<Rightarrow> Some \<lparr>tm_power = p, tm_temp = t, tm_sm = s, tm_mem = m\<rparr>
       | _ \<Rightarrow> None)
   | _ \<Rightarrow> None)"

text \<open>The sample, the flag \<^verbatim>\<open>_telemetry_warned\<close> afterwards, and whether the warning was printed.\<close>

fun read_telemetry :: "(string \<Rightarrow> real option) \<Rightarrow> bool \<Rightarrow> smi \<Rightarrow> telemetry option \<times> bool \<times> bool" where
  "read_telemetry float warned NoTool = (None, True, \<not> warned)"
| "read_telemetry float warned ToolFailed = (None, warned, False)"
| "read_telemetry float warned (Printed out) = (parse_telemetry float out, warned, False)"

fun telemetry_warnings :: "(string \<Rightarrow> real option) \<Rightarrow> bool \<Rightarrow> smi list \<Rightarrow> nat" where
  "telemetry_warnings float warned [] = 0"
| "telemetry_warnings float warned (x # xs) = (case read_telemetry float warned x of
     (_, warned', printed) \<Rightarrow> (if printed then 1 else 0) + telemetry_warnings float warned' xs)"

text \<open>However many samples are taken, the warning appears once at most.\<close>

lemma warned_once: "telemetry_warnings float warned xs \<le> (if warned then 0 else 1)"
proof (induction xs arbitrary: warned)
  case (Cons x xs)
  from Cons.IH [of True] Cons.IH [of warned] show ?case by (cases x) (auto split: if_splits)
qed simp

lemma telemetry_sample:
  "parse_telemetry (\<lambda>s. if s = ''N/A'' then None else Some 1) ''  93.5, 61, 1380, 877 '' =
   Some \<lparr>tm_power = 1, tm_temp = 1, tm_sm = 1, tm_mem = 1\<rparr>"
  "parse_telemetry (\<lambda>s. if s = ''N/A'' then None else Some 1) ''93.5, N/A, 1380, 877'' = None"
  "parse_telemetry (\<lambda>s. Some 1) ''93.5, 61'' = None"
  by code_simp+

end
