(* ===== verification/GemmReport.thy ===== *)
theory GemmReport
  imports GemmOptions Csv Json
begin

text \<open>
  \<^verbatim>\<open>tools/gemm_stress.py\<close>, what a run leaves behind: the measures attached to a result, the
  printed report and the JSON and CSV files. The text \<^verbatim>\<open>format\<close> gives a float for a
  specification is the parameter \<open>fmt\<close>, its \<^verbatim>\<open>repr\<close> the parameter \<open>float_repr\<close>. The
  files are read back by the readers of JSON and CSV.
\<close>

subsection \<open>Names\<close>

definition label :: "config \<Rightarrow> string" where
  "label c = py_str (cf_m c) @ ''x'' @ py_str (cf_n c) @ ''x'' @ py_str (cf_k c) @ '' '' @ upper (cf_dtype c) @ '' '' @
     upper (cf_layout c)"

text \<open>The properties are \<^term>\<open>None\<close> when they cannot be queried.\<close>

definition describe_device :: "(int \<times> int \<times> int) option \<Rightarrow> string" where
  "describe_device props = (case props of
     None \<Rightarrow> ''properties unavailable''
   | Some (major, minor, sms) \<Rightarrow>
       let arch = ''sm_'' @ py_str major @ py_str minor in
       case tensor_core_count major minor sms of
         None \<Rightarrow> arch @ '' | '' @ py_str sms @ '' SMs | tensor count unknown''
       | Some count \<Rightarrow> arch @ '' | '' @ py_str sms @ '' SMs | '' @ py_str count @ '' tensor'')"

fun status_name :: "status \<Rightarrow> string" where
  "status_name PASS = ''PASS''"
| "status_name FAIL = ''FAIL''"
| "status_name ERROR = ''ERROR''"
| "status_name SKIP = ''SKIP''"

type_synonym float_format = "string \<Rightarrow> real \<Rightarrow> string"

definition fmt_err :: "float_format \<Rightarrow> string \<Rightarrow> rel_err \<Rightarrow> string" where
  "fmt_err fmt spec e = (case e of Finite x \<Rightarrow> fmt spec x | Infinite \<Rightarrow> ''inf'' | NotANumber \<Rightarrow> ''nan'')"

fun reason_text :: "float_format \<Rightarrow> reason \<Rightarrow> string" where
  "reason_text fmt (OverBudget need budget) = ''estimated '' @ fmt ''.1f'' (real_of_int need / 10 ^ 9) @ '' GB exceeds '' @
     fmt ''.1f'' (real_of_int budget / 10 ^ 9) @ '' GB budget''"
| "reason_text fmt (AllocFailed msg) = ''operand alloc failed: '' @ msg"
| "reason_text fmt (WarmupFailed msg) = ''warmup failed ('' @ msg @ ''); dtype may lack backend support''"
| "reason_text fmt InterruptedPartial = ''interrupted; partial results''"
| "reason_text fmt (TimedFailed msg) = ''timed GEMM failed: '' @ msg"
| "reason_text fmt NoIterations = ''no timed iterations completed''"
| "reason_text fmt NonFinite = ''non-finite result''"
| "reason_text fmt (RelErrAbove e tol) = ''rel_err '' @ fmt_err fmt ''.3e'' e @ '' > tol '' @ fmt ''g'' tol"
| "reason_text fmt (MedianBelow med low) = ''median '' @ fmt ''.3f'' med @ '' < '' @ fmt ''g'' low"
| "reason_text fmt NoBaseline = ''no FP32 baseline for tensor-ratio check''"
| "reason_text fmt (RatioBelow ratio low med base) = ''tensor-ratio '' @ fmt ''.2f'' ratio @ ''x < '' @ fmt ''g'' low @ ''x (fp16 '' @
     fmt ''.1f'' med @ '' vs fp32 '' @ fmt ''.1f'' base @ '' TFLOPS)''"

definition reason_line :: "float_format \<Rightarrow> config_result \<Rightarrow> string" where
  "reason_line fmt r = join ''; '' (map (reason_text fmt) (re_reason r))"

subsection \<open>Measures\<close>

record measures =
  ms_elapsed :: real
  ms_start :: "telemetry option"
  ms_end :: "telemetry option"

text \<open>What \<^verbatim>\<open>nvidia-smi\<close> answers before and after the timed part, and the clock afterwards.\<close>

record meter =
  mt_before :: smi
  mt_after :: smi
  mt_clock :: real

definition no_measures :: measures where
  "no_measures = \<lparr>ms_elapsed = 0, ms_start = None, ms_end = None\<rparr>"

text \<open>The timed part is reached when the operands fit, can be made and survive the warm-up.\<close>

definition reaches_timing :: "(int \<Rightarrow> int) \<Rightarrow> gemm_args \<Rightarrow> int \<Rightarrow> config \<Rightarrow> backend \<Rightarrow> bool" where
  "reaches_timing headroom args budget cfg be \<longleftrightarrow>
     estimate_bytes headroom (cf_m cfg) (cf_n cfg) (cf_k cfg) (cf_dtype cfg) (validate_mode headroom args cfg budget = ''full'')
       (ga_validate_block args) \<le> budget \<and> be_operands be = None \<and> be_warmup be = None"

definition sample_telemetry :: "(string \<Rightarrow> real option) \<Rightarrow> gemm_args \<Rightarrow> bool \<Rightarrow> smi \<Rightarrow> telemetry option \<times> bool" where
  "sample_telemetry float args warned answer =
     (if ga_telemetry args then (case read_telemetry float warned answer of (t, warned', _) \<Rightarrow> (t, warned')) else (None, warned))"

text \<open>The result with its measures and the flag of the telemetry warning afterwards.\<close>

definition measured_config ::
  "(int \<Rightarrow> int) \<Rightarrow> (string \<Rightarrow> real option) \<Rightarrow> gemm_args \<Rightarrow> int \<Rightarrow> config \<Rightarrow> backend \<Rightarrow> meter \<Rightarrow> bool \<Rightarrow>
   ((config_result \<times> measures) \<times> bool) option" where
  "measured_config headroom float args budget cfg be meter warned =
     map_option (\<lambda>res. if \<not> reaches_timing headroom args budget cfg be then ((res, no_measures), warned)
       else let (before, w) = sample_telemetry float args warned (mt_before meter);
                (after, w') = sample_telemetry float args w (mt_after meter) in
         ((res, \<lparr>ms_elapsed = mt_clock meter - be_start be, ms_start = before, ms_end = after\<rparr>), w'))
       (run_config headroom args budget cfg be)"

text \<open>The progress line after the last check: \<open>now\<close> is the clock of the last iteration.\<close>

definition progress_line :: "float_format \<Rightarrow> gemm_args \<Rightarrow> int \<Rightarrow> config \<Rightarrow> string \<Rightarrow> real \<Rightarrow> real \<Rightarrow> real list \<Rightarrow> string list" where
  "progress_line fmt args device cfg mode start now samples =
     (if sustained args \<and> mode \<noteq> ''off'' \<and> samples \<noteq> [] \<and> ga_log_interval args > 0 \<and> now - start \<ge> ga_log_interval args
      then [''  [gpu'' @ py_str device @ '' '' @ label cfg @ ''] t='' @ fmt ''6.0f'' (now - start) @ ''s iters='' @
        py_str (int (length samples)) @ '' median='' @ fmt ''8.3f'' (median samples) @ '' TFLOPS''] else [])"

subsection \<open>The report\<close>

definition fmt_telemetry :: "float_format \<Rightarrow> measures \<Rightarrow> string" where
  "fmt_telemetry fmt m = (case ms_end m of None \<Rightarrow> []
     | Some e \<Rightarrow> join '' '' ([fmt ''.0f'' (tm_power e) @ ''W'', fmt ''.0f'' (tm_temp e) @ ''C'', ''SM'' @ fmt ''.0f'' (tm_sm e),
         ''MEM'' @ fmt ''.0f'' (tm_mem e)] @
         (case ms_start m of None \<Rightarrow> []
          | Some s \<Rightarrow> [''(dP'' @ fmt ''+.0f'' (tm_power e - tm_power s) @ ''W dT'' @ fmt ''+.0f'' (tm_temp e - tm_temp s) @ ''C)''])))"

definition pad :: "nat \<Rightarrow> string \<Rightarrow> string" where
  "pad n s = s @ replicate (n - length s) (CHR '' '')"

definition result_line :: "float_format \<Rightarrow> config_result \<Rightarrow> measures \<Rightarrow> string" where
  "result_line fmt r m =
     ''  ['' @ pad 5 (status_name (re_status r)) @ ''] '' @ pad 28 (label (re_config r)) @
     (if re_iters r = 0 then []
      else '' med='' @ fmt ''8.3f'' (re_median r) @ '' range='' @ fmt ''8.3f'' (re_min r) @ ''-'' @ fmt ''8.3f'' (re_max r) @
        '' TFLOPS iters='' @ py_str (int (re_iters r)) @
        (case re_drift r of None \<Rightarrow> [] | Some d \<Rightarrow> '' drift='' @ fmt ''+.1f'' d @ ''%'') @
        (case re_max_rel_err r of None \<Rightarrow> [] | Some e \<Rightarrow> '' rel_err='' @ fmt_err fmt ''.2e'' e) @
        (if fmt_telemetry fmt m = [] then [] else '' ['' @ fmt_telemetry fmt m @ '']'')) @
     (if reason_line fmt r = [] then [] else '' :: '' @ reason_line fmt r)"

text \<open>Results with their measures, by device.\<close>

type_synonym measured_devices = "(int \<times> string \<times> (config_result \<times> measures) list) list"

definition without_measures :: "measured_devices \<Rightarrow> per_device" where
  "without_measures mpd = map (\<lambda>(idx, name, rs). (idx, name, map fst rs)) mpd"

definition report_lines :: "float_format \<Rightarrow> measured_devices \<Rightarrow> string list" where
  "report_lines fmt mpd =
     (let pd = without_measures mpd; count = (\<lambda>s. py_str (int (count_status s pd))) in
      concat (map (\<lambda>(idx, name, rs). (''GPU '' @ py_str idx @ '': '' @ name) # map (\<lambda>(r, m). result_line fmt r m) rs) (sort_key fst mpd)) @
      [replicate 72 (CHR ''-''),
       ''PASS='' @ count PASS @ '' FAIL='' @ count FAIL @ '' ERROR='' @ count ERROR @ '' SKIP='' @ count SKIP,
       if count_status FAIL pd > 0 \<or> count_status ERROR pd > 0 then ''RESULT: FAIL''
       else if count_status PASS pd = 0 then ''RESULT: FAIL (nothing ran)'' else ''RESULT: PASS''])"

subsection \<open>The files\<close>

type_synonym row = "int \<times> string \<times> config_result \<times> measures"

definition measured_rows :: "measured_devices \<Rightarrow> row list" where
  "measured_rows mpd = concat (map (\<lambda>(idx, name, rs). map (\<lambda>(r, m). (idx, name, r, m)) rs) (sort_key fst mpd))"

definition float_json :: "(real \<Rightarrow> string) \<Rightarrow> real \<Rightarrow> json" where
  "float_json float_repr x = JFloat (float_repr x)"

definition err_json :: "(real \<Rightarrow> string) \<Rightarrow> rel_err \<Rightarrow> json" where
  "err_json float_repr e = JFloat (case e of Finite x \<Rightarrow> float_repr x | Infinite \<Rightarrow> ''Infinity'' | NotANumber \<Rightarrow> ''NaN'')"

definition optional :: "('a \<Rightarrow> json) \<Rightarrow> 'a option \<Rightarrow> json" where
  "optional f v = (case v of None \<Rightarrow> JNull | Some x \<Rightarrow> f x)"

definition telemetry_json :: "(real \<Rightarrow> string) \<Rightarrow> telemetry option \<Rightarrow> json" where
  "telemetry_json float_repr t = (case t of None \<Rightarrow> JObject []
     | Some t \<Rightarrow> JObject [(''power_w'', float_json float_repr (tm_power t)), (''temp_c'', float_json float_repr (tm_temp t)),
         (''sm_mhz'', float_json float_repr (tm_sm t)), (''mem_mhz'', float_json float_repr (tm_mem t))])"

text \<open>\<open>round3\<close> is \<^verbatim>\<open>round(x, 3)\<close>.\<close>

definition row_members :: "float_format \<Rightarrow> (real \<Rightarrow> string) \<Rightarrow> (real \<Rightarrow> real) \<Rightarrow> row \<Rightarrow> (string \<times> json) list" where
  "row_members fmt float_repr round3 row = (case row of (idx, name, r, m) \<Rightarrow> let c = re_config r; num = float_json float_repr in
     [(''device'', JInt idx), (''name'', JString name), (''m'', JInt (cf_m c)), (''n'', JInt (cf_n c)), (''k'', JInt (cf_k c)),
      (''dtype'', JString (cf_dtype c)), (''layout'', JString (cf_layout c)), (''status'', JString (status_name (re_status r))),
      (''reason'', JString (reason_line fmt r)), (''iters'', JInt (int (re_iters r))), (''median_tflops'', num (re_median r)),
      (''min_tflops'', num (re_min r)), (''max_tflops'', num (re_max r)), (''drift_pct'', optional num (re_drift r)),
      (''max_rel_err'', optional (err_json float_repr) (re_max_rel_err r)), (''validate_mode'', JString (re_mode r)),
      (''elapsed_s'', num (round3 (ms_elapsed m))), (''telemetry_start'', telemetry_json float_repr (ms_start m)),
      (''telemetry_end'', telemetry_json float_repr (ms_end m))])"

text \<open>The text \<^verbatim>\<open>csv\<close> writes for a value; not-a-number and infinity have other names than in JSON.\<close>

fun csv_value :: "json \<Rightarrow> string" where
  "csv_value (JInt n) = py_str n"
| "csv_value (JString s) = s"
| "csv_value (JFloat t) = (if t = ''NaN'' then ''nan'' else if t = ''Infinity'' then ''inf'' else t)"
| "csv_value v = []"

definition TELEMETRY_KEYS :: "string set" where
  "TELEMETRY_KEYS = {''telemetry_start'', ''telemetry_end''}"

definition csv_columns :: "(string \<times> json) list \<Rightarrow> (string \<times> json) list" where
  "csv_columns members = filter (\<lambda>(k, v). k \<notin> TELEMETRY_KEYS) members"

definition csv_lines :: "(string \<times> json) list list \<Rightarrow> string list list" where
  "csv_lines rows = map fst (csv_columns (hd rows)) # map (\<lambda>row. map (csv_value \<circ> snd) (csv_columns row)) rows"

text \<open>The files written, and whether the header could be taken from a first row.\<close>

definition write_reports :: "float_format \<Rightarrow> (real \<Rightarrow> string) \<Rightarrow> (real \<Rightarrow> real) \<Rightarrow> gemm_args \<Rightarrow> measured_devices \<Rightarrow> (string \<times> string) list \<times> bool" where
  "write_reports fmt float_repr round3 args mpd =
     (let rows = map (row_members fmt float_repr round3) (measured_rows mpd);
          json_file = (case ga_json args of None \<Rightarrow> [] | Some p \<Rightarrow> if p = [] then []
            else [(p, dumps (Some 2) False (JObject [(''results'', JArray (map JObject rows))]))]) in
      case ga_csv args of None \<Rightarrow> (json_file, True)
      | Some p \<Rightarrow> if p = [] then (json_file, True)
          else if rows = [] then (json_file @ [(p, [])], False)
          else (json_file @ [(p, concat (map csv_row (csv_lines rows)))], True))"

subsection \<open>What is written can be read\<close>

text \<open>The integers of a row have decimal texts the interpreter converts.\<close>

definition row_ok :: "row \<Rightarrow> bool" where
  "row_ok row \<longleftrightarrow> (case row of (idx, name, r, m) \<Rightarrow>
     \<forall>n \<in> {idx, cf_m (re_config r), cf_n (re_config r), cf_k (re_config r), int (re_iters r)}. json_ok (JInt n))"

lemma telemetry_json_ok: "(\<And>x. float_text (float_repr x)) \<Longrightarrow> json_ok (telemetry_json float_repr t)"
  by (cases t) (simp_all add: telemetry_json_def float_json_def)

lemma row_members_ok:
  assumes "\<And>x. float_text (float_repr x)" and "row_ok row"
  shows "json_ok (JObject (row_members fmt float_repr round3 row))"
proof -
  obtain idx name r m where row: "row = (idx, name, r, m)" by (cases row) auto
  have opts: "json_ok (optional (float_json float_repr) d)" "json_ok (optional (err_json float_repr) e)" for d e
    using assms(1) by (auto simp: optional_def float_json_def err_json_def float_text_def split: option.splits rel_err.splits)
  have tele: "json_ok (telemetry_json float_repr t)" for t using assms(1) by (rule telemetry_json_ok)
  show ?thesis
    using assms opts tele by (simp add: row row_members_def row_ok_def float_json_def Let_def)
qed

lemma csv_columns_header: "map fst (csv_columns (row_members fmt float_repr round3 row)) =
  [''device'', ''name'', ''m'', ''n'', ''k'', ''dtype'', ''layout'', ''status'', ''reason'', ''iters'', ''median_tflops'', ''min_tflops'',
   ''max_tflops'', ''drift_pct'', ''max_rel_err'', ''validate_mode'', ''elapsed_s'']"
  by (cases row) (simp add: row_members_def csv_columns_def TELEMETRY_KEYS_def Let_def)

text \<open>
  The specification of the files. The entries of a run are the results of every device in their order,
  the devices ascending.
\<close>

definition in_device_order :: "measured_devices \<Rightarrow> row list \<Rightarrow> bool" where
  "in_device_order mpd entries \<longleftrightarrow> sorted (map fst entries) \<and> fst ` set entries \<subseteq> fst ` set mpd \<and>
     (\<forall>(idx, name, rs) \<in> set mpd. filter (\<lambda>e. fst e = idx) entries = map (\<lambda>(r, m). (idx, name, r, m)) rs)"

text \<open>The object of an entry, key by key.\<close>

definition object_reports :: "float_format \<Rightarrow> (real \<Rightarrow> string) \<Rightarrow> (real \<Rightarrow> real) \<Rightarrow> row \<Rightarrow> json \<Rightarrow> bool" where
  "object_reports fmt float_repr round3 entry obj \<longleftrightarrow> (case entry of (idx, name, r, m) \<Rightarrow> \<exists>kvs.
     obj = JObject kvs \<and> length kvs = 19 \<and>
     map_of kvs ''device'' = Some (JInt idx) \<and> map_of kvs ''name'' = Some (JString name) \<and>
     map_of kvs ''m'' = Some (JInt (cf_m (re_config r))) \<and> map_of kvs ''n'' = Some (JInt (cf_n (re_config r))) \<and>
     map_of kvs ''k'' = Some (JInt (cf_k (re_config r))) \<and> map_of kvs ''dtype'' = Some (JString (cf_dtype (re_config r))) \<and>
     map_of kvs ''layout'' = Some (JString (cf_layout (re_config r))) \<and>
     map_of kvs ''status'' = Some (JString (case re_status r of PASS \<Rightarrow> ''PASS'' | FAIL \<Rightarrow> ''FAIL'' | ERROR \<Rightarrow> ''ERROR'' | SKIP \<Rightarrow> ''SKIP'')) \<and>
     map_of kvs ''reason'' = Some (JString (reason_line fmt r)) \<and> map_of kvs ''iters'' = Some (JInt (int (re_iters r))) \<and>
     map_of kvs ''median_tflops'' = Some (JFloat (float_repr (re_median r))) \<and>
     map_of kvs ''min_tflops'' = Some (JFloat (float_repr (re_min r))) \<and>
     map_of kvs ''max_tflops'' = Some (JFloat (float_repr (re_max r))) \<and>
     map_of kvs ''drift_pct'' = Some (case re_drift r of None \<Rightarrow> JNull | Some d \<Rightarrow> JFloat (float_repr d)) \<and>
     map_of kvs ''max_rel_err'' = Some (case re_max_rel_err r of None \<Rightarrow> JNull | Some (Finite x) \<Rightarrow> JFloat (float_repr x)
       | Some Infinite \<Rightarrow> JFloat ''Infinity'' | Some NotANumber \<Rightarrow> JFloat ''NaN'') \<and>
     map_of kvs ''validate_mode'' = Some (JString (re_mode r)) \<and>
     map_of kvs ''elapsed_s'' = Some (JFloat (float_repr (round3 (ms_elapsed m)))) \<and>
     (\<forall>(key, sample) \<in> {(''telemetry_start'', ms_start m), (''telemetry_end'', ms_end m)}.
        map_of kvs key = Some (JObject (case sample of None \<Rightarrow> []
          | Some t \<Rightarrow> [(''power_w'', JFloat (float_repr (tm_power t))), (''temp_c'', JFloat (float_repr (tm_temp t))),
              (''sm_mhz'', JFloat (float_repr (tm_sm t))), (''mem_mhz'', JFloat (float_repr (tm_mem t)))]))))"

text \<open>The row of \<^verbatim>\<open>DictReader\<close> for an entry: seventeen columns, the integers as their texts.\<close>

definition row_reports :: "float_format \<Rightarrow> (real \<Rightarrow> string) \<Rightarrow> (real \<Rightarrow> real) \<Rightarrow> row \<Rightarrow> dict_row \<Rightarrow> bool" where
  "row_reports fmt float_repr round3 entry d \<longleftrightarrow> (case entry of (idx, name, r, m) \<Rightarrow>
     card (dom d) = 17 \<and>
     (\<forall>(key, n) \<in> {(''device'', idx), (''m'', cf_m (re_config r)), (''n'', cf_n (re_config r)), (''k'', cf_k (re_config r)),
         (''iters'', int (re_iters r))}. \<exists>s. d key = Some (Some s) \<and> py_int10 s = Some n) \<and>
     d ''name'' = Some (Some name) \<and> d ''dtype'' = Some (Some (cf_dtype (re_config r))) \<and>
     d ''layout'' = Some (Some (cf_layout (re_config r))) \<and>
     d ''status'' = Some (Some (case re_status r of PASS \<Rightarrow> ''PASS'' | FAIL \<Rightarrow> ''FAIL'' | ERROR \<Rightarrow> ''ERROR'' | SKIP \<Rightarrow> ''SKIP'')) \<and>
     d ''reason'' = Some (Some (reason_line fmt r)) \<and> d ''median_tflops'' = Some (Some (float_repr (re_median r))) \<and>
     d ''min_tflops'' = Some (Some (float_repr (re_min r))) \<and> d ''max_tflops'' = Some (Some (float_repr (re_max r))) \<and>
     d ''drift_pct'' = Some (Some (case re_drift r of None \<Rightarrow> [] | Some x \<Rightarrow> float_repr x)) \<and>
     d ''max_rel_err'' = Some (Some (case re_max_rel_err r of None \<Rightarrow> [] | Some (Finite x) \<Rightarrow> float_repr x
       | Some Infinite \<Rightarrow> ''inf'' | Some NotANumber \<Rightarrow> ''nan'')) \<and>
     d ''validate_mode'' = Some (Some (re_mode r)) \<and> d ''elapsed_s'' = Some (Some (float_repr (round3 (ms_elapsed m)))))"

text \<open>What the reader of CSV needs of an entry: no field over its limit.\<close>

definition fields_fit :: "float_format \<Rightarrow> row \<Rightarrow> bool" where
  "fields_fit fmt entry \<longleftrightarrow> (case entry of (idx, name, r, m) \<Rightarrow>
     \<forall>s \<in> {name, cf_dtype (re_config r), cf_layout (re_config r), reason_line fmt r, re_mode r}. int (length s) \<le> field_size_limit)"

text \<open>\<^verbatim>\<open>repr\<close> of a float that is a number: a number text that is not an integer.\<close>

definition number_repr :: "(real \<Rightarrow> string) \<Rightarrow> bool" where
  "number_repr float_repr \<longleftrightarrow> (\<forall>x. scan_number (float_repr x) = Some (JFloat (float_repr x), []) \<and>
     int (length (float_repr x)) \<le> field_size_limit)"

lemma number_repr_text: "number_repr float_repr \<Longrightarrow> float_text (float_repr x)"
  by (simp add: number_repr_def float_text_def)

lemma number_repr_name: "number_repr float_repr \<Longrightarrow> float_repr x \<noteq> ''NaN'' \<and> float_repr x \<noteq> ''Infinity''"
proof -
  have "scan_number ''NaN'' = None" "scan_number ''Infinity'' = None" by code_simp+
  then show "number_repr float_repr \<Longrightarrow> ?thesis" by (metis number_repr_def option.distinct(1))
qed

lemma rows_in_order:
  assumes "distinct (map fst ds)" and "sorted (map fst ds)"
  shows "in_device_order ds (concat (map (\<lambda>(idx, name, rs). map (\<lambda>(r, m). (idx, name, r, m)) rs) ds))"
  using assms
proof (induction ds)
  case (Cons d ds)
  obtain idx name rs where d: "d = (idx, name, rs)" by (cases d)
  define tail where "tail = concat (map (\<lambda>(idx, name, rs). map (\<lambda>(r, m). (idx, name, r, m)) rs) ds)"
  define first where "first = map (\<lambda>(r, m). (idx, name, r, m)) rs"
  have tail: "in_device_order ds tail" unfolding tail_def using Cons.prems by (intro Cons.IH) simp_all
  have mine: "fst e = idx" if "e \<in> set first" for e using that by (auto simp: first_def)
  have less: "idx < fst x" if "x \<in> set ds" for x
  proof -
    have "fst x \<in> fst ` set ds" using that by (rule imageI)
    then have "idx \<noteq> fst x" "idx \<le> fst x" using Cons.prems that by (auto simp: d)
    then show ?thesis by simp
  qed
  have later: "idx < fst e" if "e \<in> set tail" for e
  proof -
    have "fst e \<in> fst ` set ds" using that tail unfolding in_device_order_def by blast
    then show ?thesis using less by (elim imageE) simp
  qed
  have "sorted (map fst first)" using mine by (auto simp: sorted_iff_nth_mono)
  moreover have "\<forall>x \<in> set first. \<forall>y \<in> set tail. fst x \<le> fst y" using mine later by (auto intro: less_imp_le)
  ultimately have "sorted (map fst (first @ tail))" using tail by (simp add: sorted_append in_device_order_def)
  moreover have "fst ` set (first @ tail) \<subseteq> fst ` set (d # ds)"
    using tail mine by (auto simp: d in_device_order_def)
  moreover have "filter (\<lambda>e. fst e = idx) (first @ tail) = first"
  proof -
    have "filter (\<lambda>e. fst e = idx) first = first" using mine by (simp add: filter_id_conv)
    moreover have "filter (\<lambda>e. fst e = idx) tail = []" by (intro filter_False ballI) (drule later, simp)
    ultimately show ?thesis by (simp only: filter_append append_Nil2)
  qed
  moreover have "filter (\<lambda>e. fst e = i) (first @ tail) = filter (\<lambda>e. fst e = i) tail" if "(i, rest) \<in> set ds" for i rest
  proof -
    have "filter (\<lambda>e. fst e = i) first = []" using less [OF that] by (intro filter_False ballI) (drule mine, simp)
    then show ?thesis by (simp only: filter_append append_Nil)
  qed
  ultimately show ?case
    using tail unfolding in_device_order_def by (auto simp: d simp flip: tail_def first_def)
qed (simp add: in_device_order_def)

lemma measured_rows_order: "distinct (map fst mpd) \<Longrightarrow> in_device_order mpd (measured_rows mpd)"
proof -
  assume "distinct (map fst mpd)"
  then have "inj_on fst (set mpd)" "distinct mpd" by (simp_all add: distinct_map)
  then have "distinct (map fst (sort_key fst mpd))" by (simp add: distinct_map)
  from rows_in_order [OF this] show ?thesis by (simp add: in_device_order_def measured_rows_def)
qed

lemma members_report: "object_reports fmt float_repr round3 entry (JObject (row_members fmt float_repr round3 entry))"
proof -
  obtain idx name r m where entry: "entry = (idx, name, r, m)" by (cases entry) auto
  have status: "status_name s = (case s of PASS \<Rightarrow> ''PASS'' | FAIL \<Rightarrow> ''FAIL'' | ERROR \<Rightarrow> ''ERROR'' | SKIP \<Rightarrow> ''SKIP'')" for s
    by (cases s) simp_all
  have drift: "optional (float_json float_repr) d = (case d of None \<Rightarrow> JNull | Some d \<Rightarrow> JFloat (float_repr d))" for d
    by (simp add: optional_def float_json_def split: option.split)
  have err: "optional (err_json float_repr) e = (case e of None \<Rightarrow> JNull | Some (Finite x) \<Rightarrow> JFloat (float_repr x)
      | Some Infinite \<Rightarrow> JFloat ''Infinity'' | Some NotANumber \<Rightarrow> JFloat ''NaN'')" for e
    by (simp add: optional_def err_json_def split: option.split rel_err.split)
  have tele: "telemetry_json float_repr t = JObject (case t of None \<Rightarrow> []
      | Some t \<Rightarrow> [(''power_w'', JFloat (float_repr (tm_power t))), (''temp_c'', JFloat (float_repr (tm_temp t))),
          (''sm_mhz'', JFloat (float_repr (tm_sm t))), (''mem_mhz'', JFloat (float_repr (tm_mem t)))])" for t
    by (simp add: telemetry_json_def float_json_def split: option.split)
  show ?thesis
    by (simp add: entry object_reports_def row_members_def Let_def status drift err tele) (simp add: float_json_def)
qed

definition CSV_NAMES :: "string list" where
  "CSV_NAMES = [''device'', ''name'', ''m'', ''n'', ''k'', ''dtype'', ''layout'', ''status'', ''reason'', ''iters'', ''median_tflops'', ''min_tflops'',
     ''max_tflops'', ''drift_pct'', ''max_rel_err'', ''validate_mode'', ''elapsed_s'']"

text \<open>The texts of a row, in the order of the columns.\<close>

lemma csv_texts:
  assumes "number_repr float_repr"
  shows "map (csv_value \<circ> snd) (csv_columns (row_members fmt float_repr round3 (idx, name, r, m))) =
    [py_str idx, name, py_str (cf_m (re_config r)), py_str (cf_n (re_config r)), py_str (cf_k (re_config r)),
     cf_dtype (re_config r), cf_layout (re_config r), status_name (re_status r), reason_line fmt r, py_str (int (re_iters r)),
     float_repr (re_median r), float_repr (re_min r), float_repr (re_max r),
     (case re_drift r of None \<Rightarrow> [] | Some x \<Rightarrow> float_repr x),
     (case re_max_rel_err r of None \<Rightarrow> [] | Some (Finite x) \<Rightarrow> float_repr x | Some Infinite \<Rightarrow> ''inf'' | Some NotANumber \<Rightarrow> ''nan''),
     re_mode r, float_repr (round3 (ms_elapsed m))]"
proof -
  have plain: "csv_value (float_json float_repr x) = float_repr x" for x
    using number_repr_name [OF assms, of x] by (simp add: float_json_def)
  have drift: "csv_value (optional (float_json float_repr) d) = (case d of None \<Rightarrow> [] | Some x \<Rightarrow> float_repr x)" for d
    by (simp add: optional_def plain split: option.split)
  have err: "csv_value (optional (err_json float_repr) e) = (case e of None \<Rightarrow> [] | Some (Finite x) \<Rightarrow> float_repr x
      | Some Infinite \<Rightarrow> ''inf'' | Some NotANumber \<Rightarrow> ''nan'')" for e
    using number_repr_name [OF assms] by (simp add: optional_def err_json_def split: option.split rel_err.split)
  show ?thesis by (simp add: row_members_def csv_columns_def TELEMETRY_KEYS_def Let_def plain drift err)
qed

lemma csv_row_reports:
  assumes "number_repr float_repr" and "row_ok entry"
  shows "row_reports fmt float_repr round3 entry
    (dict_row CSV_NAMES (map (csv_value \<circ> snd) (csv_columns (row_members fmt float_repr round3 entry))))"
proof -
  obtain idx name r m where entry: "entry = (idx, name, r, m)" by (cases entry) auto
  have ints: "py_int10 (py_str n) = Some n"
    if "n \<in> {idx, cf_m (re_config r), cf_n (re_config r), cf_k (re_config r), int (re_iters r)}" for n
    using assms(2) that by (intro py_int10_py_str) (auto simp: entry row_ok_def)
  have status: "status_name s = (case s of PASS \<Rightarrow> ''PASS'' | FAIL \<Rightarrow> ''FAIL'' | ERROR \<Rightarrow> ''ERROR'' | SKIP \<Rightarrow> ''SKIP'')" for s
    by (cases s) simp_all
  show ?thesis
    unfolding entry csv_texts [OF assms(1)] row_reports_def dict_row_def CSV_NAMES_def
    by (simp add: ints status dom_map_of_conv_image_fst)
qed

lemma csv_fields_fit:
  assumes "number_repr float_repr" and "row_ok entry" and "fields_fit fmt entry"
    and "field \<in> set (map (csv_value \<circ> snd) (csv_columns (row_members fmt float_repr round3 entry)))"
  shows "int (length field) \<le> field_size_limit"
proof -
  obtain idx name r m where entry: "entry = (idx, name, r, m)" by (cases entry) auto
  have ints: "int (length (py_str n)) \<le> field_size_limit"
    if "n \<in> {idx, cf_m (re_config r), cf_n (re_config r), cf_k (re_config r), int (re_iters r)}" for n
    using assms(2) that by (auto simp: entry row_ok_def py_str_def max_str_digits_def field_size_limit_def)
  have floats: "int (length (float_repr x)) \<le> field_size_limit" for x
    using assms(1) by (simp add: number_repr_def)
  have status: "int (length (status_name s)) \<le> field_size_limit" for s
    by (cases s) (simp_all add: field_size_limit_def)
  have opts: "int (length (case d of None \<Rightarrow> [] | Some x \<Rightarrow> float_repr x)) \<le> field_size_limit"
    "int (length (case e of None \<Rightarrow> [] | Some (Finite x) \<Rightarrow> float_repr x | Some Infinite \<Rightarrow> ''inf'' | Some NotANumber \<Rightarrow> ''nan'')) \<le>
       field_size_limit" for d e
    using floats by (auto simp: field_size_limit_def split: option.split rel_err.split)
  show ?thesis
    using assms(3,4) ints floats status opts unfolding entry csv_texts [OF assms(1)]
    by (auto simp: fields_fit_def)
qed

text \<open>
  C22: The files of a run say what was measured. With a path for each and at least one result, both files
  are written. Read back, the JSON file is an object whose \<^verbatim>\<open>results\<close> are one object for every
  result of every device, in their order and the devices ascending, each with its nineteen keys and the
  measured values under them; the CSV file, read by its header, has one row of seventeen columns for each
  of the same results with the same values, whatever commas, quotes or line breaks the device names and
  messages hold. The integers are within the interpreter's limit on digits and the texts within the reader's
  limit on fields; \<^verbatim>\<open>repr\<close> of a float is a number text.
\<close>

theorem report_files_read_back:
  assumes "ga_json args = Some jp" and "ga_csv args = Some cp" and "jp \<noteq> []" and "cp \<noteq> []"
    and "distinct (map fst mpd)" and "\<exists>(idx, name, rs) \<in> set mpd. rs \<noteq> []" and "number_repr float_repr"
    and "\<forall>(idx, name, rs) \<in> set mpd. \<forall>(r, m) \<in> set rs. row_ok (idx, name, r, m) \<and> fields_fit fmt (idx, name, r, m)"
  shows "\<exists>jt ct entries objs ds. write_reports fmt float_repr round3 args mpd = ([(jp, jt), (cp, ct)], True) \<and>
    in_device_order mpd entries \<and>
    loads jt = Some (JObject [(''results'', JArray objs)]) \<and> list_all2 (object_reports fmt float_repr round3) entries objs \<and>
    dict_rows ct = Some ds \<and> list_all2 (row_reports fmt float_repr round3) entries ds"
proof -
  define entries where "entries = measured_rows mpd"
  define rows where "rows = map (row_members fmt float_repr round3) entries"
  define texts where "texts = map (map (csv_value \<circ> snd) \<circ> csv_columns) rows"
  have fit: "row_ok e \<and> fields_fit fmt e" if mem: "e \<in> set entries" for e
  proof -
    obtain idx name rs r m where "(idx, name, rs) \<in> set mpd" "(r, m) \<in> set rs" "e = (idx, name, r, m)"
      using mem by (auto simp: entries_def measured_rows_def)
    with assms(8) show ?thesis by (auto dest!: bspec)
  qed
  have rows: "rows \<noteq> []" using assms(6) by (force simp: rows_def entries_def measured_rows_def)
  have header: "map fst (csv_columns (hd rows)) = CSV_NAMES"
    using rows csv_columns_header by (simp add: rows_def hd_map CSV_NAMES_def)
  then have lines: "csv_lines rows = CSV_NAMES # texts" by (simp add: csv_lines_def texts_def comp_def)
  have "json_ok (JObject [(''results'', JArray (map JObject rows))])"
    using fit row_members_ok [OF number_repr_text [OF assms(7)]]
    by (auto simp: rows_def simp del: json_ok.simps(4) simp: json_ok.simps(4) [of "[(''results'', x)]" for x])
  from json_text.dec_enc [OF this]
  have json: "loads (dumps (Some 2) False (JObject [(''results'', JArray (map JObject rows))])) = Some (JObject [(''results'', JArray (map JObject rows))])" .
  have "int (length f) \<le> field_size_limit" if mem: "line \<in> set (csv_lines rows)" "f \<in> set line" for line f
  proof (cases "line = CSV_NAMES")
    case True
    then show ?thesis using mem(2) by (auto simp: CSV_NAMES_def field_size_limit_def)
  next
    case False
    then obtain e where "e \<in> set entries" "line = map (csv_value \<circ> snd) (csv_columns (row_members fmt float_repr round3 e))"
      using mem(1) unfolding lines by (auto simp: texts_def rows_def)
    then show ?thesis using csv_fields_fit [OF assms(7)] fit mem(2) by blast
  qed
  then have csv: "csv_rows (concat (map csv_row (csv_lines rows))) = Some (csv_lines rows)" by (intro csv_rows_written) blast
  have "csv_columns (row_members fmt float_repr round3 e) \<noteq> []" for e
    using csv_columns_header [of fmt float_repr round3 e] by (metis list.discI list.simps(8))
  then have filled: "filter (\<lambda>t. t \<noteq> []) texts = texts" by (auto simp: filter_id_conv texts_def rows_def)
  have ds: "dict_rows (concat (map csv_row (csv_lines rows))) = Some (map (dict_row CSV_NAMES) texts)"
    unfolding dict_rows_def csv by (simp add: lines filled)
  have "write_reports fmt float_repr round3 args mpd =
      ([(jp, dumps (Some 2) False (JObject [(''results'', JArray (map JObject rows))])), (cp, concat (map csv_row (csv_lines rows)))], True)"
    using assms(1-4) rows by (simp add: write_reports_def Let_def rows_def entries_def)
  moreover have "list_all2 (object_reports fmt float_repr round3) entries (map JObject rows)"
    by (simp add: rows_def list.rel_map list.rel_refl_strong members_report)
  moreover have "list_all2 (row_reports fmt float_repr round3) entries (map (dict_row CSV_NAMES) texts)"
    using fit csv_row_reports [OF assms(7)] by (simp add: texts_def rows_def list.rel_map list.rel_refl_strong comp_def)
  ultimately show ?thesis
    using measured_rows_order [OF assms(5)] json ds unfolding entries_def by blast
qed

text \<open>The missing rows of the CSV file are the only failure, and the one of \<^verbatim>\<open>main\<close>.\<close>

lemma sort_key_map: "(\<And>x. f (g x) = h x) \<Longrightarrow> sort_key f (map g xs) = map g (sort_key h xs)"
proof -
  assume f: "\<And>x. f (g x) = h x"
  have "insort_key f (g x) (map g ys) = map g (insort_key h x ys)" for x ys by (induction ys) (simp_all add: f)
  then show ?thesis by (induction xs) simp_all
qed

lemma measured_rows_plain: "map (\<lambda>(idx, name, r, m). (idx, name, r)) (measured_rows mpd) = output_rows (without_measures mpd)"
proof -
  have "sort_key fst (without_measures mpd) = map (\<lambda>(idx, name, rs). (idx, name, map fst rs)) (sort_key fst mpd)"
    unfolding without_measures_def by (rule sort_key_map) auto
  then show ?thesis by (simp add: output_rows_def measured_rows_def map_concat comp_def case_prod_unfold)
qed

text \<open>The verdict line of the report is the one the exit status follows.\<close>

lemma report_last: "last (report_lines fmt mpd) = ''RESULT: PASS'' \<longleftrightarrow> report (without_measures mpd) = 0"
  by (simp add: report_lines_def report_def Let_def)

lemma write_reports_fails:
  "snd (write_reports fmt float_repr round3 args mpd) \<longleftrightarrow> \<not> (path_given (ga_csv args) \<and> output_rows (without_measures mpd) = [])"
proof -
  have "map (row_members fmt float_repr round3) (measured_rows mpd) = [] \<longleftrightarrow> output_rows (without_measures mpd) = []"
    by (simp flip: measured_rows_plain)
  then show ?thesis by (simp add: write_reports_def path_given_def Let_def split: option.splits)
qed

text \<open>A run on one card, measured; the driver's name holds a comma and a quote.\<close>

definition demo_measured :: measured_devices where
  "demo_measured = [(1, ''CMP 100-210, \"GV100\"'', [((fresh_result demo_config ''block'')\<lparr>re_reason := [OverBudget 2 1]\<rparr>, no_measures)])]"

theorem report_files_read_back_witness:
  "\<exists>jt ct obj d. write_reports (\<lambda>_ _. ''0.0'') (\<lambda>_. ''0.0'') id (default_args\<lparr>ga_json := Some ''soak.json'', ga_csv := Some ''soak.csv''\<rparr>) demo_measured
     = ([(''soak.json'', jt), (''soak.csv'', ct)], True) \<and>
   loads jt = Some (JObject [(''results'', JArray [obj])]) \<and> dict_rows ct = Some [d] \<and>
   d ''name'' = Some (Some ''CMP 100-210, \"GV100\"'') \<and> d ''status'' = Some (Some ''SKIP'')"
proof -
  let ?r = "(fresh_result demo_config ''block'')\<lparr>re_reason := [OverBudget 2 1]\<rparr>"
  have "scan_number ''0.0'' = Some (JFloat ''0.0'', [])" by code_simp
  then have float: "number_repr (\<lambda>_. ''0.0'')" by (simp add: number_repr_def field_size_limit_def)
  have "row_ok (1, name, ?r, no_measures)" for name
    by (simp add: row_ok_def fresh_result_def demo_config_def) (simp add: dec_nat.simps max_str_digits_def)
  moreover have "fields_fit (\<lambda>_ _. ''0.0'') (1, ''CMP 100-210, \"GV100\"'', ?r, no_measures)"
    by (simp add: fields_fit_def fresh_result_def demo_config_def reason_line_def field_size_limit_def)
  ultimately have rows: "\<forall>(idx, name, rs) \<in> set demo_measured. \<forall>(r, m) \<in> set rs. row_ok (idx, name, r, m) \<and>
      fields_fit (\<lambda>_ _. ''0.0'') (idx, name, r, m)"
    by (simp add: demo_measured_def)
  have one: "distinct (map fst demo_measured)" "\<exists>(idx, name, rs) \<in> set demo_measured. rs \<noteq> []"
    by (simp_all add: demo_measured_def)
  let ?args = "default_args\<lparr>ga_json := Some ''soak.json'', ga_csv := Some ''soak.csv''\<rparr>"
  have paths: "ga_json ?args = Some ''soak.json''" "ga_csv ?args = Some ''soak.csv''" by simp_all
  have order: "entries = [(1, ''CMP 100-210, \"GV100\"'', ?r, no_measures)]" if "in_device_order demo_measured entries" for entries
  proof -
    have "fst e = 1" if "e \<in> set entries" for e
      using \<open>in_device_order demo_measured entries\<close> that by (auto simp: in_device_order_def demo_measured_def)
    then have "filter (\<lambda>e. fst e = 1) entries = entries" by (simp add: filter_id_conv)
    with that show ?thesis by (simp add: in_device_order_def demo_measured_def)
  qed
  show ?thesis
    using report_files_read_back [OF paths _ _ one float rows, of id]
    by (auto dest!: order simp: list_all2_Cons1 row_reports_def fresh_result_def)
qed

end
