(* ===== verification/GemmWhole.thy ===== *)
theory GemmWhole
  imports GemmReport
begin

text \<open>
  \<^verbatim>\<open>tools/gemm_stress.py\<close>, the program as a whole: the batches run the devices, the devices run
  their configurations, and what \<^verbatim>\<open>main\<close> prints, writes and returns follows from the results.
\<close>

subsection \<open>What is printed and returned\<close>

text \<open>\<^verbatim>\<open>versions\<close> are those of PyTorch and CUDA; \<open>props\<close> answers the query of a device.\<close>

definition header_lines :: "float_format \<Rightarrow> string \<times> string \<Rightarrow> (int \<times> string) list \<Rightarrow> (int \<Rightarrow> (int \<times> int \<times> int) option) \<Rightarrow> gemm_args \<Rightarrow> int list \<Rightarrow> string list" where
  "header_lines fmt versions names props args devices =
     [''GEMM STRESS - TENSOR-CORE HAMMER'',
      ''PyTorch '' @ fst versions @ '' | CUDA '' @ snd versions,
      ''devices=['' @ join '', '' (map py_str devices) @ ''] | '' @
        (if ga_seconds args > 0 then ''sustained '' @ fmt ''g'' (ga_seconds args) @ ''s/config'' else py_str (ga_repeats args) @ '' iters/config'') @
        '' | warmup='' @ py_str (ga_warmup args) @ '' | validate='' @ ga_validate args @ '' tol='' @ fmt ''g'' (ga_tol args)] @
     map (\<lambda>idx. ''  cuda:'' @ py_str idx @ '' '' @ (case map_of names idx of None \<Rightarrow> ''?'' | Some name \<Rightarrow> name) @ '' | '' @
       describe_device (props idx)) devices @
     [replicate 72 (CHR ''-'')]"

text \<open>The notes on devices that are left out.\<close>

definition skip_notes :: "gemm_args \<Rightarrow> (int \<times> string) list \<Rightarrow> string list" where
  "skip_notes args names = map (\<lambda>idx. ''note: skipping AMD device '' @ py_str idx @ '' ('' @ the (map_of names idx) @
     ''); AMD cards are always excluded from stress runs'') (snd (select_devices (ga_devices args) names))"

text \<open>The tensor ratio changes verdicts, not measures.\<close>

definition ratio_measured :: "gemm_args \<Rightarrow> measured_devices \<Rightarrow> measured_devices" where
  "ratio_measured args mpd =
     (if ga_tensor_ratio args \<le> 0 then mpd
      else map (\<lambda>(idx, name, rs). (idx, name, map (\<lambda>(r, m). (ratio_gate (ga_tensor_ratio args) (baselines (map fst rs)) r, m)) rs)) mpd)"

lemma ratio_measured_plain: "without_measures (ratio_measured args mpd) = apply_tensor_ratio args (without_measures mpd)"
  by (simp add: ratio_measured_def apply_tensor_ratio_def without_measures_def case_prod_unfold comp_def)

text \<open>\<^verbatim>\<open>main\<close> after the devices have run: the lines printed, the files written, and the result.\<close>

definition gemm_tail :: "float_format \<Rightarrow> (real \<Rightarrow> string) \<Rightarrow> (real \<Rightarrow> real) \<Rightarrow> gemm_args \<Rightarrow> measured_devices \<Rightarrow> bool \<Rightarrow>
    string list \<times> (string \<times> string) list \<times> main_result" where
  "gemm_tail fmt float_repr round3 args mpd interrupted =
     (let mpd' = (if interrupted then mpd else ratio_measured args mpd);
          note = (if interrupted then [''interrupted by user; partial results below''] else []);
          (files, complete) = write_reports fmt float_repr round3 args mpd' in
      if \<not> complete then (note @ map (\<lambda>(path, _). ''wrote '' @ path) (butlast files), files, CsvIndexError)
      else (note @ map (\<lambda>(path, _). ''wrote '' @ path) files @ report_lines fmt mpd', files,
        Exit (if interrupted then 130 else report (without_measures mpd'))))"

text \<open>It ends as \<open>gemm_main\<close> says.\<close>

lemma gemm_tail_result:
  "snd (snd (gemm_tail fmt float_repr round3 args mpd interrupted)) =
   (let pd' = (if interrupted then without_measures mpd else apply_tensor_ratio args (without_measures mpd)) in
    if path_given (ga_csv args) \<and> output_rows pd' = [] then CsvIndexError else Exit (if interrupted then 130 else report pd'))"
proof -
  define mpd' where "mpd' = (if interrupted then mpd else ratio_measured args mpd)"
  obtain files complete where files: "write_reports fmt float_repr round3 args mpd' = (files, complete)" by fastforce
  then have "complete \<longleftrightarrow> \<not> (path_given (ga_csv args) \<and> output_rows (without_measures mpd') = [])"
    using write_reports_fails [of fmt float_repr round3 args mpd'] by simp
  moreover have "without_measures mpd' = (if interrupted then without_measures mpd else apply_tensor_ratio args (without_measures mpd))"
    by (simp add: mpd'_def ratio_measured_plain)
  ultimately show ?thesis by (simp add: gemm_tail_def Let_def files flip: mpd'_def)
qed

subsection \<open>Devices that are not interrupted\<close>

text \<open>What a device is and what happens to its configurations, by position.\<close>

record device_env =
  dv_name :: string
  dv_free :: int
  dv_runs :: "nat \<Rightarrow> backend"

definition device_outcome :: "(int \<Rightarrow> int) \<Rightarrow> gemm_args \<Rightarrow> config list \<Rightarrow> device_env \<Rightarrow> device_result option" where
  "device_outcome headroom args configs dv =
     map_option (Pair (dv_name dv)) (run_device headroom args (device_budget args (dv_free dv))
       (map (\<lambda>k. (configs ! k, dv_runs dv k, False)) [0..<length configs]))"

text \<open>The threads of a batch each run one device; no interrupt arrives.\<close>

definition run_batch :: "(int \<Rightarrow> int) \<Rightarrow> gemm_args \<Rightarrow> (int \<Rightarrow> device_env) \<Rightarrow> config list \<Rightarrow> nat \<Rightarrow> int list \<Rightarrow> batch_event" where
  "run_batch headroom args dvs configs num batch =
     Completed (map (\<lambda>idx. the (device_outcome headroom args configs (dvs idx))) batch) False"

lemma run_batch_ok: "env_ok (run_batch headroom args dvs configs)"
  by (simp add: env_ok_def run_batch_def)

lemma store_results_values:
  assumes "\<forall>(idx, out) \<in> set acc. out = f idx"
  shows "\<forall>(idx, out) \<in> set (store_results batch (map f batch) acc). out = f idx"
proof -
  have update: "\<forall>(i, out) \<in> set (AList.update idx (f idx) xs). out = f i" if "\<forall>(i, out) \<in> set xs. out = f i" for idx xs
    using that by (induction xs) (auto split: if_splits)
  have "\<forall>(idx, out) \<in> set (foldl (\<lambda>acc (idx, out). AList.update idx out acc) acc (zip batch (map f batch))). out = f idx"
    using assms
  proof (induction batch arbitrary: acc)
    case (Cons idx batch)
    then show ?case using update [OF Cons.prems, of idx] by simp
  qed simp
  then show ?thesis by (simp add: store_results_def)
qed

lemma run_batches_values:
  assumes "\<forall>(idx, out) \<in> set acc. out = the (device_outcome headroom args configs (dvs idx))"
  shows "\<forall>(idx, out) \<in> set (fst (run_batches (run_batch headroom args dvs configs) num batches acc stop)).
    out = the (device_outcome headroom args configs (dvs idx))"
  using assms
proof (induction batches arbitrary: num acc stop)
  case (Cons batch batches)
  show ?case
  proof (cases stop)
    case False
    have "\<forall>(idx, out) \<in> set (store_results batch (map (\<lambda>idx. the (device_outcome headroom args configs (dvs idx))) batch) acc).
        out = the (device_outcome headroom args configs (dvs idx))"
      by (rule store_results_values [OF Cons.prems])
    from Cons.IH [OF this] False show ?thesis by (simp add: run_batch_def)
  qed (use Cons.prems in simp)
qed simp

lemma run_all_values:
  assumes "run_all (run_batch headroom args dvs configs) args devices False = Inr (pd, interrupted)"
    and "(idx, out) \<in> set pd"
  shows "out = the (device_outcome headroom args configs (dvs idx))"
proof -
  obtain batches where "run_batches (run_batch headroom args dvs configs) 1 batches [] False = (pd, interrupted)"
    using assms(1) by (auto simp: run_all_def bind_res_Inr_conv Let_def)
  then have "pd = fst (run_batches (run_batch headroom args dvs configs) 1 batches [] False)" by simp
  with run_batches_values [of "[]" headroom args configs dvs 1 batches False] assms(2) show ?thesis by auto
qed

text \<open>The sizes of a run.\<close>

definition workload :: "gemm_args \<Rightarrow> int list" where
  "workload args = (if ga_sizes args = [] \<and> ga_shapes args = [] then [8192] else ga_sizes args)"

text \<open>Without a failure a device runs all its configurations in order.\<close>

lemma run_device_all:
  assumes "run_device headroom args budget xs = Some rs" and "\<forall>(cfg, be, stop) \<in> set xs. \<not> stop"
    and "\<forall>r \<in> set rs. re_status r = PASS \<or> re_status r = SKIP"
  shows "list_all2 (\<lambda>(cfg, be, stop) r. run_config headroom args budget cfg be = Some r) xs rs"
  using assms
proof (induction xs arbitrary: rs)
  case (Cons x xs)
  obtain cfg be stop where x: "x = (cfg, be, stop)" by (cases x)
  with Cons.prems obtain r where r: "run_config headroom args budget cfg be = Some r" by (auto split: option.splits)
  have "re_status r = PASS \<or> re_status r = SKIP"
    using Cons.prems x r by (auto split: if_splits)
  then obtain rs' where "rs = r # rs'" "run_device headroom args budget xs = Some rs'"
    using Cons.prems x r by (auto split: if_splits)
  with Cons x r show ?case by auto
qed simp

text \<open>Only a configuration over budget is skipped.\<close>

lemma skipped_run:
  assumes "run_config headroom args budget cfg be = Some r" and "re_status r = SKIP"
  shows "budget < estimate_bytes headroom (cf_m cfg) (cf_n cfg) (cf_k cfg) (cf_dtype cfg) (re_mode r = ''full'') (ga_validate_block args)"
proof (rule ccontr)
  define mode where "mode = validate_mode headroom args cfg budget"
  have verdict: "re_status (verdict args mode ok stop why st res) \<noteq> SKIP" for ok stop why st res
    by (auto simp: verdict_def Let_def)
  assume fits: "\<not> ?thesis"
  have need: "estimate_bytes headroom (cf_m cfg) (cf_n cfg) (cf_k cfg) (cf_dtype cfg) (mode = ''full'') (ga_validate_block args) \<le> budget"
    using fits assms(1) by (auto simp: run_config_def Let_def fresh_result_def mode_def not_le split: if_splits)
  have "\<exists>e. r = (fresh_result cfg mode)\<lparr>re_status := ERROR, re_reason := [e]\<rparr> \<or>
      (\<exists>stop why st. r = verdict args mode (be_finite be) stop why st (fresh_result cfg mode))"
  proof (cases "be_operands be = None \<and> be_warmup be = None")
    case False
    then show ?thesis using assms(1) need by (auto simp: run_config_def Let_def mode_def [symmetric] split: option.splits)
  next
    case True
    then obtain e where e: "r = (case last_iteration args mode (be_last be) e of
          Crashed msg \<Rightarrow> (fresh_result cfg mode)\<lparr>re_status := ERROR, re_reason := [TimedFailed msg]\<rparr>
        | LoopInterrupted st \<Rightarrow> verdict args mode (be_finite be) True [InterruptedPartial] st (fresh_result cfg mode)
        | Finished st stop \<Rightarrow> verdict args mode (be_finite be) (stop \<or> be_stop_last be) [] st (fresh_result cfg mode))"
      using assms(1) need by (auto simp: run_config_def Let_def mode_def [symmetric])
    show ?thesis by (cases "last_iteration args mode (be_last be) e") (use e in auto)
  qed
  with verdict assms(2) show False by (auto simp: fresh_result_def)
qed

text \<open>
  C20: What exit status 0 means for a run that is not interrupted. Every selected device, none of them
  an AMD one, ran every configuration; each either was estimated over its memory budget and skipped,
  which does not fail the run, or was reported as PASS and meets the specification \<open>passed_run\<close>: finite and
  uninterrupted, all the requested iterations or the requested time, the median not below
  \<^verbatim>\<open>--min-tflops\<close>, and unless validation is off no checked error that is a number above the
  tolerance. At least one configuration passed.
\<close>

theorem gemm_run_verified:
  assumes "gemm_main cuda names (run_batch headroom args dvs) args = Exit 0"
    and "\<And>dims idx. parse_shapes (workload args) (ga_shapes args) = Inr dims \<Longrightarrow>
      idx \<in> set (fst (select_devices (ga_devices args) names)) \<Longrightarrow> device_outcome headroom args (make_configs args dims) (dvs idx) \<noteq> None"
  shows "\<exists>dims configs. parse_shapes (workload args) (ga_shapes args) = Inr dims \<and> configs = make_configs args dims \<and>
    (\<forall>idx \<in> set (fst (select_devices (ga_devices args) names)). \<not> amd_index names idx \<and>
      (\<forall>k < length configs. \<exists>r. run_config headroom args (device_budget args (dv_free (dvs idx))) (configs ! k) (dv_runs (dvs idx) k) = Some r \<and>
        (if device_budget args (dv_free (dvs idx)) < estimate_bytes headroom (cf_m (configs ! k)) (cf_n (configs ! k))
            (cf_k (configs ! k)) (cf_dtype (configs ! k)) (re_mode r = ''full'') (ga_validate_block args)
         then re_status r = SKIP
         else re_status r = PASS \<and> passed_run args (configs ! k) (dv_runs (dvs idx) k) r))) \<and>
    (\<exists>idx \<in> set (fst (select_devices (ga_devices args) names)). \<exists>k < length configs. \<exists>r.
      run_config headroom args (device_budget args (dv_free (dvs idx))) (configs ! k) (dv_runs (dvs idx) k) = Some r \<and> re_status r = PASS)"
proof -
  let ?devices = "fst (select_devices (ga_devices args) names)"
  have repeats: "0 \<le> ga_repeats args" using assms(1) by (auto simp: gemm_main_def Let_def split: if_splits)
  obtain dims pd where shapes: "parse_shapes (workload args) (ga_shapes args) = Inr dims" and run: "run_all (run_batch headroom args dvs (make_configs args dims)) args ?devices False = Inr (pd, False)"
    "fst ` set pd = set ?devices" "\<forall>idx \<in> fst ` set pd. \<not> amd_index names idx"
    "\<forall>r \<in> set (all_results pd). re_status r = PASS \<or> re_status r = SKIP" "\<exists>r \<in> set (all_results pd). re_status r = PASS"
    using gemm_exit_zero [OF assms(1) run_batch_ok] unfolding workload_def by blast
  define configs where "configs = make_configs args dims"
  let ?run = "\<lambda>idx k. run_config headroom args (device_budget args (dv_free (dvs idx))) (configs ! k) (dv_runs (dvs idx) k)"
  have results: "length rs = length configs \<and> (\<forall>k < length configs. ?run idx k = Some (rs ! k) \<and> rs ! k \<in> set (all_results pd))"
    if "(idx, name, rs) \<in> set pd" for idx name rs
  proof -
    have "(name, rs) = the (device_outcome headroom args configs (dvs idx))"
      using run_all_values [OF run(1) that] by (simp add: configs_def)
    then have "run_device headroom args (device_budget args (dv_free (dvs idx)))
        (map (\<lambda>k. (configs ! k, dv_runs (dvs idx) k, False)) [0..<length configs]) = Some rs"
      using assms(2) [OF shapes, of idx] that run(2) by (force simp: device_outcome_def configs_def)
    moreover have members: "set rs \<subseteq> set (all_results pd)" using that by (force simp: all_results_def)
    ultimately have "list_all2 (\<lambda>(cfg, be, stop) r. run_config headroom args (device_budget args (dv_free (dvs idx))) cfg be = Some r)
        (map (\<lambda>k. (configs ! k, dv_runs (dvs idx) k, False)) [0..<length configs]) rs"
      using run(4) by (intro run_device_all) auto
    then show ?thesis using members by (auto simp: list_all2_conv_all_nth)
  qed
  have each: "\<exists>r. ?run idx k = Some r \<and>
        (if device_budget args (dv_free (dvs idx)) < estimate_bytes headroom (cf_m (configs ! k)) (cf_n (configs ! k))
            (cf_k (configs ! k)) (cf_dtype (configs ! k)) (re_mode r = ''full'') (ga_validate_block args)
         then re_status r = SKIP
         else re_status r = PASS \<and> passed_run args (configs ! k) (dv_runs (dvs idx) k) r)"
    if idx: "idx \<in> set ?devices" and k: "k < length configs" for idx k
  proof -
    obtain name rs where "(idx, name, rs) \<in> set pd" using idx run(2) by force
    from results [OF this] k have r: "?run idx k = Some (rs ! k)" "rs ! k \<in> set (all_results pd)" by auto
    then consider "re_status (rs ! k) = SKIP" | "re_status (rs ! k) = PASS" using run(4) by auto
    then show ?thesis
    proof cases
      case 1
      with skipped_run [OF r(1)] r(1) show ?thesis by auto
    next
      case 2
      with passing_run [OF r(1) 2 repeats] r(1) show ?thesis by (auto simp: not_less)
    qed
  qed
  have some: "\<exists>idx \<in> set ?devices. \<exists>k < length configs. \<exists>r. ?run idx k = Some r \<and> re_status r = PASS"
  proof -
    obtain r where r: "r \<in> set (all_results pd)" "re_status r = PASS" using run(5) by blast
    then obtain idx name rs where d: "(idx, name, rs) \<in> set pd" "r \<in> set rs" by (auto simp: all_results_def)
    then obtain k where "k < length configs" "rs ! k = r" using results [OF d(1)] by (auto simp: in_set_conv_nth)
    with results [OF d(1)] d(1) run(2) r(2) show ?thesis by force
  qed
  show ?thesis using each some run(2,3) shapes configs_def by (intro exI [of _ dims] exI [of _ configs] conjI) auto
qed

text \<open>One CMP card that runs the only configuration.\<close>

definition demo_card :: device_env where
  "demo_card = \<lparr>dv_name = ''CMP 100-210'', dv_free = 1000000, dv_runs = (\<lambda>k. demo_backend (Finite 0))\<rparr>"

lemma demo_card_outcome:
  "parse_shapes (workload demo_args) (ga_shapes demo_args) = Inr dims \<Longrightarrow> make_configs demo_args dims = [demo_config]"
  "device_outcome (\<lambda>b. b) demo_args [demo_config] demo_card = Some (''CMP 100-210'', [demo_result])"
proof -
  have args: "ga_tensor_ratio demo_args = 0" "ga_dtypes demo_args = [''fp16'']" "ga_layout demo_args = ''nn''" "\<not> ga_fail_fast demo_args"
    "ga_max_mem_gb demo_args = 12" "ga_sizes demo_args = [64]" "ga_shapes demo_args = []"
    by (simp_all add: demo_args_def)
  have budget: "device_budget demo_args 1000000 = 900000" by (simp add: device_budget_def args Let_def)
  have "run_config (\<lambda>b. b) demo_args 900000 demo_config (demo_backend (Finite 0)) =
      run_config (\<lambda>b. b) demo_args 1000000 demo_config (demo_backend (Finite 0))"
    by (simp add: run_config_def validate_mode_def demo_args_def demo_config_def estimate_bytes_def itemsize_def Let_def)
  then have "run_config (\<lambda>b. b) demo_args 900000 demo_config (demo_backend (Finite 0)) = Some demo_result"
    using demo_run by simp
  then show "device_outcome (\<lambda>b. b) demo_args [demo_config] demo_card = Some (''CMP 100-210'', [demo_result])"
    by (simp add: device_outcome_def demo_card_def budget)
  show "parse_shapes (workload demo_args) (ga_shapes demo_args) = Inr dims \<Longrightarrow> make_configs demo_args dims = [demo_config]"
    by (auto simp: parse_shapes_def workload_def args make_configs_def demo_config_def Let_def)
qed

theorem gemm_run_verified_witness:
  "gemm_main True demo_names (run_batch (\<lambda>b. b) demo_args (\<lambda>_. demo_card)) demo_args = Exit 0 \<and>
   (\<exists>r. run_config (\<lambda>b. b) demo_args (device_budget demo_args 1000000) demo_config (demo_backend (Finite 0)) = Some r \<and> re_status r = PASS)"
proof -
  let ?env = "run_batch (\<lambda>b. b) demo_args (\<lambda>_. demo_card)"
  have devices: "fst (select_devices (ga_devices demo_args) demo_names) = [1]" using demo_selected by (simp add: demo_args_def)
  have "run_all (?env [demo_config]) demo_args [1] False = Inr ([(1, ''CMP 100-210'', [demo_result])], False)"
    by (simp add: run_all_def batch_devices_def chunks.simps store_results_def run_batch_def demo_card_outcome(2))
  moreover have "ga_tensor_ratio demo_args = 0" "ga_seconds demo_args = 0" "ga_repeats demo_args = 2"
    "ga_warmup demo_args = 5" "ga_max_parallel demo_args = 0" "\<not> path_given (ga_csv demo_args)" "ga_sizes demo_args = [64]" "ga_shapes demo_args = []"
    by (simp_all add: demo_args_def path_given_def)
  moreover have "parse_shapes [64] [] = Inr [(64, 64, 64)]" by (simp add: parse_shapes_def)
  moreover have "make_configs demo_args [(64, 64, 64)] = [demo_config]"
    using demo_card_outcome(1) [of "[(64, 64, 64)]"] calculation by (simp add: workload_def)
  ultimately have main: "gemm_main True demo_names ?env demo_args = Exit 0"
    by (simp add: gemm_main_def Let_def devices apply_tensor_ratio_def report_def count_status_def all_results_def demo_pass)
  have returns: "device_outcome (\<lambda>b. b) demo_args (make_configs demo_args dims) demo_card \<noteq> None"
    if "parse_shapes (workload demo_args) (ga_shapes demo_args) = Inr dims" for dims
    using demo_card_outcome that by simp
  obtain dims configs idx k r where "parse_shapes (workload demo_args) (ga_shapes demo_args) = Inr dims" "configs = make_configs demo_args dims"
    "k < length configs"
    "run_config (\<lambda>b. b) demo_args (device_budget demo_args (dv_free demo_card)) (configs ! k) (dv_runs demo_card k) = Some r" "re_status r = PASS"
    using gemm_run_verified [OF main returns] by blast
  with demo_card_outcome(1) main show ?thesis by (auto simp: demo_card_def)
qed

end
