(* ===== verification/BenchmarkTensor.thy ===== *)
theory BenchmarkTensor
  imports GemmStress
begin

text \<open>
  \<^verbatim>\<open>tools/benchmark_tensor.py\<close>: the statistics of the timed products of one device and
  the run over the selected devices. What PyTorch did is the environment: the milliseconds of each
  timed product and whether the last product was finite. An exception ends the tool with status 1.
\<close>

datatype bench_error = ZeroDivision | UnboundResult | NonFiniteResult int | NoData

record bench_env =
  bn_milliseconds :: "nat \<Rightarrow> real"
  bn_finite :: bool

text \<open>One sample, in TFLOPS; dividing by an elapsed time of zero raises.\<close>

definition bench_sample :: "int \<Rightarrow> real \<Rightarrow> bench_error + real" where
  "bench_sample n ms = (let elapsed_seconds = ms / 1000 in
     bind_res (ensure (elapsed_seconds \<noteq> 0) ZeroDivision) (\<lambda>_.
     Inr (2 * of_int (n ^ 3) / elapsed_seconds / 10 ^ 12)))"

text \<open>The product is unbound after no warm-up and no repeat, and an empty list has no median.\<close>

definition benchmark :: "int \<Rightarrow> int \<Rightarrow> int \<Rightarrow> int \<Rightarrow> bench_env \<Rightarrow> bench_error + real \<times> real \<times> real" where
  "benchmark device_index n warmup repeats env =
     bind_res (map_res (\<lambda>i. bench_sample n (bn_milliseconds env i)) [0..<nat repeats]) (\<lambda>samples.
     bind_res (ensure (0 < warmup \<or> 0 < repeats) UnboundResult) (\<lambda>_.
     bind_res (ensure (bn_finite env) (NonFiniteResult device_index)) (\<lambda>_.
     bind_res (ensure (samples \<noteq> []) NoData) (\<lambda>_.
     Inr (median samples, Min (set samples), Max (set samples))))))"

record bench_args =
  ba_n :: int
  ba_warmup :: int
  ba_repeats :: int
  ba_devices :: "int list option"

definition bench_defaults :: bench_args where
  "bench_defaults = \<lparr>ba_n = 8192, ba_warmup = 8, ba_repeats = 15, ba_devices = None\<rparr>"

definition bench_devices :: "bench_args \<Rightarrow> nat \<Rightarrow> int list" where
  "bench_devices args count = (case ba_devices args of Some ds \<Rightarrow> ds | None \<Rightarrow> map int [0..<count])"

text \<open>The exit status with the printed statistics of the devices.\<close>

definition bench_main :: "bool \<Rightarrow> nat \<Rightarrow> (int \<Rightarrow> bench_env) \<Rightarrow> bench_args \<Rightarrow> int \<times> (int \<times> real \<times> real \<times> real) list" where
  "bench_main cuda count env args =
     (if \<not> cuda then (1, [])
      else case map_res (\<lambda>d. map_sum id (Pair d) (benchmark d (ba_n args) (ba_warmup args) (ba_repeats args) (env d)))
            (bench_devices args count) of
        Inl _ \<Rightarrow> (1, [])
      | Inr rows \<Rightarrow> (0, rows))"

subsection \<open>The printed statistics\<close>

lemma median_between:
  assumes "xs \<noteq> []"
  shows "Min (set xs) \<le> median xs \<and> median xs \<le> Max (set xs)"
proof -
  have mem: "Min (set xs) \<le> sort xs ! i \<and> sort xs ! i \<le> Max (set xs)" if "i < length xs" for i
  proof -
    have "sort xs ! i \<in> set xs" using that by (metis length_sort nth_mem set_sort)
    then show ?thesis by simp
  qed
  let ?n = "length xs"
  have "?n div 2 < ?n" "?n div 2 - 1 < ?n" using assms by (simp_all add: div_less_dividend less_imp_diff_less)
  with mem [of "?n div 2"] mem [of "?n div 2 - 1"] show ?thesis by (auto simp: median_def Let_def)
qed

lemma benchmark_ordered:
  assumes "benchmark d n warmup repeats env = Inr (med, lo, hi)"
  shows "bn_finite env \<and> 0 < repeats \<and> lo \<le> med \<and> med \<le> hi"
proof -
  from assms obtain samples where s: "map_res (\<lambda>i. bench_sample n (bn_milliseconds env i)) [0..<nat repeats] = Inr samples"
    "bn_finite env" "samples \<noteq> []" "med = median samples" "lo = Min (set samples)" "hi = Max (set samples)"
    unfolding benchmark_def by (elim bind_res_InrE) auto
  from map_res_length [OF s(1)] s(3) have "0 < repeats" by (cases "0 < repeats") auto
  with s median_between [OF s(3)] show ?thesis by simp
qed

text \<open>Status 0 means a finite result on every selected device, with ordered statistics.\<close>

lemma bench_zero:
  assumes "bench_main cuda count env args = (0, rows)"
  shows "cuda \<and> map fst rows = bench_devices args count \<and>
    (\<forall>row \<in> set rows. bn_finite (env (fst row)) \<and> fst (snd (snd row)) \<le> fst (snd row) \<and> fst (snd row) \<le> snd (snd (snd row)))"
proof -
  from assms have r: "cuda" "map_res (\<lambda>d. map_sum id (Pair d) (benchmark d (ba_n args) (ba_warmup args) (ba_repeats args) (env d)))
      (bench_devices args count) = Inr rows"
    by (auto simp: bench_main_def split: if_splits sum.splits)
  have row: "fst row = d \<and> bn_finite (env d) \<and> fst (snd (snd row)) \<le> fst (snd row) \<and> fst (snd row) \<le> snd (snd (snd row))"
    if "map_sum id (Pair d) (benchmark d (ba_n args) (ba_warmup args) (ba_repeats args) (env d)) = Inr row" for d row
    using that benchmark_ordered [of d "ba_n args" "ba_warmup args" "ba_repeats args" "env d"]
    by (cases "benchmark d (ba_n args) (ba_warmup args) (ba_repeats args) (env d)") auto
  have "list_all2 (\<lambda>d row. fst row = d \<and> bn_finite (env d) \<and> fst (snd (snd row)) \<le> fst (snd row) \<and> fst (snd row) \<le> snd (snd (snd row)))
      (bench_devices args count) rows"
    by (rule list.rel_mono_strong [OF r(2) [unfolded map_res_Inr_conv]]) (rule row)
  then have len: "length (bench_devices args count) = length rows"
    and nth: "\<And>i. i < length rows \<Longrightarrow> fst (rows ! i) = bench_devices args count ! i \<and> bn_finite (env (fst (rows ! i))) \<and>
      fst (snd (snd (rows ! i))) \<le> fst (snd (rows ! i)) \<and> fst (snd (rows ! i)) \<le> snd (snd (snd (rows ! i)))"
    by (simp_all add: list_all2_conv_all_nth)
  have "map fst rows = bench_devices args count" using len nth by (intro nth_equalityI) simp_all
  with r(1) nth show ?thesis by (metis in_set_conv_nth)
qed

text \<open>With an empty list of devices nothing runs and the status is still 0.\<close>

lemma bench_no_device: "bench_main True count env (bench_defaults\<lparr>ba_devices := Some []\<rparr>) = (0, [])"
  by (simp add: bench_main_def bench_devices_def bench_defaults_def)

end
