(* ===== verification/PciConfig.thy ===== *)
theory PciConfig
  imports PyBytes
begin

text \<open>
  Class \<^verbatim>\<open>PCI\<close> of \<^verbatim>\<open>scripts/cmp100-pcie-host\<close>: the walks over the two capability
  lists of a configuration space, and the link status. The space is the bytes a read of the
  \<^verbatim>\<open>config\<close> file returns at that moment. The walk of the standard list finds the PCI Express
  capability exactly when the list leads to one: the bound of 48 entries is never the reason to stop.
\<close>

datatype pci_error = NoPcieCapability | ShortRead nat | EndpointUnavailable | ShortWrite | PackError

definition read_config :: "bytes \<Rightarrow> nat \<Rightarrow> nat \<Rightarrow> pci_error + int" where
  "read_config cfg offset width = of_option (ShortRead offset) (get_field width cfg offset)"

text \<open>A write of two bytes; the coordinator never calls it.\<close>

definition write_config :: "bytes \<Rightarrow> nat \<Rightarrow> int \<Rightarrow> pci_error + bytes" where
  "write_config cfg offset v =
     bind_res (ensure (0 \<le> v \<and> v < 2 ^ 16) PackError) (\<lambda>_.
     bind_res (ensure (offset + 2 \<le> length cfg) ShortWrite) (\<lambda>_. Inr (splice cfg offset (le_bytes 2 v))))"

lemma write_read: "write_config cfg offset v = Inr cfg' \<Longrightarrow> read_config cfg' offset 2 = Inr v \<and> length cfg' = length cfg"
  using slice_splice_same [of offset "le_bytes 2 v" cfg]
  by (auto simp: write_config_def bind_res_Inr_conv read_config_def get_field_def length_splice le_value_le_bytes)

subsection \<open>The capability lists\<close>

text \<open>The loop of the constructor; the entries seen so far, latest first.\<close>

function find_cap :: "bytes \<Rightarrow> nat \<Rightarrow> nat list \<Rightarrow> pci_error + nat" where
  "find_cap cfg cap seen =
     (if cap \<noteq> 0 \<and> cap \<notin> set seen \<and> length seen < 48
      then bind_res (read_config cfg cap 1) (\<lambda>ident.
        if ident = 0x10 then Inr cap
        else bind_res (read_config cfg (cap + 1) 1) (\<lambda>n. find_cap cfg (nat (n AND 0xfc)) (cap # seen)))
      else Inl NoPcieCapability)"
  by pat_completeness auto
termination by (relation "measure (\<lambda>(cfg, cap, seen). 48 - length seen)") auto

declare find_cap.simps [simp del]

definition find_pcie :: "bytes \<Rightarrow> pci_error + nat" where
  "find_pcie cfg = bind_res (read_config cfg 0x34 1) (\<lambda>v. find_cap cfg (nat (v AND 0xfc)) [])"

record aer_status =
  ae_uncorrectable :: int
  ae_correctable :: int

function aer_walk :: "bytes \<Rightarrow> nat \<Rightarrow> nat list \<Rightarrow> pci_error + aer_status option" where
  "aer_walk cfg offset seen =
     (if offset \<noteq> 0 \<and> offset \<notin> set seen \<and> length seen < 256
      then bind_res (read_config cfg offset 4) (\<lambda>header.
        if header = 0 \<or> header = 0xffffffff then Inr None
        else if header AND 0xffff = 1
        then bind_res (read_config cfg (offset + 4) 4) (\<lambda>u. bind_res (read_config cfg (offset + 0x10) 4) (\<lambda>c.
          Inr (Some \<lparr>ae_uncorrectable = u, ae_correctable = c\<rparr>)))
        else aer_walk cfg (nat (drop_bit 20 header AND 0xffc)) (offset # seen))
      else Inr None)"
  by pat_completeness auto
termination by (relation "measure (\<lambda>(cfg, offset, seen). 256 - length seen)") auto

declare aer_walk.simps [simp del]

definition read_aer :: "bytes \<Rightarrow> pci_error + aer_status option" where
  "read_aer cfg = aer_walk cfg 0x100 []"

subsection \<open>The link\<close>

record link_status =
  ls_value :: int
  ls_generation :: int
  ls_width :: int
  ls_training :: bool

definition link_status_at :: "bytes \<Rightarrow> nat \<Rightarrow> pci_error + link_status" where
  "link_status_at cfg cap =
     bind_res (read_config cfg (cap + 0x12) 2) (\<lambda>v.
     bind_res (ensure (v \<noteq> 0xffff) EndpointUnavailable) (\<lambda>_.
     Inr \<lparr>ls_value = v, ls_generation = v AND 15, ls_width = drop_bit 4 v AND 63, ls_training = (v AND 0x800 \<noteq> 0)\<rparr>))"

definition settled_gen2 :: "link_status \<Rightarrow> bool" where
  "settled_gen2 s \<longleftrightarrow> ls_generation s = 2 \<and> ls_width s \<ge> 1 \<and> \<not> ls_training s"

subsection \<open>The walk finds what the list leads to\<close>

text \<open>One step of the list, and several; the list ends at offset zero and at a PCI Express capability.\<close>

definition is_pcie :: "bytes \<Rightarrow> nat \<Rightarrow> bool" where
  "is_pcie cfg c \<longleftrightarrow> c \<noteq> 0 \<and> get_field 1 cfg c = Some 0x10"

definition next_cap :: "bytes \<Rightarrow> nat \<Rightarrow> nat option" where
  "next_cap cfg c = (if c = 0 \<or> get_field 1 cfg c \<in> {None, Some 0x10} then None
     else map_option (\<lambda>n. nat (n AND 0xfc)) (get_field 1 cfg (c + 1)))"

fun steps :: "bytes \<Rightarrow> nat \<Rightarrow> nat \<Rightarrow> nat \<Rightarrow> bool" where
  "steps cfg 0 c e \<longleftrightarrow> c = e"
| "steps cfg (Suc n) c e \<longleftrightarrow> (\<exists>d. next_cap cfg c = Some d \<and> steps cfg n d e)"

definition listed_cap :: "bytes \<Rightarrow> nat \<Rightarrow> bool" where
  "listed_cap cfg e \<longleftrightarrow> (\<exists>v n. get_field 1 cfg 0x34 = Some v \<and> steps cfg n (nat (v AND 0xfc)) e)"

lemma steps_snoc: "steps cfg n c d \<Longrightarrow> next_cap cfg d = Some e \<Longrightarrow> steps cfg (Suc n) c e"
  by (induction n arbitrary: c) auto

lemma pcie_last: "is_pcie cfg e \<Longrightarrow> next_cap cfg e = None"
  by (simp add: is_pcie_def next_cap_def)

text \<open>The distance to a PCI Express capability is unique, so the list cannot return to an entry before it.\<close>

lemma steps_unique: "steps cfg m c e \<Longrightarrow> steps cfg n c e \<Longrightarrow> is_pcie cfg e \<Longrightarrow> m = n"
proof (induction m arbitrary: c n)
  case 0
  then show ?case using pcie_last by (cases n) auto
next
  case (Suc m)
  then show ?case using pcie_last by (cases n) auto
qed

lemma find_cap_sound:
  "find_cap cfg c seen = Inr e \<Longrightarrow> is_pcie cfg e \<and> (\<exists>n. steps cfg n c e)"
proof (induction cfg c seen rule: find_cap.induct)
  case (1 cfg c seen)
  from "1.prems" have c: "c \<noteq> 0 \<and> c \<notin> set seen \<and> length seen < 48"
    by (subst (asm) find_cap.simps) (simp split: if_splits)
  from "1.prems" obtain ident where ident: "get_field 1 cfg c = Some ident"
    "(if ident = 0x10 then Inr c else bind_res (read_config cfg (c + 1) 1) (\<lambda>n. find_cap cfg (nat (n AND 0xfc)) (c # seen))) = Inr e"
    by (subst (asm) find_cap.simps) (auto simp: c read_config_def bind_res_Inr_conv)
  show ?case
  proof (cases "ident = 0x10")
    case True
    with c ident show ?thesis by (auto simp: is_pcie_def intro: exI [of _ 0])
  next
    case False
    with ident obtain n where n: "get_field 1 cfg (c + 1) = Some n" "find_cap cfg (nat (n AND 0xfc)) (c # seen) = Inr e"
      by (auto simp: read_config_def bind_res_Inr_conv)
    have "is_pcie cfg e \<and> (\<exists>k. steps cfg k (nat (n AND 0xfc)) e)"
      by (rule "1.IH" [OF c False n(2)])
    moreover have "next_cap cfg c = Some (nat (n AND 0xfc))" using c ident n False by (simp add: next_cap_def)
    ultimately show ?thesis by (meson steps.simps(2))
  qed
qed

definition cap_slots :: "nat set" where
  "cap_slots = (\<lambda>i. 4 * i) ` {0x10..0x3f}"

lemma cap_slots_card: "card cap_slots = 48" "finite cap_slots"
  by (simp_all add: cap_slots_def card_image inj_on_def)

lemma find_cap_complete:
  assumes "steps cfg n c e" and "is_pcie cfg e" and "distinct seen" and "set seen \<subseteq> cap_slots"
    and "\<forall>s \<in> set seen. \<exists>m > n. steps cfg m s e"
    and "\<And>k d. steps cfg k c d \<Longrightarrow> d \<noteq> 0 \<Longrightarrow> d \<in> cap_slots"
  shows "find_cap cfg c seen = Inr e"
  using assms
proof (induction n arbitrary: c seen)
  case (Suc n)
  then obtain d where d: "next_cap cfg c = Some d" "steps cfg n d e" by auto
  then obtain ident v where v: "c \<noteq> 0" "get_field 1 cfg c = Some ident" "ident \<noteq> 0x10" "get_field 1 cfg (c + 1) = Some v"
    "d = nat (v AND 0xfc)" by (auto simp: next_cap_def split: if_splits)
  have fresh: "c \<notin> set seen" using Suc.prems(1,2,5) steps_unique by blast
  have slot: "c \<in> cap_slots" using Suc.prems(6) [of 0 c] v(1) by simp
  have "card (insert c (set seen)) \<le> 48"
    using slot Suc.prems(4) card_mono [OF cap_slots_card(2), of "insert c (set seen)"] cap_slots_card by simp
  then have short: "length seen < 48" using fresh Suc.prems(3) by (simp add: distinct_card)
  have "find_cap cfg d (c # seen) = Inr e"
  proof (rule Suc.IH [OF d(2) Suc.prems(2)])
    show "distinct (c # seen)" "set (c # seen) \<subseteq> cap_slots" using fresh slot Suc.prems(3,4) by simp_all
    show "\<forall>s \<in> set (c # seen). \<exists>m > n. steps cfg m s e" using Suc.prems(1,5) by (auto intro: Suc_lessD)
    show "\<And>k x. steps cfg k d x \<Longrightarrow> x \<noteq> 0 \<Longrightarrow> x \<in> cap_slots"
      using Suc.prems(6) d(1) by (meson steps.simps(2))
  qed
  then show ?case
    using v fresh short by (subst find_cap.simps) (simp add: read_config_def)
next
  case 0
  then have e: "c = e" "c \<noteq> 0" "get_field 1 cfg c = Some 0x10" by (auto simp: is_pcie_def)
  have fresh: "c \<notin> set seen" using 0 e steps_unique [of cfg _ c e 0] by fastforce
  have slot: "c \<in> cap_slots" using 0(6) [of 0 c] e(2) by simp
  have "card (insert c (set seen)) \<le> 48"
    using slot 0(4) card_mono [OF cap_slots_card(2), of "insert c (set seen)"] cap_slots_card by simp
  then have "length seen < 48" using fresh 0(3) by (simp add: distinct_card)
  then show ?case using e fresh by (subst find_cap.simps) (simp add: read_config_def)
qed

text \<open>Pointers are multiples of four below 256.\<close>

lemma pointer_slot: "0x40 \<le> nat (v AND 0xfc) \<Longrightarrow> nat (v AND 0xfc) \<in> cap_slots"
proof -
  assume low: "0x40 \<le> nat (v AND 0xfc)"
  have m: "(0xfc :: int) = push_bit 2 (mask 6)" by (simp add: mask_eq_exp_minus_1 push_bit_eq_mult)
  have "v AND 0xfc = push_bit 2 (take_bit 6 (drop_bit 2 v))"
    unfolding m
  proof (rule bit_eqI)
    fix n
    show "bit (v AND push_bit 2 (mask 6)) n \<longleftrightarrow> bit (push_bit 2 (take_bit 6 (drop_bit 2 v))) n"
      by (cases "2 \<le> n") (auto simp: bit_simps simp flip: Suc_diff_le numeral_2_eq_2)
  qed
  then have v: "v AND 0xfc = 4 * (drop_bit 2 v mod 64)" by (simp add: push_bit_eq_mult take_bit_eq_mod)
  let ?i = "nat (drop_bit 2 v mod 64)"
  have "nat (v AND 0xfc) = 4 * ?i" unfolding v by (simp add: nat_mult_distrib)
  moreover have "?i < 64" by (simp add: nat_less_iff)
  ultimately show ?thesis using low unfolding cap_slots_def by (intro image_eqI [of _ _ ?i]) auto
qed

lemma steps_pointer: "steps cfg (Suc n) c d \<Longrightarrow> \<exists>v. d = nat (v AND 0xfc)"
proof (induction n arbitrary: c)
  case 0
  then show ?case by (auto simp: next_cap_def split: if_splits)
next
  case (Suc n)
  then show ?case by (metis steps.simps(2))
qed

text \<open>
  C40: The walk over the standard capability list always ends, and when the list holds its entries above
  the header it finds the PCI Express capability exactly when following the list from its head
  leads to one: neither the loop check nor the bound of 48 entries ever hides it.
\<close>

theorem find_pcie_exact:
  assumes "\<forall>c. listed_cap cfg c \<longrightarrow> c = 0 \<or> 0x40 \<le> c"
  shows "find_pcie cfg = Inr e \<longleftrightarrow> listed_cap cfg e \<and> is_pcie cfg e"
proof
  assume "find_pcie cfg = Inr e"
  then show "listed_cap cfg e \<and> is_pcie cfg e"
    using find_cap_sound by (auto simp: find_pcie_def listed_cap_def read_config_def bind_res_Inr_conv)
next
  assume e: "listed_cap cfg e \<and> is_pcie cfg e"
  then obtain v n where v: "get_field 1 cfg 0x34 = Some v" "steps cfg n (nat (v AND 0xfc)) e"
    by (auto simp: listed_cap_def)
  have slot: "d \<in> cap_slots" if "steps cfg k (nat (v AND 0xfc)) d" "d \<noteq> 0" for k d
  proof -
    have "0x40 \<le> d" using assms v(1) that unfolding listed_cap_def by blast
    moreover have "\<exists>w. d = nat (w AND 0xfc)" using that(1) steps_pointer by (cases k) auto
    ultimately show ?thesis using pointer_slot by blast
  qed
  have "find_cap cfg (nat (v AND 0xfc)) [] = Inr e"
    by (rule find_cap_complete [OF v(2)]) (use e slot in auto)
  then show "find_pcie cfg = Inr e" by (simp add: find_pcie_def read_config_def v(1) del: One_nat_def)
qed

subsection \<open>The walk over the extended list\<close>

text \<open>
  An entry of the extended list with its successor; the list ends at offset zero, at an empty header and at
  the capability of error reporting.
\<close>

definition is_aer :: "bytes \<Rightarrow> nat \<Rightarrow> bool" where
  "is_aer cfg e \<longleftrightarrow> e \<noteq> 0 \<and> (\<exists>h. get_field 4 cfg e = Some h \<and> h AND 0xffff = 1)"

definition next_ext :: "bytes \<Rightarrow> nat \<Rightarrow> nat option" where
  "next_ext cfg c = (case get_field 4 cfg c of None \<Rightarrow> None
     | Some h \<Rightarrow> if c = 0 \<or> h \<in> {0, 0xffffffff} \<or> h AND 0xffff = 1 then None else Some (nat (drop_bit 20 h AND 0xffc)))"

fun ext_steps :: "bytes \<Rightarrow> nat \<Rightarrow> nat \<Rightarrow> nat \<Rightarrow> bool" where
  "ext_steps cfg 0 c e \<longleftrightarrow> c = e"
| "ext_steps cfg (Suc n) c e \<longleftrightarrow> (\<exists>d. next_ext cfg c = Some d \<and> ext_steps cfg n d e)"

text \<open>The list leads from 0x100 to error reporting, within the 256 entries that are read.\<close>

definition aer_at :: "bytes \<Rightarrow> nat \<Rightarrow> bool" where
  "aer_at cfg e \<longleftrightarrow> is_aer cfg e \<and> (\<exists>n < 256. ext_steps cfg n 0x100 e)"

lemma aer_last: "is_aer cfg e \<Longrightarrow> next_ext cfg e = None"
  by (auto simp: is_aer_def next_ext_def)

lemma ext_steps_unique: "ext_steps cfg m c e \<Longrightarrow> ext_steps cfg n c e \<Longrightarrow> is_aer cfg e \<Longrightarrow> m = n"
proof (induction m arbitrary: c n)
  case 0
  then show ?case using aer_last by (cases n) auto
next
  case (Suc m)
  then show ?case using aer_last by (cases n) auto
qed

lemma aer_walk_finds:
  assumes "ext_steps cfg n c e" and "is_aer cfg e" and "\<forall>s \<in> set seen. \<exists>m > n. ext_steps cfg m s e" and "length seen + n < 256"
    and "aer_walk cfg c seen = Inr a"
  shows "\<exists>u v. get_field 4 cfg (e + 4) = Some u \<and> get_field 4 cfg (e + 0x10) = Some v \<and> a = Some \<lparr>ae_uncorrectable = u, ae_correctable = v\<rparr>"
  using assms
proof (induction n arbitrary: c seen)
  case 0
  then obtain h where h: "c = e" "e \<noteq> 0" "get_field 4 cfg e = Some h" "h AND 0xffff = 1" by (auto simp: is_aer_def)
  have "e \<notin> set seen" using 0 ext_steps_unique [of cfg _ e e 0] by fastforce
  moreover have "h \<noteq> 0" "h \<noteq> 0xffffffff" using h(4) by auto
  ultimately show ?case
    using 0(4,5) h by (subst (asm) aer_walk.simps) (auto simp: read_config_def bind_res_Inr_conv)
next
  case (Suc n)
  then obtain d where d: "next_ext cfg c = Some d" "ext_steps cfg n d e" by auto
  then obtain h where h: "c \<noteq> 0" "get_field 4 cfg c = Some h" "h \<noteq> 0" "h \<noteq> 0xffffffff" "h AND 0xffff \<noteq> 1"
    "d = nat (drop_bit 20 h AND 0xffc)" by (auto simp: next_ext_def split: option.splits if_splits)
  have fresh: "c \<notin> set seen" using Suc.prems(1,2,3) ext_steps_unique by blast
  have walk: "aer_walk cfg d (c # seen) = Inr a"
    using Suc.prems(4,5) h fresh by (subst (asm) aer_walk.simps) (simp add: read_config_def)
  show ?case
  proof (rule Suc.IH [OF d(2) Suc.prems(2) _ _ walk])
    show "\<forall>s \<in> set (c # seen). \<exists>m > n. ext_steps cfg m s e" using Suc.prems(1,3) by (auto intro: Suc_lessD)
    show "length (c # seen) + n < 256" using Suc.prems(4) by simp
  qed
qed

lemma read_aer_finds:
  assumes "read_aer cfg = Inr a" and "aer_at cfg e"
  shows "\<exists>u v. get_field 4 cfg (e + 4) = Some u \<and> get_field 4 cfg (e + 0x10) = Some v \<and> a = Some \<lparr>ae_uncorrectable = u, ae_correctable = v\<rparr>"
  using assms aer_walk_finds [of cfg _ "0x100" e "[]"] by (auto simp: read_aer_def aer_at_def)

text \<open>A list of two capabilities, the second of them PCI Express.\<close>

definition demo_space :: bytes where
  "demo_space = replicate 0x34 0 @ [0x40] @ replicate 11 0 @ [0x01, 0x48] @ replicate 6 0 @ [0x10, 0] @ replicate 0x16 0"

lemma demo_walk: "find_pcie demo_space = Inr 0x48"
  by code_simp

theorem find_pcie_exact_witness: "listed_cap demo_space 0x48 \<and> is_pcie demo_space 0x48"
proof -
  have field: "get_field 1 demo_space 0x34 = Some 0x40" "get_field 1 demo_space 0x40 = Some 1" "get_field 1 demo_space 0x41 = Some 0x48"
    "get_field 1 demo_space 0x48 = Some 0x10"
    by code_simp+
  have nx: "next_cap demo_space 0x40 = Some 0x48" "next_cap demo_space 0x48 = None"
    using field by (simp_all add: next_cap_def)
  have "d = 0x40 \<or> d = 0x48" if "steps demo_space n 0x40 d" for n d
  proof (cases n)
    case 0
    with that show ?thesis by simp
  next
    case (Suc k)
    with that nx have "steps demo_space k 0x48 d" by simp
    then show ?thesis using nx(2) by (cases k) simp_all
  qed
  then have "\<forall>c. listed_cap demo_space c \<longrightarrow> c = 0 \<or> 0x40 \<le> c"
    using field(1) by (fastforce simp: listed_cap_def simp del: One_nat_def)
  from find_pcie_exact [OF this] demo_walk show ?thesis by blast
qed

end
