(* ===== verification/HostGuest.thy ===== *)
theory HostGuest
  imports PciConfig Json
begin

text \<open>
  \<^verbatim>\<open>scripts/cmp100-pcie-host\<close>, what the coordinator reads and writes as text: the
  configuration, the answers of \<^verbatim>\<open>qm\<close>, the boot identifier of the guest and the state
  file. JSON is read and written by \<^verbatim>\<open>json\<close> of the standard library. The value of a float
  text, where it is integral, is the parameter \<open>integral\<close>, since Python compares numbers across types.
\<close>

datatype host_error =
    NotRoot
  | UnsafeConfig
  | BadConfig
  | CommandFailed
  | HostPciSyntax
  | HostOsError
  | NotAssigned string
  | UnsupportedDevice string
  | WrongDriver string
  | NoUpstreamPort
  | PciFault pci_error
  | GuestFailed
  | GuestTimeout
  | GuestGarbled
  | InvalidBootId
  | TargetBelowGen2
  | NotVerified
  | NewAer
  | BadStateFile

subsection \<open>Values of JSON\<close>

text \<open>\<^verbatim>\<open>d.get(key, default)\<close>, \<^verbatim>\<open>bool(v)\<close> and \<^verbatim>\<open>v == n\<close>.\<close>

definition json_get :: "(string \<times> json) list \<Rightarrow> string \<Rightarrow> json \<Rightarrow> json" where
  "json_get kvs key other = (case map_of kvs key of None \<Rightarrow> other | Some v \<Rightarrow> v)"

fun truthy :: "(string \<Rightarrow> int option) \<Rightarrow> json \<Rightarrow> bool" where
  "truthy integral JNull = False"
| "truthy integral (JBool b) = b"
| "truthy integral (JInt n) = (n \<noteq> 0)"
| "truthy integral (JFloat t) = (integral t \<noteq> Some 0)"
| "truthy integral (JString s) = (s \<noteq> [])"
| "truthy integral (JArray xs) = (xs \<noteq> [])"
| "truthy integral (JObject kvs) = (kvs \<noteq> [])"

fun equals_int :: "(string \<Rightarrow> int option) \<Rightarrow> json \<Rightarrow> int \<Rightarrow> bool" where
  "equals_int integral (JBool b) n = (of_bool b = n)"
| "equals_int integral (JInt m) n = (m = n)"
| "equals_int integral (JFloat t) n = (integral t = Some n)"
| "equals_int integral v n = False"

text \<open>Text and lists can be sliced.\<close>

fun sliceable :: "json \<Rightarrow> bool" where
  "sliceable (JString s) = True"
| "sliceable (JArray xs) = True"
| "sliceable v = False"

subsection \<open>The configuration\<close>

definition HOST_BDF :: "(char \<Rightarrow> bool) list" where
  "HOST_BDF = map (\<lambda>p c. c = p) ''0000:'' @ replicate 2 is_hex_char @ [\<lambda>c. c = CHR '':'', \<lambda>c. c \<in> {CHR ''0'', CHR ''1''}, is_hex_char,
     \<lambda>c. c = CHR ''.'', \<lambda>c. c \<in> set ''01234567'']"

definition GUEST_BDF :: "(char \<Rightarrow> bool) list" where
  "GUEST_BDF = map (\<lambda>p c. c = p) ''0000:'' @ replicate 2 is_hex_char @ map (\<lambda>p c. c = p) '':00.0''"

definition device_pair :: "json \<Rightarrow> host_error + string \<times> string" where
  "device_pair item = (case item of
     JObject kvs \<Rightarrow>
       if fst ` set kvs \<noteq> {''host'', ''guest''} then Inl BadConfig
       else (case (map_of kvs ''host'', map_of kvs ''guest'') of
           (Some (JString h), Some (JString g)) \<Rightarrow>
             if matches_pattern HOST_BDF h \<and> matches_pattern GUEST_BDF g then Inr (h, g) else Inl BadConfig
         | _ \<Rightarrow> Inl BadConfig)
   | _ \<Rightarrow> Inl BadConfig)"

definition validate_config :: "(string \<Rightarrow> int option) \<Rightarrow> json \<Rightarrow> int \<Rightarrow> host_error + (string \<times> string) list" where
  "validate_config integral data vmid = (case data of
     JObject kvs \<Rightarrow>
       bind_res (ensure (fst ` set kvs \<subseteq> {''vmid'', ''devices''} \<and> equals_int integral (json_get kvs ''vmid'' JNull) vmid) BadConfig) (\<lambda>_.
       case map_of kvs ''devices'' of
         Some (JArray items) \<Rightarrow>
           bind_res (ensure (1 \<le> length items \<and> length items \<le> 8) BadConfig) (\<lambda>_.
           bind_res (map_res device_pair items) (\<lambda>pairs.
           let lowered = map (\<lambda>(h, g). (lower h, lower g)) pairs in
           bind_res (ensure (distinct (map fst lowered) \<and> distinct (map snd lowered)) BadConfig) (\<lambda>_. Inr lowered)))
       | _ \<Rightarrow> Inl BadConfig)
   | _ \<Rightarrow> Inl BadConfig)"

text \<open>The addresses passed through to the machine, from \<^verbatim>\<open>qm config\<close>.\<close>

definition hostpci_line :: "string \<Rightarrow> bool" where
  "hostpci_line line \<longleftrightarrow> starts_with ''hostpci'' line \<and> (let rest = drop 7 line; after = dropWhile is_digit rest in
     rest \<noteq> after \<and> after \<noteq> [] \<and> hd after = CHR '':'')"

definition assigned_address :: "string \<Rightarrow> host_error + string" where
  "assigned_address line = bind_res (of_option HostPciSyntax (after_first '': '' line)) (\<lambda>rest.
     let address = takeWhile (\<lambda>c. c \<noteq> CHR '','') rest in
     Inr (if starts_with ''0000:'' address then address else ''0000:'' @ address))"

definition assigned_devices :: "string \<Rightarrow> host_error + string list" where
  "assigned_devices vmconfig = map_res assigned_address (filter hostpci_line (splitlines vmconfig))"

subsection \<open>The guest\<close>

text \<open>
  What \<^verbatim>\<open>qm guest exec\<close> printed and what \<^verbatim>\<open>exec-status\<close> printed until the
  deadline; \<^term>\<open>None\<close> is a command that failed or took too long.
\<close>

type_synonym guest_answer = "string option \<times> string option list"

definition json_object :: "string \<Rightarrow> host_error + (string \<times> json) list" where
  "json_object t = (case loads t of Some (JObject kvs) \<Rightarrow> Inr kvs | _ \<Rightarrow> Inl GuestGarbled)"

fun guest_wait :: "(string \<Rightarrow> int option) \<Rightarrow> string option list \<Rightarrow> host_error + json" where
  "guest_wait integral [] = Inl GuestTimeout"
| "guest_wait integral (out # outs) =
     bind_res (of_option CommandFailed out) (\<lambda>t. bind_res (json_object t) (\<lambda>kvs.
     if truthy integral (json_get kvs ''exited'' JNull) then
       (if \<not> equals_int integral (json_get kvs ''exitcode'' JNull) 0 then
          Inl (if sliceable (json_get kvs ''err-data'' (JString [])) \<and> sliceable (json_get kvs ''out-data'' (JString []))
            then GuestFailed else GuestGarbled)
        else Inr (json_get kvs ''out-data'' (JString [])))
     else guest_wait integral outs))"

definition guest_exec :: "(string \<Rightarrow> int option) \<Rightarrow> guest_answer \<Rightarrow> host_error + json" where
  "guest_exec integral answer =
     bind_res (of_option CommandFailed (fst answer)) (\<lambda>t. bind_res (json_object t) (\<lambda>start.
     bind_res (of_option GuestGarbled (map_of start ''pid'')) (\<lambda>pid. guest_wait integral (snd answer))))"

text \<open>\<^verbatim>\<open>re.fullmatch(r"[0-9a-f-]{36}", s)\<close>\<close>

definition valid_boot_id :: "string \<Rightarrow> bool" where
  "valid_boot_id s \<longleftrightarrow> length s = 36 \<and> list_all (\<lambda>c. c = CHR ''-'' \<or> c \<in> set ''0123456789abcdef'') s"

definition boot_text :: "json \<Rightarrow> host_error + string" where
  "boot_text out = (case out of JString s \<Rightarrow> Inr (strip s) | _ \<Rightarrow> Inl GuestGarbled)"

text \<open>
  The attempts to read the boot identifier; the last one is successful or the one after which the
  deadline is over. An answer that cannot be read is an error of another class and is not retried. The first
  component is the variable \<^verbatim>\<open>boot_id\<close> afterwards, which an identifier that is not valid
  has set as well.
\<close>

fun await_boot :: "(string \<Rightarrow> int option) \<Rightarrow> string option \<Rightarrow> guest_answer list \<Rightarrow> string option \<times> (host_error + string)" where
  "await_boot integral boot [] = (boot, Inl GuestTimeout)"
| "await_boot integral boot (answer # rest) = (case bind_res (guest_exec integral answer) boot_text of
     Inl e \<Rightarrow> if rest = [] \<or> e = GuestGarbled then (boot, Inl e) else await_boot integral boot rest
   | Inr b \<Rightarrow>
       if valid_boot_id b then (Some b, Inr b)
       else if rest = [] then (Some b, Inl InvalidBootId)
       else await_boot integral (Some b) rest)"

subsection \<open>The state file\<close>

definition state_text :: "json \<Rightarrow> string" where
  "state_text data = dumps (Some 2) False data @ [CHR 0x0A]"

text \<open>An absent file counts as an empty object. Any JSON value is read.\<close>

definition read_state :: "string option \<Rightarrow> host_error + json" where
  "read_state file = (case file of None \<Rightarrow> Inr (JObject []) | Some t \<Rightarrow> of_option BadStateFile (loads t))"

definition started_state :: "string \<Rightarrow> json" where
  "started_state boot = JObject [(''failed_boot'', JString boot), (''status'', JString ''in-progress'')]"

definition failed_state :: "string \<Rightarrow> string \<Rightarrow> json" where
  "failed_state boot message = JObject [(''failed_boot'', JString boot), (''status'', JString ''failed''), (''error'', JString message)]"

definition status_json :: "string \<Rightarrow> link_status \<Rightarrow> json" where
  "status_json bdf s = JObject [(''bdf'', JString bdf), (''raw'', JString (py_hex 4 (ls_value s))),
     (''generation'', JInt (ls_generation s)), (''width'', JInt (ls_width s)), (''training'', JBool (ls_training s))]"

definition aer_json :: "aer_status option \<Rightarrow> json" where
  "aer_json a = (case a of None \<Rightarrow> JNull
     | Some s \<Rightarrow> JObject [(''uncorrectable'', JInt (ae_uncorrectable s)), (''correctable'', JInt (ae_correctable s))])"

definition passed_state :: "string \<Rightarrow> (string \<times> link_status) list \<Rightarrow> aer_status option list \<Rightarrow> json" where
  "passed_state boot links aers = JObject [(''status'', JString ''pass''), (''guest_boot'', JString boot),
     (''links'', JArray (map (\<lambda>(bdf, s). status_json bdf s) links)), (''aer'', JArray (map aer_json aers))]"

text \<open>\<^verbatim>\<open>previous.get("failed_boot")\<close>: only an object has a method \<^verbatim>\<open>get\<close>.\<close>

definition failed_value :: "json \<Rightarrow> host_error + json" where
  "failed_value previous = (case previous of JObject kvs \<Rightarrow> Inr (json_get kvs ''failed_boot'' JNull) | _ \<Rightarrow> Inl BadStateFile)"

text \<open>A state file that was written is read back.\<close>

lemma read_state_text:
  assumes "json_ok (JObject kvs)"
  shows "read_state (Some (state_text (JObject kvs))) = Inr (JObject kvs)"
proof -
  have "list_all is_ws [CHR 0x0A]" by (simp add: is_ws_def)
  from loads_dumps [OF assms this, of "Some 2" False] show ?thesis by (simp add: read_state_def state_text_def)
qed

lemma failed_states_ok: "started_state boot = JObject kvs \<Longrightarrow> json_ok (JObject kvs)"
  "failed_state boot message = JObject kvs \<Longrightarrow> json_ok (JObject kvs)"
  by (auto simp: started_state_def failed_state_def)

lemma read_failed_states:
  "\<exists>previous. read_state (Some (state_text (started_state boot))) = Inr previous \<and> failed_value previous = Inr (JString boot)"
  "\<exists>previous. read_state (Some (state_text (failed_state boot message))) = Inr previous \<and> failed_value previous = Inr (JString boot)"
  using failed_states_ok(1) [of boot] failed_states_ok(2) [of boot message] read_state_text
  by (auto simp: started_state_def failed_state_def failed_value_def json_get_def)

lemma await_boot_Inr: "await_boot integral boot answers = (bo, Inr b) \<Longrightarrow> bo = Some b \<and> valid_boot_id b"
  by (induction integral boot answers rule: await_boot.induct) (auto split: sum.splits if_splits)

end
