(* ===== verification/PcieHost.thy ===== *)
theory PcieHost
  imports HostGuest
begin

text \<open>
  \<^verbatim>\<open>scripts/cmp100-pcie-host\<close>: the coordinator that lets a guest retrain its cards once per
  boot. The node is the record \<open>host_env\<close>: the configuration, the answers of \<^verbatim>\<open>qm\<close>, the
  configuration spaces at the moments they are read, the guest's answers and the state file. A run
  yields the list of its effects in order (state files written, commands that change the guest) and
  an exit status or an exception. State files are texts, so that a later run reads what an earlier one wrote.
\<close>

subsection \<open>The node and its links\<close>

text \<open>
  The node. \<open>he_space\<close> gives the configuration space of a device in the phases of a run: the
  inventory (0), around the first state file (1), after the service was started (2), the verification of the links
  (3) and of the error registers (4); the reads of one phase see the same bytes. Writing the
  state file succeeds. \<open>he_message\<close> is the text of an exception.
\<close>

record host_env =
  he_root :: bool
  he_config_safe :: bool
  he_config :: "string option"
  he_vm_status :: "string option"
  he_vm_config :: "string option"
  he_space :: "nat \<Rightarrow> string \<Rightarrow> bytes option"
  he_driver :: "string \<Rightarrow> string"
  he_parent :: "string \<Rightarrow> string"
  he_state :: "string option"
  he_boot :: "guest_answer list"
  he_service :: guest_answer
  he_helper :: guest_answer
  he_integral :: "string \<Rightarrow> int option"
  he_message :: "host_error \<Rightarrow> string"

record host_args =
  ar_vmid :: int
  ar_check :: bool
  ar_retry :: bool

record pci_link =
  lk_root :: string
  lk_root_cap :: nat
  lk_end :: string
  lk_end_cap :: nat

definition lift_pci :: "pci_error + 'a \<Rightarrow> host_error + 'a" where
  "lift_pci r = (case r of Inl e \<Rightarrow> Inl (PciFault e) | Inr x \<Rightarrow> Inr x)"

definition space_at :: "host_env \<Rightarrow> nat \<Rightarrow> string \<Rightarrow> host_error + bytes" where
  "space_at env phase bdf = of_option HostOsError (he_space env phase bdf)"

definition read_at :: "host_env \<Rightarrow> nat \<Rightarrow> string \<Rightarrow> nat \<Rightarrow> nat \<Rightarrow> host_error + int" where
  "read_at env phase bdf offset width = bind_res (space_at env phase bdf) (\<lambda>cfg. lift_pci (read_config cfg offset width))"

definition open_pci :: "host_env \<Rightarrow> string \<Rightarrow> host_error + nat" where
  "open_pci env bdf = bind_res (space_at env 0 bdf) (\<lambda>cfg. lift_pci (find_pcie cfg))"

definition open_link :: "host_env \<Rightarrow> string list \<Rightarrow> string \<times> string \<Rightarrow> host_error + pci_link" where
  "open_link env assigned item = (let host = fst item in
     bind_res (ensure (host \<in> set assigned) (NotAssigned host)) (\<lambda>_.
     bind_res (open_pci env host) (\<lambda>cap.
     bind_res (read_at env 0 host 0 2) (\<lambda>vendor. bind_res (read_at env 0 host 2 2) (\<lambda>device.
     bind_res (ensure (vendor = 0x10de \<and> device = 0x1d84) (UnsupportedDevice host)) (\<lambda>_.
     bind_res (ensure (he_driver env host = ''vfio-pci'') (WrongDriver host)) (\<lambda>_.
     let root = he_parent env host in
     bind_res (ensure (matches_pattern HOST_BDF root) NoUpstreamPort) (\<lambda>_.
     bind_res (open_pci env root) (\<lambda>root_cap.
     bind_res (read_at env 0 root (root_cap + 2) 2) (\<lambda>flags.
     bind_res (ensure (drop_bit 4 flags AND 15 \<in> {4, 6}) NoUpstreamPort) (\<lambda>_.
     bind_res (read_at env 0 root (root_cap + 0xc) 2) (\<lambda>caps.
     bind_res (ensure (2 \<le> caps AND 15) NoUpstreamPort) (\<lambda>_.
     Inr \<lparr>lk_root = root, lk_root_cap = root_cap, lk_end = host, lk_end_cap = cap\<rparr>)))))))))))))"

definition device_status :: "host_env \<Rightarrow> nat \<Rightarrow> string \<times> nat \<Rightarrow> host_error + link_status" where
  "device_status env phase d = bind_res (space_at env phase (fst d)) (\<lambda>cfg. lift_pci (link_status_at cfg (snd d)))"

definition device_aer :: "host_env \<Rightarrow> nat \<Rightarrow> string \<times> nat \<Rightarrow> host_error + aer_status option" where
  "device_aer env phase d = bind_res (space_at env phase (fst d)) (\<lambda>cfg. lift_pci (read_aer cfg))"

definition link_devices :: "pci_link \<Rightarrow> (string \<times> nat) list" where
  "link_devices l = [(lk_root l, lk_root_cap l), (lk_end l, lk_end_cap l)]"

definition link_states :: "host_env \<Rightarrow> nat \<Rightarrow> pci_link list \<Rightarrow> host_error + link_status list" where
  "link_states env phase links = map_res (device_status env phase) (concat (map link_devices links))"

definition link_aers :: "host_env \<Rightarrow> nat \<Rightarrow> pci_link list \<Rightarrow> host_error + aer_status option list" where
  "link_aers env phase links = map_res (device_aer env phase) (concat (map link_devices links))"

definition new_uncorrectable :: "aer_status option \<Rightarrow> aer_status option \<Rightarrow> bool" where
  "new_uncorrectable before after = (case (before, after) of
     (Some b, Some a) \<Rightarrow> ae_uncorrectable a AND NOT (ae_uncorrectable b) \<noteq> 0 | _ \<Rightarrow> False)"

subsection \<open>Effects\<close>

text \<open>
  What a run changes outside itself, in order: the state file, and the two commands that act in the
  guest. The state file is replaced as a whole.
\<close>

datatype host_effect = SaveState string | StartService | RunHelper "string list"

fun mutation :: "host_effect \<Rightarrow> bool" where
  "mutation (SaveState file) = False"
| "mutation StartService = True"
| "mutation (RunHelper guests) = True"

type_synonym 'a action = "host_effect list \<times> (host_error + 'a)"

definition pure_action :: "host_error + 'a \<Rightarrow> 'a action" where
  "pure_action r = ([], r)"

definition emit :: "host_effect \<Rightarrow> host_error + 'a \<Rightarrow> 'a action" where
  "emit e r = ([e], r)"

definition and_then :: "'a action \<Rightarrow> ('a \<Rightarrow> 'b action) \<Rightarrow> 'b action" where
  "and_then m f = (case m of
     (es, Inl e) \<Rightarrow> (es, Inl e)
   | (es, Inr x) \<Rightarrow> (case f x of (es', r) \<Rightarrow> (es @ es', r)))"

text \<open>A run from the moment the guest's boot is known to be new: the state file first.\<close>

text \<open>The second end of a link is read only when the first one is settled.\<close>

definition link_settled :: "host_env \<Rightarrow> nat \<Rightarrow> pci_link \<Rightarrow> host_error + bool" where
  "link_settled env phase l =
     bind_res (device_status env phase (lk_root l, lk_root_cap l)) (\<lambda>s.
     if \<not> settled_gen2 s then Inr False
     else bind_res (device_status env phase (lk_end l, lk_end_cap l)) (\<lambda>t. Inr (settled_gen2 t)))"

definition pending_guests :: "(string \<times> string) list \<Rightarrow> bool list \<Rightarrow> string list" where
  "pending_guests items settled = (let pending = map fst (filter (\<lambda>(item, ok). \<not> ok) (zip items settled)) in
     map snd (if pending = [] then items else pending))"

definition targets_ok :: "host_env \<Rightarrow> pci_link list \<Rightarrow> host_error + unit" where
  "targets_ok env links = map_sum id (\<lambda>_. ()) (map_res (\<lambda>l.
     bind_res (read_at env 1 (lk_root l) (lk_root_cap l + 0x30) 2) (\<lambda>v. ensure (2 \<le> v AND 15) TargetBelowGen2)) links)"

definition verify_links :: "host_env \<Rightarrow> pci_link list \<Rightarrow> aer_status option list \<Rightarrow> host_error + link_status list \<times> aer_status option list" where
  "verify_links env links before =
     bind_res (link_states env 3 links) (\<lambda>states.
     bind_res (ensure (list_all settled_gen2 states) NotVerified) (\<lambda>_.
     bind_res (link_aers env 4 links) (\<lambda>after.
     bind_res (ensure (\<not> list_ex (\<lambda>(b, a). new_uncorrectable b a) (zip before after)) NewAer) (\<lambda>_.
     Inr (states, after)))))"

definition passed_text :: "string \<Rightarrow> pci_link list \<Rightarrow> link_status list \<Rightarrow> aer_status option list \<Rightarrow> string" where
  "passed_text boot links states after =
     state_text (passed_state boot (zip (map fst (concat (map link_devices links))) states) after)"

text \<open>The helper's output is sliced for the log.\<close>

definition attempt :: "host_env \<Rightarrow> (string \<times> string) list \<Rightarrow> pci_link list \<Rightarrow> string \<Rightarrow> unit action" where
  "attempt env items links boot =
     and_then (pure_action (link_aers env 1 links)) (\<lambda>before.
     and_then (emit (SaveState (state_text (started_state boot))) (targets_ok env links)) (\<lambda>_.
     and_then (emit StartService (guest_exec (he_integral env) (he_service env))) (\<lambda>_.
     and_then (pure_action (map_res (link_settled env 2) links)) (\<lambda>settled.
     and_then (emit (RunHelper (pending_guests items settled))
       (bind_res (guest_exec (he_integral env) (he_helper env)) (\<lambda>out. ensure (sliceable out) GuestGarbled))) (\<lambda>_.
     and_then (pure_action (verify_links env links before)) (\<lambda>(states, after).
     emit (SaveState (passed_text boot links states after)) (Inr ())))))))"

text \<open>An exception after the boot identifier was set records the boot as failed.\<close>

definition record_failure :: "host_env \<Rightarrow> string option \<Rightarrow> 'a action \<Rightarrow> 'a action" where
  "record_failure env boot m = (case m of
     (es, Inl e) \<Rightarrow> (es @ (case boot of None \<Rightarrow> [] | Some b \<Rightarrow> [SaveState (state_text (failed_state b (he_message env e)))]), Inl e)
   | (es, Inr x) \<Rightarrow> (es, Inr x))"

definition prepare :: "host_env \<Rightarrow> host_args \<Rightarrow> host_error + (string \<times> string) list option" where
  "prepare env args =
     bind_res (ensure (he_root env) NotRoot) (\<lambda>_.
     bind_res (ensure (he_config_safe env) UnsafeConfig) (\<lambda>_.
     bind_res (of_option BadConfig (Option.bind (he_config env) loads)) (\<lambda>data.
     bind_res (validate_config (he_integral env) data (ar_vmid args)) (\<lambda>items.
     bind_res (of_option CommandFailed (he_vm_status env)) (\<lambda>out.
     Inr (if strip out = ''status: running'' then Some items else None))))))"

definition inventory_links :: "host_env \<Rightarrow> (string \<times> string) list \<Rightarrow> host_error + pci_link list \<times> link_status list" where
  "inventory_links env items =
     bind_res (of_option CommandFailed (he_vm_config env)) (\<lambda>vmconfig.
     bind_res (assigned_devices vmconfig) (\<lambda>assigned.
     bind_res (map_res (open_link env assigned) items) (\<lambda>links.
     bind_res (link_states env 0 links) (\<lambda>states. Inr (links, states)))))"

text \<open>Nothing is left to do: the second test is made only when the first holds.\<close>

definition already_settled :: "host_env \<Rightarrow> link_status list \<Rightarrow> json \<Rightarrow> host_error + bool" where
  "already_settled env states previous =
     (if list_all settled_gen2 states then bind_res (failed_value previous) (\<lambda>v. Inr (\<not> truthy (he_integral env) v)) else Inr False)"

definition run_host :: "host_env \<Rightarrow> host_args \<Rightarrow> int action" where
  "run_host env args =
     and_then (pure_action (prepare env args)) (\<lambda>ready. case ready of
       None \<Rightarrow> pure_action (Inr 0)
     | Some items \<Rightarrow>
         and_then (pure_action (inventory_links env items)) (\<lambda>(links, states).
         and_then (pure_action (read_state (he_state env))) (\<lambda>previous.
         and_then (pure_action (already_settled env states previous)) (\<lambda>idle.
         if idle then pure_action (Inr 0)
         else if ar_check args then pure_action (Inr 1)
         else case await_boot (he_integral env) None (he_boot env) of
           (boot, Inl e) \<Rightarrow> record_failure env boot (pure_action (Inl e))
         | (_, Inr b) \<Rightarrow>
             record_failure env (Some b) (and_then (pure_action (failed_value previous)) (\<lambda>v.
               if v = JString b \<and> \<not> ar_retry args then pure_action (Inr 1)
               else and_then (attempt env items links b) (\<lambda>_. pure_action (Inr 0))))))))"

text \<open>The exit status; \<open>locked\<close> says that another coordinator holds the lock.\<close>

definition host_main :: "bool \<Rightarrow> host_env \<Rightarrow> host_args \<Rightarrow> host_effect list \<times> int" where
  "host_main locked env args =
     (if \<not> (100 \<le> ar_vmid args \<and> ar_vmid args \<le> 999999999) then ([], 2)
      else if locked then ([], 0)
      else case run_host env args of (es, Inl e) \<Rightarrow> (es, 1) | (es, Inr status) \<Rightarrow> (es, status))"

subsection \<open>The order of effects\<close>

lemma and_then_simps [simp]:
  "and_then (es, Inl e) f = (es, Inl e)"
  "and_then ([], Inr x) f = f x"
  "and_then (es, Inr x) f = (es @ fst (f x), snd (f x))"
  by (simp_all add: and_then_def split: prod.splits)

lemma pure_action_simps [simp]: "pure_action r = ([], r)"
  by (simp add: pure_action_def)

text \<open>
  An attempt stops after one of its first three effects with an exception, or has all four and
  then everything was verified.
\<close>

lemma attempt_effects:
  assumes "attempt env items links boot = (es, r)"
  obtains (fails) e n settled where "r = Inl e" "n < 4"
      "es = take n [SaveState (state_text (started_state boot)), StartService, RunHelper (pending_guests items settled)]"
    | (passes) settled before states after where "r = Inr ()" "targets_ok env links = Inr ()" "link_aers env 1 links = Inr before"
      "verify_links env links before = Inr (states, after)"
      "es = [SaveState (state_text (started_state boot)), StartService, RunHelper (pending_guests items settled),
         SaveState (passed_text boot links states after)]"
proof (cases "link_aers env 1 links")
  case (Inl e)
  then show thesis using assms fails [of e 0] by (simp add: attempt_def)
next
  case (Inr before)
  note aer = this
  show thesis
  proof (cases "targets_ok env links")
    case (Inl e)
    then show thesis using assms aer fails [of e 1] by (simp add: attempt_def emit_def)
  next
    case (Inr u)
    note targets = this
    show thesis
    proof (cases "guest_exec (he_integral env) (he_service env)")
      case (Inl e)
      then show thesis using assms aer targets fails [of e 2] by (simp add: attempt_def emit_def)
    next
      case (Inr out)
      note service = this
      show thesis
      proof (cases "map_res (link_settled env 2) links")
        case (Inl e)
        then show thesis using assms aer targets service fails [of e 2] by (simp add: attempt_def emit_def)
      next
        case (Inr settled)
        note settled = this
        let ?helper = "bind_res (guest_exec (he_integral env) (he_helper env)) (\<lambda>out. ensure (sliceable out) GuestGarbled)"
        show thesis
        proof (cases ?helper)
          case (Inl e)
          then show thesis using assms aer targets service settled fails [of e 3 settled]
            by (simp add: attempt_def emit_def)
        next
          case (Inr out)
          note helper = this
          show thesis
          proof (cases "verify_links env links before")
            case (Inl e)
            then show thesis using assms aer targets service settled helper fails [of e 3 settled]
              by (simp add: attempt_def emit_def)
          next
            case (Inr sa)
            obtain states after where "sa = (states, after)" by (cases sa)
            with Inr helper show thesis
              using assms aer targets service settled passes [of before states after settled]
              by (simp add: attempt_def emit_def)
          qed
        qed
      qed
    qed
  qed
qed

text \<open>The state file after a sequence of effects.\<close>

fun state_after :: "string option \<Rightarrow> host_effect list \<Rightarrow> string option" where
  "state_after file [] = file"
| "state_after file (SaveState file' # es) = state_after (Some file') es"
| "state_after file (StartService # es) = state_after file es"
| "state_after file (RunHelper guests # es) = state_after file es"

text \<open>A run with a mutation is an attempt, after all guards.\<close>

lemma run_with_effects:
  assumes "run_host env args = (es, r)" and "m \<in> set es" and "mutation m"
  obtains items links states previous v b es' r' where "prepare env args = Inr (Some items)"
    "inventory_links env items = Inr (links, states)" "read_state (he_state env) = Inr previous" "\<not> ar_check args"
    "await_boot (he_integral env) None (he_boot env) = (Some b, Inr b)" "failed_value previous = Inr v" "v \<noteq> JString b \<or> ar_retry args"
    "attempt env items links b = (es', r')"
    "es = es' @ (case r' of Inl e \<Rightarrow> [SaveState (state_text (failed_state b (he_message env e)))] | Inr u \<Rightarrow> [])"
    "r = (case r' of Inl e \<Rightarrow> Inl e | Inr u \<Rightarrow> Inr 0)"
proof (cases "prepare env args")
  case (Inl e)
  with assms show thesis by (simp add: run_host_def)
next
  case (Inr ready)
  note ready = this
  then obtain items where items: "ready = Some items" using assms by (cases ready) (auto simp: run_host_def)
  show thesis
  proof (cases "inventory_links env items")
    case (Inl e)
    with assms ready items show thesis by (simp add: run_host_def)
  next
    case (Inr inv)
    note inventory = this
    obtain links states where inv: "inv = (links, states)" by (cases inv)
    show thesis
    proof (cases "read_state (he_state env)")
      case (Inl e)
      with assms ready items inventory inv show thesis by (simp add: run_host_def)
    next
      case (Inr previous)
      note previous = this
      let ?await = "await_boot (he_integral env) None (he_boot env)"
      obtain bo res where await: "?await = (bo, res)" by (cases ?await)
      have run: "(es, r) = (case already_settled env states previous of Inl e \<Rightarrow> ([], Inl e)
          | Inr idle \<Rightarrow> if idle then ([], Inr 0) else if ar_check args then ([], Inr 1)
          else case (bo, res) of
            (boot, Inl e) \<Rightarrow> record_failure env boot ([], Inl e)
          | (_, Inr b) \<Rightarrow> record_failure env (Some b) (case failed_value previous of Inl e \<Rightarrow> ([], Inl e)
              | Inr v \<Rightarrow> if v = JString b \<and> \<not> ar_retry args then ([], Inr 1)
                  else and_then (attempt env items links b) (\<lambda>_. ([], Inr 0))))"
        unfolding assms(1) [symmetric] run_host_def
        by (cases res; cases "already_settled env states previous"; cases "failed_value previous")
          (simp_all add: ready items inventory inv previous await)
      have settled: "already_settled env states previous = Inr False"
        using run assms(2) by (cases "already_settled env states previous") (auto split: if_splits)
      have live: "\<not> ar_check args" using run settled assms(2) by (auto split: if_splits)
      show thesis
      proof (cases res)
        case (Inl e)
        with run settled live assms(2,3) show thesis by (auto simp: record_failure_def split: option.splits)
      next
        case (Inr b)
        then have b: "bo = Some b" using await_boot_Inr await by blast
        obtain v where v: "failed_value previous = Inr v"
          using run settled live Inr assms(2,3) by (cases "failed_value previous") (auto simp: record_failure_def)
        have guard: "v \<noteq> JString b \<or> ar_retry args"
          using run settled live assms(2) Inr v by (auto simp: record_failure_def split: if_splits)
        obtain es' r' where att: "attempt env items links b = (es', r')" by (cases "attempt env items links b")
        have "(es, r) = record_failure env (Some b) (and_then (es', r') (\<lambda>_. ([], Inr 0)))"
          using run settled live Inr v guard att by (auto split: if_splits)
        then have "es = es' @ (case r' of Inl e \<Rightarrow> [SaveState (state_text (failed_state b (he_message env e)))] | Inr u \<Rightarrow> [])"
          "r = (case r' of Inl e \<Rightarrow> Inl e | Inr u \<Rightarrow> Inr 0)"
          by (cases r'; simp add: record_failure_def)+
        with that ready items inventory inv previous live await Inr b v guard att
        show thesis by blast
      qed
    qed
  qed
qed

text \<open>
  Wherever a run with a mutation is cut off, the state file names its boot as failed, except after
  its last effect when everything was verified.
\<close>

lemma state_after_attempt:
  assumes "attempt env items links b = (es, r)"
    and "es @ (case r of Inl e \<Rightarrow> [SaveState (state_text (failed_state b (he_message env e)))] | Inr u \<Rightarrow> []) = p @ q"
    and "m \<in> set p" and "mutation m"
  shows "(\<exists>previous. read_state (state_after file p) = Inr previous \<and> failed_value previous = Inr (JString b)) \<or> q = [] \<and> r = Inr ()"
proof -
  have "(\<exists>file'. state_after file p = Some file' \<and>
      (file' = state_text (started_state b) \<or> (\<exists>message. file' = state_text (failed_state b message)))) \<or> q = [] \<and> r = Inr ()"
    using assms(1)
  proof (cases rule: attempt_effects)
    case (fails e n settled)
    then consider "n = 0" | "n = 1" | "n = 2" | "n = 3" by linarith
    then show ?thesis
      using assms(2-4) fails by cases (auto simp: Cons_eq_append_conv numeral_3_eq_3)
  next
    case (passes settled before states after)
    then show ?thesis using assms(2-4) by (auto simp: Cons_eq_append_conv)
  qed
  then show ?thesis using read_failed_states by metis
qed

text \<open>The state file records a boot as failed.\<close>

definition marked :: "string option \<Rightarrow> string \<Rightarrow> bool" where
  "marked file b \<longleftrightarrow> b \<noteq> [] \<and> (\<exists>previous. read_state file = Inr previous \<and> failed_value previous = Inr (JString b))"

text \<open>A run that changed the guest and was cut off, unless it completed, leaves a marked file.\<close>

lemma interrupted_marked:
  assumes "run_host env args = (p @ q, r)" and "m \<in> set p" and "mutation m" and "q \<noteq> [] \<or> r \<noteq> Inr 0"
  obtains b where "await_boot (he_integral env) None (he_boot env) = (Some b, Inr b)" "marked (state_after (he_state env) p) b"
proof -
  obtain items links states previous b es' r' where run: "await_boot (he_integral env) None (he_boot env) = (Some b, Inr b)"
    "attempt env items links b = (es', r')"
    "p @ q = es' @ (case r' of Inl e \<Rightarrow> [SaveState (state_text (failed_state b (he_message env e)))] | Inr u \<Rightarrow> [])"
    "r = (case r' of Inl e \<Rightarrow> Inl e | Inr u \<Rightarrow> Inr 0)"
    by (rule run_with_effects [OF assms(1)]) (use assms(2,3) in auto)
  have "valid_boot_id b" using await_boot_Inr run(1) by blast
  then have "b \<noteq> []" by (auto simp: valid_boot_id_def)
  with state_after_attempt [OF run(2) run(3) [symmetric] assms(2,3), of "he_state env"] assms(4) run(4)
  have "marked (state_after (he_state env) p) b" by (auto simp: marked_def)
  with run(1) that show thesis by blast
qed

text \<open>In a marked boot, or when the guest does not tell its boot, a run without retry has no effect.\<close>

lemma marked_run_idle:
  assumes "marked (he_state env) b" and "\<not> ar_retry args"
    and "await_boot (he_integral env) None (he_boot env) = (bo, res)" and "res = Inr b \<or> bo = None"
  shows "fst (run_host env args) = []"
proof (rule ccontr)
  obtain previous where previous: "read_state (he_state env) = Inr previous" "failed_value previous = Inr (JString b)" "b \<noteq> []"
    using assms(1) by (auto simp: marked_def)
  have boot: "res = Inr b' \<Longrightarrow> bo = Some b'" for b' using await_boot_Inr assms(3) by blast
  assume "fst (run_host env args) \<noteq> []"
  then show False
    using previous boot assms(2-4)
    by (auto simp: run_host_def and_then_def record_failure_def already_settled_def bind_res_def
        split: sum.splits option.splits prod.splits if_splits)
qed

text \<open>What the guards establish of one card and of the port above it.\<close>

definition supported_card :: "host_env \<Rightarrow> string \<Rightarrow> bool" where
  "supported_card env host \<longleftrightarrow> (\<exists>cfg rcfg cap flags caps.
     he_space env 0 host = Some cfg \<and> get_field 2 cfg 0 = Some 0x10de \<and> get_field 2 cfg 2 = Some 0x1d84 \<and>
     he_driver env host = ''vfio-pci'' \<and> he_space env 0 (he_parent env host) = Some rcfg \<and> find_pcie rcfg = Inr cap \<and>
     get_field 2 rcfg (cap + 2) = Some flags \<and> drop_bit 4 flags AND 15 \<in> {4, 6} \<and>
     get_field 2 rcfg (cap + 0xc) = Some caps \<and> 2 \<le> caps AND 15)"

lemma lift_pci_Inr: "lift_pci r = Inr x \<longleftrightarrow> r = Inr x"
  by (cases r) (simp_all add: lift_pci_def)

lemma read_at_Inr: "read_at env phase bdf offset width = Inr v \<longleftrightarrow>
    (\<exists>cfg. he_space env phase bdf = Some cfg \<and> get_field width cfg offset = Some v)"
  by (auto simp: read_at_def space_at_def bind_res_Inr_conv lift_pci_Inr read_config_def)

lemma open_pci_Inr: "open_pci env bdf = Inr cap \<longleftrightarrow> (\<exists>cfg. he_space env 0 bdf = Some cfg \<and> find_pcie cfg = Inr cap)"
  by (auto simp: open_pci_def space_at_def bind_res_Inr_conv lift_pci_Inr)

lemma open_link_supported:
  assumes "open_link env assigned item = Inr l"
  shows "fst item \<in> set assigned \<and> supported_card env (fst item) \<and> lk_end l = fst item \<and> lk_root l = he_parent env (fst item)"
proof -
  from assms obtain cap root_cap flags caps where l: "fst item \<in> set assigned" "read_at env 0 (fst item) 0 2 = Inr 0x10de"
    "read_at env 0 (fst item) 2 2 = Inr 0x1d84" "he_driver env (fst item) = ''vfio-pci''"
    "open_pci env (he_parent env (fst item)) = Inr root_cap"
    "read_at env 0 (he_parent env (fst item)) (root_cap + 2) 2 = Inr flags" "drop_bit 4 flags AND 15 \<in> {4, 6}"
    "read_at env 0 (he_parent env (fst item)) (root_cap + 0xc) 2 = Inr caps" "2 \<le> caps AND 15"
    "l = \<lparr>lk_root = he_parent env (fst item), lk_root_cap = root_cap, lk_end = fst item, lk_end_cap = cap\<rparr>"
    unfolding open_link_def Let_def by (elim bind_res_InrE) (simp only: ensure_Inr, blast)
  then show ?thesis unfolding supported_card_def read_at_Inr open_pci_Inr by auto
qed

lemma links_ends: "map_res (open_link env assigned) items = Inr links \<Longrightarrow> map lk_end links = map fst items"
  by (induction items arbitrary: links) (auto simp: bind_res_Inr_conv dest: open_link_supported)



lemma validate_config_nonempty: "validate_config integral data vmid = Inr items \<Longrightarrow> items \<noteq> []"
  by (auto simp: validate_config_def bind_res_Inr_conv Let_def dest!: map_res_length split: json.splits option.splits)


text \<open>Both ends of the configured links: the port above the card, and the card.\<close>

definition configured_ends :: "host_env \<Rightarrow> (string \<times> string) list \<Rightarrow> string list" where
  "configured_ends env items = concat (map (\<lambda>(host, guest). [he_parent env host, host]) items)"

text \<open>
  A reading of a device: the status register of its own PCI Express capability, read after the helper
  finished, says generation 2, a link width and no training.
\<close>

definition read_at_gen2 :: "host_env \<Rightarrow> string \<Rightarrow> link_status \<Rightarrow> bool" where
  "read_at_gen2 env bdf s \<longleftrightarrow> (\<exists>cfg0 cap cfg. he_space env 0 bdf = Some cfg0 \<and> find_pcie cfg0 = Inr cap \<and>
     he_space env 3 bdf = Some cfg \<and> get_field 2 cfg (cap + 0x12) = Some (ls_value s) \<and> ls_value s \<noteq> 0xffff \<and>
     ls_value s AND 15 = 2 \<and> 1 \<le> drop_bit 4 (ls_value s) AND 63 \<and> ls_value s AND 0x800 = 0 \<and>
     ls_generation s = 2 \<and> ls_width s = drop_bit 4 (ls_value s) AND 63 \<and> \<not> ls_training s)"

text \<open>Wherever both spaces have the error reporting capability, no bit of its uncorrectable register is new.\<close>

definition no_new_error :: "host_env \<Rightarrow> string \<Rightarrow> bool" where
  "no_new_error env bdf \<longleftrightarrow> (\<exists>before after. he_space env 1 bdf = Some before \<and> he_space env 4 bdf = Some after \<and>
     (\<forall>e e'. aer_at before e \<and> aer_at after e' \<longrightarrow>
       (\<exists>u u'. get_field 4 before (e + 4) = Some u \<and> get_field 4 after (e' + 4) = Some u' \<and> u' AND NOT u = 0)))"

text \<open>What the state file says of a device.\<close>

definition link_report :: "host_env \<Rightarrow> string \<Rightarrow> json \<Rightarrow> bool" where
  "link_report env bdf j \<longleftrightarrow> (\<exists>s. read_at_gen2 env bdf s \<and> j = JObject [(''bdf'', JString bdf), (''raw'', JString (py_hex 4 (ls_value s))),
     (''generation'', JInt 2), (''width'', JInt (drop_bit 4 (ls_value s) AND 63)), (''training'', JBool False)])"

definition aer_report :: "host_env \<Rightarrow> string \<Rightarrow> json \<Rightarrow> bool" where
  "aer_report env bdf j \<longleftrightarrow> (\<exists>cfg a. he_space env 4 bdf = Some cfg \<and> read_aer cfg = Inr a \<and> j = (case a of None \<Rightarrow> JNull
     | Some s \<Rightarrow> JObject [(''uncorrectable'', JInt (ae_uncorrectable s)), (''correctable'', JInt (ae_correctable s))]))"

lemma open_link_ends:
  assumes "open_link env assigned item = Inr l"
  shows "lk_end l = fst item \<and> lk_root l = he_parent env (fst item) \<and>
    open_pci env (lk_end l) = Inr (lk_end_cap l) \<and> open_pci env (lk_root l) = Inr (lk_root_cap l)"
proof -
  from assms obtain cap root_cap where "open_pci env (fst item) = Inr cap" "open_pci env (he_parent env (fst item)) = Inr root_cap"
    "l = \<lparr>lk_root = he_parent env (fst item), lk_root_cap = root_cap, lk_end = fst item, lk_end_cap = cap\<rparr>"
    unfolding open_link_def Let_def by (elim bind_res_InrE) (simp only: ensure_Inr, blast)
  then show ?thesis by simp
qed

lemma links_devices:
  assumes "map_res (open_link env assigned) items = Inr links"
  shows "map fst (concat (map link_devices links)) = configured_ends env items \<and>
    (\<forall>(bdf, cap) \<in> set (concat (map link_devices links)). open_pci env bdf = Inr cap)"
  using assms
proof (induction items arbitrary: links)
  case (Cons item items)
  then obtain l ls where "open_link env assigned item = Inr l" "map_res (open_link env assigned) items = Inr ls" "links = l # ls"
    by (auto simp: bind_res_Inr_conv)
  moreover obtain host guest where "item = (host, guest)" by (cases item)
  moreover note Cons.IH [OF calculation(2)] open_link_ends [OF calculation(1)]
  ultimately show ?case by (auto simp: configured_ends_def link_devices_def)
qed (simp add: configured_ends_def)

lemma status_at_gen2:
  assumes "device_status env 3 (bdf, cap) = Inr s" and "open_pci env bdf = Inr cap" and "settled_gen2 s"
  shows "read_at_gen2 env bdf s"
proof -
  obtain cfg0 where "he_space env 0 bdf = Some cfg0" "find_pcie cfg0 = Inr cap" using assms(2) by (auto simp: open_pci_Inr)
  moreover obtain cfg v where "he_space env 3 bdf = Some cfg" "get_field 2 cfg (cap + 0x12) = Some v" "v \<noteq> 0xffff"
    "s = \<lparr>ls_value = v, ls_generation = v AND 15, ls_width = drop_bit 4 v AND 63, ls_training = (v AND 0x800 \<noteq> 0)\<rparr>"
    using assms(1) by (auto simp: device_status_def space_at_def link_status_at_def read_config_def lift_pci_Inr bind_res_Inr_conv)
  ultimately show ?thesis using assms(3) unfolding read_at_gen2_def settled_gen2_def by auto
qed

lemma status_report: "read_at_gen2 env bdf s \<Longrightarrow> link_report env bdf (status_json bdf s)"
  by (auto simp: link_report_def status_json_def read_at_gen2_def intro!: exI [of _ s])

lemma device_aer_Inr: "device_aer env phase (bdf, cap) = Inr a \<longleftrightarrow> (\<exists>cfg. he_space env phase bdf = Some cfg \<and> read_aer cfg = Inr a)"
  by (auto simp: device_aer_def space_at_def lift_pci_Inr bind_res_Inr_conv)

lemma aer_no_new:
  assumes "device_aer env 1 (bdf, cap) = Inr b" and "device_aer env 4 (bdf, cap) = Inr a" and "\<not> new_uncorrectable b a"
  shows "no_new_error env bdf"
proof -
  obtain before after where cfg: "he_space env 1 bdf = Some before" "read_aer before = Inr b" "he_space env 4 bdf = Some after" "read_aer after = Inr a"
    using assms(1,2) by (auto simp: device_aer_Inr)
  have "\<exists>u u'. get_field 4 before (e + 4) = Some u \<and> get_field 4 after (e' + 4) = Some u' \<and> u' AND NOT u = 0"
    if "aer_at before e" "aer_at after e'" for e e'
    using read_aer_finds [OF cfg(2) that(1)] read_aer_finds [OF cfg(4) that(2)] assms(3) by (auto simp: new_uncorrectable_def)
  with cfg show ?thesis unfolding no_new_error_def by blast
qed

lemma map_res_all2: "map_res f xs = Inr ys \<Longrightarrow> (\<And>x y. x \<in> set xs \<Longrightarrow> y \<in> set ys \<Longrightarrow> f x = Inr y \<Longrightarrow> P (fst x) y) \<Longrightarrow> list_all2 P (map fst xs) ys"
  by (simp add: map_res_Inr_conv list_all2_conv_all_nth)

lemma link_status_ok: "link_status_at cfg cap = Inr s \<Longrightarrow> json_ok (status_json bdf s)"
proof -
  assume "link_status_at cfg cap = Inr s"
  then obtain v where s: "s = \<lparr>ls_value = v, ls_generation = v AND 15, ls_width = drop_bit 4 v AND 63, ls_training = (v AND 0x800 \<noteq> 0)\<rparr>"
    by (auto simp: link_status_at_def bind_res_Inr_conv)
  have "v AND 15 \<le> 15" "drop_bit 4 v AND 63 \<le> 63" by (simp_all add: and_le_mask)
  then have "json_ok (JInt (v AND 15))" "json_ok (JInt (drop_bit 4 v AND 63))" by (intro field_json_ok; simp)+
  then show ?thesis by (simp add: status_json_def s)
qed

lemma aer_walk_bounds:
  "aer_walk cfg offset seen = Inr (Some a) \<Longrightarrow> json_ok (aer_json (Some a))"
proof (induction cfg offset seen rule: aer_walk.induct)
  case (1 cfg offset seen)
  show ?case
  proof (cases "\<exists>u c. get_field 4 cfg (offset + 4) = Some u \<and> get_field 4 cfg (offset + 0x10) = Some c \<and> a = \<lparr>ae_uncorrectable = u, ae_correctable = c\<rparr>")
    case True
    then obtain u c where "get_field 4 cfg (offset + 4) = Some u" "get_field 4 cfg (offset + 0x10) = Some c"
      "a = \<lparr>ae_uncorrectable = u, ae_correctable = c\<rparr>" by blast
    then show ?thesis using get_field_bounds [of 4 cfg] field_json_ok by (auto simp: aer_json_def)
  next
    case False
    then obtain header where "offset \<noteq> 0 \<and> offset \<notin> set seen \<and> length seen < 256" "header \<noteq> 0 \<and> header \<noteq> 0xffffffff"
      "header AND 0xffff \<noteq> 1" "aer_walk cfg (nat (drop_bit 20 header AND 0xffc)) (offset # seen) = Inr (Some a)"
      using "1.prems" by (subst (asm) aer_walk.simps) (auto simp: read_config_def bind_res_Inr_conv split: if_splits)
    then show ?thesis using "1.IH" by auto
  qed
qed

lemma aer_ok: "device_aer env phase d = Inr a \<Longrightarrow> json_ok (aer_json a)"
  using aer_walk_bounds [of _ "0x100" "[]"]
  by (cases a) (auto simp: device_aer_def space_at_def read_aer_def bind_res_Inr_conv lift_pci_Inr aer_json_def [of None])

lemma status_ok: "device_status env phase d = Inr s \<Longrightarrow> json_ok (status_json bdf s)"
  by (auto simp: device_status_def space_at_def bind_res_Inr_conv lift_pci_Inr intro: link_status_ok)

lemma map_res_member: "map_res f xs = Inr ys \<Longrightarrow> y \<in> set ys \<Longrightarrow> \<exists>x \<in> set xs. f x = Inr y"
  by (induction xs arbitrary: ys) (auto simp: bind_res_Inr_conv)

text \<open>The text of a pass is read back as it was written.\<close>

lemma passed_text_loads:
  assumes "link_states env 3 links = Inr states" and "link_aers env 4 links = Inr after"
  shows "loads (passed_text boot links states after) = Some (passed_state boot (zip (map fst (concat (map link_devices links))) states) after)"
proof -
  let ?links = "zip (map fst (concat (map link_devices links))) states"
  have states: "json_ok (status_json bdf s)" if "(bdf, s) \<in> set ?links" for bdf s
    using map_res_member [OF assms(1) [unfolded link_states_def]] set_zip_rightD [OF that] status_ok by blast
  have aers: "json_ok (aer_json a)" if "a \<in> set after" for a
    using map_res_member [OF assms(2) [unfolded link_aers_def] that] aer_ok by blast
  have "json_ok (passed_state boot ?links after)" using states aers unfolding passed_state_def by auto
  moreover have "list_all is_ws [CHR 0x0A]" by (simp add: is_ws_def)
  ultimately show ?thesis unfolding passed_text_def state_text_def by (rule loads_dumps [THEN trans]) simp
qed

lemma passed_text_read:
  assumes "link_states env 3 links = Inr states" and "link_aers env 4 links = Inr after"
  shows "\<exists>previous. read_state (Some (passed_text boot links states after)) = Inr previous \<and> failed_value previous = Inr JNull"
  using passed_text_loads [OF assms, of boot] by (simp add: read_state_def failed_value_def passed_state_def json_get_def)

text \<open>
  C7: When a run that changed the guest returns 0, then after the helper finished the port above each configured
  card and the card itself were read at their own PCI Express capabilities: both are at Gen2 with a
  link width and not training; no uncorrectable error bit is set in their error reporting that was not set
  before the guest was changed; and the state file, read as JSON, is the pass of the guest's boot that lists
  just these readings.
\<close>

theorem host_success_verified:
  assumes "run_host env args = (es, Inr 0)" and "m \<in> set es" and "mutation m"
  shows "\<exists>items b links aers file. prepare env args = Inr (Some items) \<and> items \<noteq> [] \<and> snd (await_boot (he_integral env) None (he_boot env)) = Inr b \<and>
      list_all2 (link_report env) (configured_ends env items) links \<and>
      (\<forall>bdf \<in> set (configured_ends env items). no_new_error env bdf) \<and>
      list_all2 (aer_report env) (configured_ends env items) aers \<and> state_after (he_state env) es = Some file \<and>
      loads file = Some (JObject [(''status'', JString ''pass''), (''guest_boot'', JString b), (''links'', JArray links), (''aer'', JArray aers)])"
proof -
  obtain items links states0 b es' r' where run: "prepare env args = Inr (Some items)"
    "inventory_links env items = Inr (links, states0)" "attempt env items links b = (es', r')"
    "es = es' @ (case r' of Inl e \<Rightarrow> [SaveState (state_text (failed_state b (he_message env e)))] | Inr u \<Rightarrow> [])"
    "Inr 0 = (case r' of Inl e \<Rightarrow> Inl e | Inr u \<Rightarrow> Inr (0 :: int))" "await_boot (he_integral env) None (he_boot env) = (Some b, Inr b)"
    by (rule run_with_effects [OF assms])
  from run(5) obtain u where r': "r' = Inr u" by (cases r') simp_all
  from run(2) obtain assigned where links: "map_res (open_link env assigned) items = Inr links"
    by (auto simp: inventory_links_def bind_res_Inr_conv)
  define devices where "devices = concat (map link_devices links)"
  have ends: "map fst devices = configured_ends env items" "\<And>bdf cap. (bdf, cap) \<in> set devices \<Longrightarrow> open_pci env bdf = Inr cap"
    using links_devices [OF links] by (auto simp: devices_def)
  have "items \<noteq> []" using run(1) validate_config_nonempty by (auto simp: prepare_def bind_res_Inr_conv split: if_splits)
  from run(3) show ?thesis
  proof (cases rule: attempt_effects)
    case (passes settled before states after)
    from passes(4) have v: "map_res (device_status env 3) devices = Inr states" "list_all settled_gen2 states"
      "map_res (device_aer env 4) devices = Inr after" "\<not> list_ex (\<lambda>(b, a). new_uncorrectable b a) (zip before after)"
      unfolding verify_links_def link_states_def link_aers_def devices_def by (elim bind_res_InrE; auto)+
    have gen2: "list_all2 (read_at_gen2 env) (configured_ends env items) states"
      unfolding ends(1) [symmetric] using v(2) ends(2)
      by (intro map_res_all2 [OF v(1)]) (auto simp: list_all_iff intro!: status_at_gen2)
    let ?links = "map (\<lambda>(bdf, s). status_json bdf s) (zip (configured_ends env items) states)"
    have reports: "list_all2 (link_report env) (configured_ends env items) ?links"
      using gen2 by (simp add: list_all2_conv_all_nth status_report)
    have aers: "list_all2 (aer_report env) (configured_ends env items) (map aer_json after)"
      unfolding ends(1) [symmetric] list_all2_map2
      by (intro map_res_all2 [OF v(3)]) (auto simp: device_aer_Inr aer_report_def aer_json_def)
    have "no_new_error env bdf" if "bdf \<in> set (configured_ends env items)" for bdf
    proof -
      have "bdf \<in> fst ` set devices" using that by (simp only: ends(1) [symmetric] set_map)
      then obtain cap where "(bdf, cap) \<in> set devices" by fastforce
      then obtain k where k: "k < length devices" "devices ! k = (bdf, cap)" by (auto simp: in_set_conv_nth)
      have read: "length before = length devices" "device_aer env 1 (bdf, cap) = Inr (before ! k)"
        "length after = length devices" "device_aer env 4 (bdf, cap) = Inr (after ! k)"
        using passes(3) v(3) k by (auto simp: link_aers_def devices_def [symmetric] map_res_Inr_conv list_all2_conv_all_nth)
      then have "(before ! k, after ! k) \<in> set (zip before after)" using k(1) by (auto simp: set_zip)
      then have "\<not> new_uncorrectable (before ! k) (after ! k)" using v(4) by (auto simp: list_ex_iff)
      with read show ?thesis using aer_no_new by blast
    qed
    moreover have "state_after (he_state env) es = Some (passed_text b links states after)" using run(4) r' passes by simp
    moreover have "loads (passed_text b links states after) = Some (JObject [(''status'', JString ''pass''), (''guest_boot'', JString b),
        (''links'', JArray ?links), (''aer'', JArray (map aer_json after))])"
      using passed_text_loads [of env links states after b] v(1,3)
      by (simp add: link_states_def link_aers_def devices_def [symmetric] ends(1) passed_state_def)
    ultimately show ?thesis using run(1,6) \<open>items \<noteq> []\<close> reports aers
      by (intro exI [of _ items] exI [of _ b] exI [of _ ?links] exI [of _ "map aer_json after"] exI [of _ "passed_text b links states after"]) simp
  qed (use r' in simp)
qed

subsection \<open>After a pass\<close>

text \<open>
  C8: Success is stable. After a run that changed the guest and returned 0, a run that reads the state file it
  left and finds every link settled returns 0 without writing anything or touching the guest.
\<close>

theorem host_success_stable:
  assumes "run_host env args = (es, Inr 0)" and "m \<in> set es" and "mutation m"
    and "he_state env' = state_after (he_state env) es" and "prepare env' args' = Inr (Some items)"
    and "inventory_links env' items = Inr (links, states)" and "list_all settled_gen2 states"
  shows "run_host env' args' = ([], Inr 0)"
proof -
  obtain items0 links0 states0 b es' r' where run: "attempt env items0 links0 b = (es', r')"
    "es = es' @ (case r' of Inl e \<Rightarrow> [SaveState (state_text (failed_state b (he_message env e)))] | Inr u \<Rightarrow> [])"
    "Inr 0 = (case r' of Inl e \<Rightarrow> Inl e | Inr u \<Rightarrow> Inr (0 :: int))"
    by (rule run_with_effects [OF assms(1-3)])
  from run(3) obtain u where r': "r' = Inr u" by (cases r') simp_all
  from run(1) obtain previous where "read_state (he_state env') = Inr previous" "failed_value previous = Inr JNull"
  proof (cases rule: attempt_effects)
    case (passes settled before states' after)
    from passes(4) have v: "link_states env 3 links0 = Inr states'" "link_aers env 4 links0 = Inr after"
      unfolding verify_links_def by (elim bind_res_InrE; auto)+
    have "he_state env' = Some (passed_text b links0 states' after)" using assms(4) run(2) r' passes by simp
    with passed_text_read [OF v, of b] that show thesis by auto
  qed (use r' in simp)
  then show ?thesis using assms(5-7) by (simp add: run_host_def already_settled_def)
qed

subsection \<open>Two runs on one card\<close>

text \<open>A function at Gen1 or Gen2 that can be a root port as well as a card; no error reporting capability.\<close>

definition host_demo_function :: "byte \<Rightarrow> bytes" where
  "host_demo_function generation = [0xde, 0x10, 0x84, 0x1d] @ replicate 0x30 0 @ [0x40] @ replicate 11 0 @ [0x10, 0, 0x40, 0] @
     replicate 8 0 @ [2] @ replicate 5 0 @ [0x10 OR generation] @ replicate 0x1d 0 @ [2] @ replicate 0x93 0"

definition host_demo_boot :: string where
  "host_demo_boot = ''0123abcd-0123-4567-89ab-0123456789ab''"

definition host_demo_answer :: "string \<Rightarrow> int \<Rightarrow> guest_answer" where
  "host_demo_answer out code = (Some ''{\"pid\": 7}'',
     [Some ''{\"exited\": 0}'', Some (dumps None False (JObject [(''exited'', JInt 1), (''exitcode'', JInt code), (''out-data'', JString out)]))])"

text \<open>The helper succeeds or fails; the links are at Gen2 from the given reading on.\<close>

definition host_demo_env :: "string option \<Rightarrow> int \<Rightarrow> nat \<Rightarrow> host_env" where
  "host_demo_env file code gen2_from = \<lparr>he_root = True, he_config_safe = True,
     he_config = Some ''{\"vmid\": 100, \"devices\": [{\"host\": \"0000:0B:00.0\", \"guest\": \"0000:01:00.0\"}]}'',
     he_vm_status = Some ''status: running'', he_vm_config = Some ''hostpci0: 0b:00.0,pcie=1'',
     he_space = (\<lambda>phase bdf. Some (host_demo_function (if phase < gen2_from then 1 else 2))), he_driver = (\<lambda>_. ''vfio-pci''),
     he_parent = (\<lambda>_. ''0000:0a:00.0''), he_state = file, he_boot = [host_demo_answer (host_demo_boot @ [CHR 0x0A]) 0],
     he_service = host_demo_answer [] 0, he_helper = host_demo_answer [] code, he_integral = (\<lambda>_. None), he_message = (\<lambda>_. ''guest exit 1:  '')\<rparr>"

definition host_demo_args :: host_args where
  "host_demo_args = \<lparr>ar_vmid = 100, ar_check = False, ar_retry = False\<rparr>"

definition host_demo_effects :: "host_effect list" where
  "host_demo_effects = [SaveState (state_text (started_state host_demo_boot)), StartService, RunHelper [''0000:01:00.0'']]"

lemma host_demo_functions:
  "find_pcie (host_demo_function 1) = Inr 0x40" "find_pcie (host_demo_function 2) = Inr 0x40"
  "get_field 2 (host_demo_function 1) 0 = Some 0x10de" "get_field 2 (host_demo_function 1) 2 = Some 0x1d84"
  "get_field 2 (host_demo_function 1) 0x42 = Some 0x40" "get_field 2 (host_demo_function 1) 0x4c = Some 2"
  "get_field 2 (host_demo_function 2) 0 = Some 0x10de" "get_field 2 (host_demo_function 2) 2 = Some 0x1d84"
  "get_field 2 (host_demo_function 2) 0x42 = Some 0x40" "get_field 2 (host_demo_function 2) 0x4c = Some 2"
  "get_field 2 (host_demo_function 1) 0x70 = Some 2"
  "link_status_at (host_demo_function 1) 0x40 = Inr \<lparr>ls_value = 0x11, ls_generation = 1, ls_width = 1, ls_training = False\<rparr>"
  "link_status_at (host_demo_function 2) 0x40 = Inr \<lparr>ls_value = 0x12, ls_generation = 2, ls_width = 1, ls_training = False\<rparr>"
  "read_aer (host_demo_function 1) = Inr None" "read_aer (host_demo_function 2) = Inr None"
  by code_simp+

definition host_demo_items :: "(string \<times> string) list" where
  "host_demo_items = [(''0000:0b:00.0'', ''0000:01:00.0'')]"

lemma host_demo_prepare: "prepare (host_demo_env file code n) host_demo_args = Inr (Some host_demo_items)"
proof -
  have "loads (the (he_config (host_demo_env None 0 0))) = Some (JObject [(''vmid'', JInt 100),
      (''devices'', JArray [JObject [(''host'', JString ''0000:0B:00.0''), (''guest'', JString ''0000:01:00.0'')]])])"
    by code_simp
  moreover have "validate_config (\<lambda>_. None) (JObject [(''vmid'', JInt 100),
      (''devices'', JArray [JObject [(''host'', JString ''0000:0B:00.0''), (''guest'', JString ''0000:01:00.0'')]])]) 100 = Inr host_demo_items"
    by code_simp
  moreover have "strip ''status: running'' = ''status: running''" by code_simp
  ultimately show ?thesis by (simp add: prepare_def host_demo_env_def host_demo_args_def)
qed

lemma host_demo_answers:
  "await_boot (\<lambda>_. None) None [host_demo_answer (host_demo_boot @ [CHR 0x0A]) 0] = (Some host_demo_boot, Inr host_demo_boot)"
  "guest_exec (\<lambda>_. None) (host_demo_answer [] 0) = Inr (JString [])"
  "guest_exec (\<lambda>_. None) (host_demo_answer [] 1) = Inl GuestFailed"
  by code_simp+

lemma host_demo_texts:
  "assigned_devices ''hostpci0: 0b:00.0,pcie=1'' = Inr [''0000:0b:00.0'']"
  "matches_pattern HOST_BDF ''0000:0a:00.0''" "host_demo_boot \<noteq> []"
  by code_simp+

definition host_demo_link :: pci_link where
  "host_demo_link = \<lparr>lk_root = ''0000:0a:00.0'', lk_root_cap = 0x40, lk_end = ''0000:0b:00.0'', lk_end_cap = 0x40\<rparr>"

lemma host_demo_inventory: "\<exists>states. (list_all settled_gen2 states \<longleftrightarrow> n = 0) \<and>
  inventory_links (host_demo_env file code n) host_demo_items = Inr ([host_demo_link], states)"
proof -
  have "open_link (host_demo_env file code n) [''0000:0b:00.0''] (''0000:0b:00.0'', ''0000:01:00.0'') = Inr host_demo_link"
    by (cases n) (simp_all add: open_link_def open_pci_def read_at_def space_at_def lift_pci_def read_config_def host_demo_env_def
        host_demo_functions host_demo_texts host_demo_link_def)
  then show ?thesis
    by (cases n) (simp_all add: inventory_links_def host_demo_texts host_demo_env_def link_states_def link_devices_def host_demo_link_def
        device_status_def space_at_def lift_pci_def host_demo_functions settled_gen2_def host_demo_items_def)
qed

definition host_demo_pass :: string where
  "host_demo_pass = passed_text host_demo_boot [host_demo_link]
     [\<lparr>ls_value = 0x12, ls_generation = 2, ls_width = 1, ls_training = False\<rparr>,
      \<lparr>ls_value = 0x12, ls_generation = 2, ls_width = 1, ls_training = False\<rparr>] [None, None]"

lemma host_demo_attempt: "attempt (host_demo_env file code 3) host_demo_items [host_demo_link] host_demo_boot =
  (if code = 0 then (host_demo_effects @ [SaveState host_demo_pass], Inr ()) else (host_demo_effects, Inl GuestFailed))"
  if "code = 0 \<or> code = 1"
  using that
  by (auto simp: attempt_def emit_def host_demo_env_def link_aers_def link_devices_def host_demo_link_def device_aer_def space_at_def
      lift_pci_def host_demo_functions targets_ok_def read_at_def read_config_def host_demo_answers link_settled_def device_status_def
      settled_gen2_def pending_guests_def verify_links_def link_states_def new_uncorrectable_def host_demo_effects_def host_demo_items_def
      host_demo_pass_def)

lemma host_demo_run_from:
  assumes "code = 0 \<or> code = 1" and "read_state s = Inr previous" and "failed_value previous = Inr v" and "v \<noteq> JString host_demo_boot"
  shows "run_host (host_demo_env s code 3) host_demo_args =
    (if code = 0 then (host_demo_effects @ [SaveState host_demo_pass], Inr 0)
     else (host_demo_effects @ [SaveState (state_text (failed_state host_demo_boot ''guest exit 1:  ''))], Inl GuestFailed))"
proof -
  let ?env = "host_demo_env s code 3"
  obtain states where inv: "\<not> list_all settled_gen2 states" "inventory_links ?env host_demo_items = Inr ([host_demo_link], states)"
    using host_demo_inventory [of 3] by auto
  have f: "read_state (he_state ?env) = Inr previous" using assms(2) by (simp add: host_demo_env_def)
  have w: "await_boot (he_integral ?env) None (he_boot ?env) = (Some host_demo_boot, Inr host_demo_boot)"
    using host_demo_answers(1) by (simp add: host_demo_env_def del: await_boot.simps)
  have c: "\<not> ar_check host_demo_args" by (simp add: host_demo_args_def)
  have m: "he_message ?env e = ''guest exit 1:  ''" for e by (simp add: host_demo_env_def)
  show ?thesis
    using assms(1,3,4) by (auto simp: run_host_def already_settled_def host_demo_prepare inv f w c m host_demo_attempt record_failure_def simp del: await_boot.simps)
qed

lemma host_demo_run:
  assumes "code = 0 \<or> code = 1"
  shows "run_host (host_demo_env None code 3) host_demo_args =
    (if code = 0 then (host_demo_effects @ [SaveState host_demo_pass], Inr 0)
     else (host_demo_effects @ [SaveState (state_text (failed_state host_demo_boot ''guest exit 1:  ''))], Inl GuestFailed))"
  by (rule host_demo_run_from [OF assms, of None "JObject []" JNull]) (simp_all add: read_state_def failed_value_def json_get_def)

lemma host_demo_mutation:
  "StartService \<in> set (host_demo_effects @ es)" "mutation StartService" "he_state (host_demo_env file code n) = file"
  by (simp_all add: host_demo_effects_def host_demo_env_def)


theorem host_success_verified_witness:
  "\<exists>j. link_report (host_demo_env None 0 3) ''0000:0a:00.0'' j \<and> no_new_error (host_demo_env None 0 3) ''0000:0a:00.0''"
proof -
  have run: "run_host (host_demo_env None 0 3) host_demo_args = (host_demo_effects @ [SaveState host_demo_pass], Inr 0)"
    using host_demo_run [of 0] by simp
  have ends: "configured_ends (host_demo_env None 0 3) host_demo_items = [''0000:0a:00.0'', ''0000:0b:00.0'']"
    by (simp add: configured_ends_def host_demo_items_def host_demo_env_def)
  from host_success_verified [OF run host_demo_mutation(1,2)] show ?thesis
    unfolding host_demo_prepare by (auto simp: ends list_all2_Cons1)
qed

text \<open>The links stay at Gen2: the next run has nothing to do.\<close>

theorem host_success_stable_witness:
  "run_host (host_demo_env (Some host_demo_pass) 0 0) host_demo_args = ([], Inr 0)"
proof -
  have run: "run_host (host_demo_env None 0 3) host_demo_args = (host_demo_effects @ [SaveState host_demo_pass], Inr 0)"
    using host_demo_run [of 0] by simp
  obtain states where inv: "list_all settled_gen2 states"
    "inventory_links (host_demo_env (Some host_demo_pass) 0 0) host_demo_items = Inr ([host_demo_link], states)"
    using host_demo_inventory [of 0] by auto
  show ?thesis
    by (rule host_success_stable [OF run host_demo_mutation(1,2) _ host_demo_prepare inv(2,1)])
      (simp add: host_demo_mutation(3) host_demo_effects_def)
qed

end
