(* ===== verification/HostHistory.thy ===== *)
theory HostHistory
  imports PcieHost "HOL-Library.Sublist"
begin

text \<open>
  \<^verbatim>\<open>scripts/cmp100-pcie-host\<close>, the runs of the coordinator on one machine one after the other. Each
  run reads the state file the one before it left, in a world of its own, and may be cut off after any
  of its effects, as when the node goes down.
\<close>

subsection \<open>Histories\<close>

type_synonym host_run = "host_env \<times> host_args \<times> host_effect list"

inductive host_history :: "string option \<Rightarrow> host_run list \<Rightarrow> string option \<Rightarrow> bool" where
  history_start: "host_history s [] s"
| history_run: "he_state env = s \<Longrightarrow> prefix es (fst (run_host env args)) \<Longrightarrow>
    host_history (state_after s es) runs s' \<Longrightarrow> host_history s ((env, args, es) # runs) s'"

inductive_simps history_Nil [simp]: "host_history s [] s'"
inductive_simps history_Cons [simp]: "host_history s (run # runs) s'"

lemma history_append: "host_history s (xs @ ys) s' \<longleftrightarrow> (\<exists>mid. host_history s xs mid \<and> host_history mid ys s')"
  by (induction xs arbitrary: s) auto

text \<open>A run was carried out to its end and returned 0.\<close>

definition completed :: "host_run \<Rightarrow> bool" where
  "completed run \<longleftrightarrow> (case run of (env, args, es) \<Rightarrow> run_host env args = (es, Inr 0))"

text \<open>The guest that answers a run is in boot \<open>b\<close>, or does not answer.\<close>

definition in_boot :: "string \<Rightarrow> host_env \<Rightarrow> bool" where
  "in_boot b env \<longleftrightarrow> (case await_boot (he_integral env) None (he_boot env) of
     (boot, Inl e) \<Rightarrow> boot = None | (boot, Inr b') \<Rightarrow> b' = b)"

definition retries :: "host_run \<Rightarrow> bool" where
  "retries run \<longleftrightarrow> (case run of (env, args, es) \<Rightarrow> ar_retry args)"

subsection \<open>One attempt per boot\<close>

text \<open>Once the file is marked, nothing happens in this boot.\<close>

lemma marked_history:
  assumes "host_history s runs s'" and "marked s b"
    and "\<forall>run \<in> set runs. \<not> retries run \<and> in_boot b (fst run)"
  shows "s' = s \<and> (\<forall>(env, args, es) \<in> set runs. es = [])"
  using assms
proof (induction rule: host_history.induct)
  case (history_run env s es args runs s')
  obtain boot res where await: "await_boot (he_integral env) None (he_boot env) = (boot, res)" by fastforce
  have "res = Inr b \<or> boot = None" "\<not> ar_retry args"
    using history_run.prems(2) await by (auto simp: in_boot_def retries_def split: sum.splits)
  with marked_run_idle [OF _ _ await] history_run.prems(1) history_run.hyps(1)
  have "fst (run_host env args) = []" by simp
  with history_run.hyps(2) have "es = []" by simp
  with history_run show ?case by simp
qed simp

text \<open>
  C4: The guest is not changed twice in one boot. Take any history of runs, each in a world of its own
  and cut off anywhere. After a run that changed the guest and did not complete, no later run writes a
  file or sends a command, as long as none is told to retry and the guest that answers is still in
  that boot or does not tell its boot.
\<close>

theorem host_attempted_once:
  assumes "host_history s (before @ (env, args, es) # after) s'"
    and "m \<in> set es" and "mutation m" and "\<not> completed (env, args, es)"
    and "snd (await_boot (he_integral env) None (he_boot env)) = Inr b"
    and "\<forall>run \<in> set after. \<not> retries run \<and> in_boot b (fst run)"
  shows "\<forall>(env', args', es') \<in> set after. es' = []"
proof -
  obtain mid where run: "he_state env = mid" "prefix es (fst (run_host env args))"
    and rest: "host_history (state_after mid es) after s'"
    using assms(1) by (auto simp: history_append)
  obtain q r where "run_host env args = (es @ q, r)"
    using run(2) by (cases "run_host env args") (auto elim: prefixE)
  moreover from this have "q \<noteq> [] \<or> r \<noteq> Inr 0" using assms(4) by (auto simp: completed_def)
  ultimately obtain b' where "await_boot (he_integral env) None (he_boot env) = (Some b', Inr b')"
    "marked (state_after (he_state env) es) b'"
    using interrupted_marked assms(2,3) by blast
  with assms(5) run(1) have "marked (state_after mid es) b" by simp
  from marked_history [OF rest this assms(6)] show ?thesis by blast
qed

subsection \<open>Histories of one card\<close>

definition host_demo_failed :: string where
  "host_demo_failed = state_text (failed_state host_demo_boot ''guest exit 1:  '')"

lemma host_demo_failure: "run_host (host_demo_env None 1 3) host_demo_args = (host_demo_effects @ [SaveState host_demo_failed], Inl GuestFailed)"
  using host_demo_run [of 1] by (simp add: host_demo_failed_def)

text \<open>The helper fails, and the node goes down before the failure is recorded: the next run does nothing.\<close>

lemma host_demo_boots:
  "await_boot (he_integral (host_demo_env s code n)) None (he_boot (host_demo_env s code n)) = (Some host_demo_boot, Inr host_demo_boot)"
  using host_demo_answers(1) by (simp add: host_demo_env_def del: await_boot.simps)

theorem host_attempted_once_witness:
  "fst (run_host (host_demo_env (Some (state_text (started_state host_demo_boot))) 0 3) host_demo_args) = []"
proof -
  let ?env = "host_demo_env (Some (state_text (started_state host_demo_boot))) 0 3"
  let ?es = "fst (run_host ?env host_demo_args)"
  have history: "host_history None ([] @ (host_demo_env None 1 3, host_demo_args, host_demo_effects) # [(?env, host_demo_args, ?es)])
      (state_after (Some (state_text (started_state host_demo_boot))) ?es)"
    by (simp add: host_demo_failure host_demo_mutation(3) host_demo_effects_def)
  have mutated: "StartService \<in> set host_demo_effects" by (simp add: host_demo_effects_def)
  have first: "\<not> completed (host_demo_env None 1 3, host_demo_args, host_demo_effects)"
    by (simp add: completed_def host_demo_failure)
  have boots: "snd (await_boot (he_integral (host_demo_env None 1 3)) None (he_boot (host_demo_env None 1 3))) = Inr host_demo_boot"
    by (simp only: host_demo_boots snd_conv)
  have same: "\<forall>run \<in> set [(?env, host_demo_args, ?es)]. \<not> retries run \<and> in_boot host_demo_boot (fst run)"
    by (simp add: retries_def in_boot_def host_demo_boots host_demo_args_def del: await_boot.simps)
  from host_attempted_once [OF history mutated _ first boots same] show ?thesis by simp
qed

text \<open>
  The hypothesis on the boots is needed. When the guest answers without an identifier until the deadline, the
  coordinator stores that answer over the boot that failed, and the next run attempts the same boot again.
\<close>

definition host_demo_silent :: host_env where
  "host_demo_silent = (host_demo_env (Some host_demo_failed) 0 3)\<lparr>he_boot := [host_demo_answer [] 0]\<rparr>"

definition host_demo_forgotten :: string where
  "host_demo_forgotten = state_text (failed_state [] ''guest exit 1:  '')"

lemma host_demo_silent_run: "run_host host_demo_silent host_demo_args = ([SaveState host_demo_forgotten], Inl InvalidBootId)"
proof -
  let ?env = "host_demo_env (Some host_demo_failed) 0 3"
  obtain states where inv: "\<not> list_all settled_gen2 states" "inventory_links ?env host_demo_items = Inr ([host_demo_link], states)"
    using host_demo_inventory [of 3] by auto
  have same: "prepare host_demo_silent host_demo_args = prepare ?env host_demo_args"
    "inventory_links host_demo_silent host_demo_items = inventory_links ?env host_demo_items"
    by (simp_all add: host_demo_silent_def prepare_def inventory_links_def open_link_def [abs_def] open_pci_def [abs_def] read_at_def [abs_def]
        space_at_def [abs_def] link_states_def device_status_def [abs_def])
  obtain previous where previous: "read_state (he_state host_demo_silent) = Inr previous"
    using read_failed_states(2) by (auto simp: host_demo_silent_def host_demo_mutation(3) host_demo_failed_def)
  have await: "await_boot (he_integral host_demo_silent) None (he_boot host_demo_silent) = (Some [], Inl InvalidBootId)"
    by code_simp
  have other: "\<not> ar_check host_demo_args" "he_message host_demo_silent e = ''guest exit 1:  ''" for e
    by (simp_all add: host_demo_args_def host_demo_silent_def host_demo_env_def)
  show ?thesis
    by (simp add: run_host_def already_settled_def same host_demo_prepare inv previous await other record_failure_def host_demo_forgotten_def del: await_boot.simps)
qed

lemma silent_guest_attempted_twice:
  "host_history None [(host_demo_env None 1 3, host_demo_args, host_demo_effects @ [SaveState host_demo_failed]),
     (host_demo_silent, host_demo_args, [SaveState host_demo_forgotten]),
     (host_demo_env (Some host_demo_forgotten) 0 3, host_demo_args, host_demo_effects)]
     (Some (state_text (started_state host_demo_boot)))"
proof -
  obtain previous where "read_state (Some host_demo_forgotten) = Inr previous" "failed_value previous = Inr (JString [])"
    using read_failed_states(2) unfolding host_demo_forgotten_def by blast
  with host_demo_run_from [of 0 "Some host_demo_forgotten" previous "JString []"] host_demo_texts(3)
  have "prefix host_demo_effects (fst (run_host (host_demo_env (Some host_demo_forgotten) 0 3) host_demo_args))" by simp
  moreover have "he_state host_demo_silent = Some host_demo_failed" by (simp add: host_demo_silent_def host_demo_mutation(3))
  ultimately show ?thesis
    by (simp add: host_demo_failure host_demo_silent_run host_demo_mutation(3) host_demo_effects_def)
qed

end
