(* ===== verification/Spec2Isabelle.thy ===== *)
theory Spec2Isabelle
  imports TopCapture StageCapture Payloads TpcRequest Topology MmioInventory RegPacks DevinitGpc DevinitWidth
    FirmwareInventory ConditionAudit GemmRun PublicBoundary PmuProbe PlmBaseline InfoRom LiveTopology
    TpcInput GemmNumerics GemmWhole BenchmarkTensor HostHistory
begin

text \<open>
  A model of the host-side tools of CmpUnlocker for the CMP 100-210 (GV100): the Python programs
  under \<^verbatim>\<open>tools/\<close> and the Python program \<^verbatim>\<open>scripts/cmp100-pcie-host\<close>.

  \<^bold>\<open>The program.\<close> The repository unlocks mining cards and documents the evidence for it. A kernel
  hook and shell scripts act on the cards; the Python tools prepare their inputs and judge their
  outputs. \<^verbatim>\<open>build_payloads.py\<close> derives the three firmware images the hook loads. The two capture
  decoders read the kernel log the hook and its collectors write and decide whether it is a complete,
  consistent record. The analysers of ROM images, firmware listings, register packs and topology
  captures support the claims of the reports. \<^verbatim>\<open>cmp100-pcie-host\<close> runs on a Proxmox node and lets
  a guest retrain its cards at most once per boot. \<^verbatim>\<open>gemm_stress.py\<close> and \<^verbatim>\<open>benchmark_tensor.py\<close> load
  the unlocked cards and check the products. \<^verbatim>\<open>check_public_boundary.py\<close> keeps firmware and private
  data out of the publication.

  \<^bold>\<open>Theories and sources.\<close> A definition has the name of the Python function or constant it
  translates where HOL leaves that name free.

  \<^item> Shared: Prelude (results that carry an exception, dictionaries of lists, bounds of masked
    integers), PyText (strings, \<^verbatim>\<open>int(text, base)\<close>, hexadecimal formats), PyBytes (\<^verbatim>\<open>struct\<close> and slices
    over lists of bytes), BitCount (\<^verbatim>\<open>int.bit_count\<close>), Json and Csv (the texts \<^verbatim>\<open>json\<close> and
    \<^verbatim>\<open>csv\<close> write and what they read of them), CaptureScan (the interface of the two capture parsers).
  \<^item> TopWords, TopCapture: \<^verbatim>\<open>tools/decode_gv100_top.py\<close>, the decoder of the TOP table and the
    parser of its captures.
  \<^item> StageRecords, StageValidate, StageCapture: \<^verbatim>\<open>tools/decode_gv100_stages.py\<close>, its records and
    line parsers, \<^verbatim>\<open>_validate_run\<close>, and \<^verbatim>\<open>parse_capture\<close> with the exit status. StageProps holds what an
    empty error list means.
  \<^item> Payloads: \<^verbatim>\<open>tools/build_payloads.py\<close>.
  \<^item> FirmwareInventory: \<^verbatim>\<open>tools/compare_gv100_init_firmware.py\<close>. TpcInput and TpcRequest:
    \<^verbatim>\<open>tools/analyze_v100_tpc_request.py\<close>, which finds its input through the firmware inventory and
    runs the request model on it.
  \<^item> Devinit, DevinitGpc, DevinitWidth: \<^verbatim>\<open>tools/analyze_devinit_tpc_path.py\<close>,
    \<^verbatim>\<open>tools/analyze_devinit_gpc_copy.py\<close>, \<^verbatim>\<open>tools/analyze_devinit_width_path.py\<close>. Devinit holds the
    ROM reading they share. ConditionAudit: \<^verbatim>\<open>tools/audit_devinit_conditions.py\<close>.
  \<^item> Topology: \<^verbatim>\<open>tools/analyze_topology_stages.py\<close> and \<^verbatim>\<open>summarize\<close> of
    \<^verbatim>\<open>tools/cmp100-sm-topology-readonly.py\<close>. LiveTopology: the capture of the latter.
  \<^item> MmioInventory: \<^verbatim>\<open>tools/inventory_gr_mmio_calls.py\<close>. RegPacks:
    \<^verbatim>\<open>tools/analyze_gr_register_packs.py\<close>.
  \<^item> PmuProbe, PlmBaseline, InfoRom: \<^verbatim>\<open>tools/analyze_pmu_readability_probe.py\<close>,
    \<^verbatim>\<open>tools/analyze_gv100_plm_baseline.py\<close>, \<^verbatim>\<open>tools/analyze_inforom.py\<close>.
  \<^item> GemmNumerics, GemmStress, GemmRun, GemmOptions, GemmReport, GemmWhole: \<^verbatim>\<open>tools/gemm_stress.py\<close>, in the
    order operands and numerical check, one configuration, devices and batches with the exit status, options
    and telemetry, the report and the files, the program from its devices to what it prints and returns.
    BenchmarkTensor: \<^verbatim>\<open>tools/benchmark_tensor.py\<close>.
  \<^item> PciConfig, HostGuest, PcieHost, HostHistory: \<^verbatim>\<open>scripts/cmp100-pcie-host\<close>, its class \<^verbatim>\<open>PCI\<close>, the
    texts it exchanges with \<^verbatim>\<open>qm\<close>, the guest and its state file, one run of the coordinator, and the runs
    on a machine one after the other (a step relation \<open>host_history\<close> over the state file).
  \<^item> PublicBoundary: \<^verbatim>\<open>tools/check_public_boundary.py\<close>.

  \<^bold>\<open>Data and errors.\<close> A Python integer is an \<^typ>\<open>int\<close>, an index or an offset that cannot be
  negative a \<^typ>\<open>nat\<close>, a byte an \<^typ>\<open>8 word\<close>, a register of the Falcon processor
  a 32-bit word. A string is a list of code points below 256. A dataclass or a dictionary with fixed
  keys is a record; a dictionary with free keys is an association list in the order of insertion, or
  a function when neither order nor domain is observed. A function that may raise returns a sum with
  the exception on the left; messages are constructors of an error datatype per tool. A tool that has
  effects before it fails returns them beside the error (the files \<^verbatim>\<open>build_payloads.py\<close> wrote, the
  state files and guest commands of \<^verbatim>\<open>cmp100-pcie-host\<close>).

  \<^bold>\<open>Lemma groups.\<close>

  \<^item> Captures: no input raises out of a parser, every BEGIN line is accounted for, and a run or
    snapshot that is reported valid has the boundaries, counters, registers, resets and topology the
    collector promises. The reset selector exists only for a table with exactly one GR device.
    The TOP decoder refines a declarative split of the words into records, and what it reports is well-typed,
    the raw words of a record being those of the table; a complete dump decodes to its own words in
    whatever order its lines came.
  \<^item> Firmware and ROM images: layout of the built images and isolation of the patches, no image
    accepted unless it was read back; decoders determine the bytes they read, encoding again gives
    the bytes; segments of a firmware application are contiguous and inside the ROM.
  \<^item> Topology and requests: exact conditions of acceptance, agreement of the two topology
    programs, and balance and effect of a TPC request.
  \<^item> The MMIO inventory is sound for every processor that obeys the contract \<^verbatim>\<open>conforms\<close>: what
    the listing of a call states of its arguments is true in each execution that reaches it.
  \<^item> \<^verbatim>\<open>cmp100-pcie-host\<close>: in any history of runs, cut off anywhere, a boot that was attempted and failed
    is not attempted again without \<^verbatim>\<open>--retry\<close> while the guest tells its boot or nothing; a guest that
    answers without an identifier makes the coordinator forget (\<open>silent_guest_attempted_twice\<close>). The guest is changed only after every guard passed and the attempt was recorded, and
    success is reported only for links of which both ends, the card and its own upstream port, were read at
    generation 2 with no new uncorrectable error; it is read back from the state file by later runs, which then
    do nothing. The walk of
    a capability list behind the header finds the PCI Express capability exactly when the list leads
    to one.
  \<^item> \<^verbatim>\<open>gemm_stress.py\<close>: what a passing configuration and exit status 0 guarantee for every device and
    configuration (\<open>passed_run\<close>: statistics, gates and checked errors; a configuration over its memory budget is
    skipped and does not fail the run, and an error that is not a number does not count), the timed loop returns
    in both modes, the files that are written are read back with the measured values under their keys, and the
    two checks compare the stated parts of the output with the FP32 product of the operands drawn.
  \<^item> The report of the condition audit, read as JSON, lists the registers to capture and the missing ones.
  \<^item> The other analysers: exact conditions under which each accepts its input.

  \<^bold>\<open>Interfaces.\<close> \<^verbatim>\<open>grouping\<close> (Prelude) states what a dictionary of lists guarantees and is
  interpreted on \<^verbatim>\<open>group_by\<close>; \<^verbatim>\<open>codec\<close> (PyText) states a round trip and is interpreted on hexadecimal text,
  on little-endian fields, and on the texts of JSON and of CSV; \<^verbatim>\<open>field_buffer\<close> (PyBytes) states the laws of reading and writing fields of
  a buffer and is interpreted on 32-bit fields for the payload builder; \<^verbatim>\<open>block_scan\<close> (CaptureScan) states the
  contract of a block parser and is interpreted on the steps of both capture parsers.

  \<^bold>\<open>Loops and bounds.\<close> Loops over lists are structural. \<^verbatim>\<open>bit_count\<close>, the decoders of scripts and
  the scanner of printable runs terminate by a measure on what is left of the input. The capability
  walks keep the code's own bounds: 48 entries suffice for a standard list behind the header, since
  pointers are multiples of four and 48 of them lie in the 192 bytes from 0x40 on; the extended list
  stops after 256 entries, as in the code. The timed loop of \<^verbatim>\<open>gemm_stress.py\<close> consumes one listed
  answer of the environment per step and is None when it wants more of them than are listed. In the fixed
  mode as many timed products as iterations requested are enough, which is a property of its own; the
  sustained mode ends at the first timed product that ends at or after the requested seconds, a property too. The JSON
  reader has twice the length of its text plus one as fuel, which is never used up (\<open>fuel_enough\<close>, as every
  call consumes a character or is followed by one that does). Waiting for a guest consumes one
  listed answer per attempt and ends with a timeout when they are used up. No other fuel is used.

  \<^bold>\<open>Parameters.\<close> SHA-256 is an arbitrary function \<^verbatim>\<open>digest\<close>; no property assumes that it has no
  collisions. PyTorch's conversion to FP32, its FP32 product, subtraction and norm are the record \<open>torch\<close> of
  GemmNumerics, about which nothing is assumed. Floats are real numbers without rounding, except that the relative error may be
  not-a-number or infinite, as the comparisons treat these differently; the texts of floats are the
  parameters \<open>fmt\<close>, \<open>float_repr\<close> and \<open>round3\<close>, the integer a float text equals is \<open>integral\<close>, the
  text of an exception of \<^verbatim>\<open>cmp100-pcie-host\<close> is \<open>he_message\<close>. What the outside did is given as
  a record or a list: the answers of PyTorch and of the clock, the interrupts, the files of the device directory,
  the register window, the answers of \<^verbatim>\<open>qm\<close> and of the guest, what git lists. The Falcon processor is a
  relation with the contract \<^verbatim>\<open>conforms\<close>; instructions that write more than their first
  operand and indirect jumps are outside the contract, and a listing with such
  instructions is outside the soundness property.

  \<^bold>\<open>Not modelled.\<close>

  \<^item> Option parsing by \<^verbatim>\<open>argparse\<close>, opening files and mapping memory: the models start from the
    options and contents. Texts that are printed are modelled where a later run or another program reads
    them (the state file of \<^verbatim>\<open>cmp100-pcie-host\<close>, the files and report of \<^verbatim>\<open>gemm_stress.py\<close>, the report of
    \<^verbatim>\<open>audit_devinit_conditions.py\<close>); the models of the other analysers end with the values they print.
  \<^item> The limits of the interpreter: memory, and the depth of nesting at which \<^verbatim>\<open>json.loads\<close> gives up.
  \<^item> PyTorch, CUDA and \<^verbatim>\<open>nvidia-smi\<close> are third-party programs and enter as environments.
  \<^item> \<^verbatim>\<open>src/gv100_nouveau_acr_hook.c\<close>, \<^verbatim>\<open>tools/gpumon_v3_llama.c\<close>, \<^verbatim>\<open>tools/cupti_legacy_probe.c\<close>,
    \<^verbatim>\<open>tools/cmp100-nvml-clock-v2.rs\<close> and the patch of llama.cpp are not Python; they call kernel and driver
    interfaces whose code is not in the repository.
  \<^item> The shell scripts (\<^verbatim>\<open>install*.sh\<close>, \<^verbatim>\<open>tools/collect_state.sh\<close>, the other files of \<^verbatim>\<open>scripts/\<close>)
    run system commands, and the tests exercise the functions modelled here.
  \<^item> \<^verbatim>\<open>PCI.write\<close> of \<^verbatim>\<open>cmp100-pcie-host\<close> is modelled, but nothing in the program calls it, so no
    property concerns it.
\<close>

end
